(* ===== verification/Prelude.thy ===== *)
theory Prelude
  imports Main "HOL-Library.Word"
begin

text \<open>
  Shared vocabulary of the development: machine integers, the C++ error outcomes, the
  error monad, and the generic facts the component theories use.

  Errors are values: a C++ function that may throw, trip an assertion or leave the memory
  range it was given returns \<^verbatim>\<open>cpp_error + 'a\<close>.  A record of implementation
  choices carries what the C++ standard leaves to the build or to the compiler: whether
  \<^verbatim>\<open>assert\<close> is compiled in, and in which order operands and call arguments are
  evaluated.
\<close>

section \<open>Machine integers\<close>

unbundle bit_operations_syntax

type_synonym u8 = "8 word"
type_synonym u16 = "16 word"
type_synonym u32 = "32 word"
type_synonym u64 = "64 word"

section \<open>Outcomes\<close>

text \<open>
  Why a \<^verbatim>\<open>BinaryParseError\<close> was thrown.  The code only carries a message text;
  the model keeps one constructor per throwing site.
\<close>

datatype reason =
    Short_Input | Const_Test | Encrypted_Section | Unsupported_Command
  | Command_Length_Differs | Unknown_Descriptor | Crc_Mismatch
  | Nalu_Length_Size | Nalu_Empty | Nalu_Too_Long | Nalu_Overflow | Malformed_Sei

text \<open>
  \<open>Parse_Error r c l\<close> is a \<^verbatim>\<open>BinaryParseError\<close> with its fields
  \<^verbatim>\<open>bytes_consumed\<close> and \<^verbatim>\<open>bytes_left\<close>.  \<open>Range_Violation\<close> is an access
  outside the range the code was given (a pointer past its end pointer, a dereferenced empty
  optional, an inverted iterator pair): undefined behaviour, with no value to model.
  \<open>Assertion_Failed\<close> is the abort of a build that keeps its assertions.
\<close>

datatype cpp_error =
    Parse_Error reason nat nat
  | Runtime_Error string
  | Out_Of_Range string
  | Invalid_Argument string
  | Type_Error string
  | Json_Parse_Error string
  | Assertion_Failed
  | Range_Violation

type_synonym 'a result = "cpp_error + 'a"

definition parse_fail :: "reason \<Rightarrow> 'a result" where
  "parse_fail r = Inl (Parse_Error r 0 0)"

text \<open>What the standard leaves open and the code depends on.\<close>

record cpp_impl =
  asserts_on :: bool
  operands_left_first :: bool
  arguments_left_first :: bool

text \<open>A build with assertions and left-to-right evaluation, to evaluate on.\<close>

definition sample_impl :: cpp_impl where
  "sample_impl = \<lparr>asserts_on = True, operands_left_first = True, arguments_left_first = True\<rparr>"

definition cpp_assert :: "cpp_impl \<Rightarrow> bool \<Rightarrow> unit result" where
  "cpp_assert im c = (if asserts_on im \<and> \<not> c then Inl Assertion_Failed else Inr ())"

lemma cpp_assert_true [simp]: "cpp_assert im True = Inr ()"
  by (simp add: cpp_assert_def)

lemma cpp_assert_eq_Inr [simp]: "cpp_assert im c = Inr u \<longleftrightarrow> \<not> asserts_on im \<or> c"
  by (simp add: cpp_assert_def)

lemma cpp_assert_off: "\<not> asserts_on im \<Longrightarrow> cpp_assert im c = Inr ()"
  by (simp add: cpp_assert_def)

section \<open>Sequencing of fallible steps\<close>

text \<open>
  \<open>bind_res m f\<close> runs \<open>m\<close> and hands its value to \<open>f\<close>; an error ends the
  computation, as a throw does.
\<close>

fun bind_res :: "'a result \<Rightarrow> ('a \<Rightarrow> 'b result) \<Rightarrow> 'b result" where
  "bind_res (Inl e) f = Inl e"
| "bind_res (Inr x) f = f x"

lemma bind_res_cong [fundef_cong]:
  "m = m' \<Longrightarrow> (\<And>x. m' = Inr x \<Longrightarrow> f x = f' x) \<Longrightarrow> bind_res m f = bind_res m' f'"
  by (cases m') auto

lemma bind_res_Inr_iff: "bind_res m f = Inr y \<longleftrightarrow> (\<exists>x. m = Inr x \<and> f x = Inr y)"
  by (cases m) auto

lemma bind_res_Inl_iff: "bind_res m f = Inl e \<longleftrightarrow> m = Inl e \<or> (\<exists>x. m = Inr x \<and> f x = Inl e)"
  by (cases m) auto

lemma bind_res_pairE:
  assumes "bind_res m (\<lambda>(a, b). f a b) = Inr y"
  obtains a b where "m = Inr (a, b)" and "f a b = Inr y"
  using assms by (cases m) auto

lemma bind_res_tripleE:
  assumes "bind_res m (\<lambda>((a, b), c). f a b c) = Inr y"
  obtains a b c where "m = Inr ((a, b), c)" and "f a b c = Inr y"
  using assms by (cases m) auto

lemma fail_ifE:
  assumes "(if c then parse_fail e else m) = Inr y"
  obtains "\<not> c" and "m = Inr y"
  using assms by (auto simp: parse_fail_def split: if_splits)

lemma bind_resE:
  assumes "bind_res m f = Inr y"
  obtains x where "m = Inr x" and "f x = Inr y"
  using assms by (auto simp: bind_res_Inr_iff)

lemma bind_res_assoc: "bind_res (bind_res m f) g = bind_res m (\<lambda>x. bind_res (f x) g)"
  by (cases m) auto

definition is_error :: "'a result \<Rightarrow> bool" where
  "is_error r = (case r of Inl _ \<Rightarrow> True | Inr _ \<Rightarrow> False)"

lemma is_error_simps [simp]: "is_error (Inl e)" "\<not> is_error (Inr x)"
  by (simp_all add: is_error_def)

lemma is_error_iff: "is_error r \<longleftrightarrow> (\<exists>e. r = Inl e)"
  by (cases r) auto

lemma parse_fail_simps [simp]:
  "parse_fail r \<noteq> Inr x" "bind_res (parse_fail r) f = parse_fail r" "is_error (parse_fail r)"
  by (simp_all add: parse_fail_def)

section \<open>Facts on lists\<close>

lemma take_append_exact [simp]: "length xs = n \<Longrightarrow> take n (xs @ ys) = xs"
  by simp

lemma drop_append_exact [simp]: "length xs = n \<Longrightarrow> drop n (xs @ ys) = ys"
  by simp

lemma sum_list_le_mem: "x \<in> set xs \<Longrightarrow> f x \<le> (\<Sum>y\<leftarrow>xs. f y)" for f :: "'a \<Rightarrow> nat"
  by (simp add: member_le_sum_list)

lemma list_take_two:
  assumes "2 \<le> length xs"
  obtains a b ys where "xs = a # b # ys"
  using assms by (cases xs; cases "tl xs") auto

section \<open>Facts on words\<close>

text \<open>
  Splitting a word into bytes and putting it back together: the masks of the code are
  shifted copies of \<open>0xff\<close>, and disjoint sums are disjunctions.
\<close>

named_theorems byte_masks \<open>the masks of the code as shifted bytes\<close>

lemma mask_ff [byte_masks]: "(255 :: 'a::len word) = mask 8"
  by (simp add: mask_eq_exp_minus_1)

lemma byte_of_mask:
  "(ucast (drop_bit k ((v::'a::len word) AND push_bit k (mask 8))) :: u8) = ucast (drop_bit k v)"
proof (rule bit_word_eqI)
  fix n assume "n < LENGTH(8)"
  then show "bit (ucast (drop_bit k (v AND push_bit k (mask 8))) :: u8) n
      = bit (ucast (drop_bit k v) :: u8) n"
    by (auto simp: bit_simps dest: bit_imp_le_length)
qed

lemma unat_of_nat_small:
  "n < 2 ^ LENGTH('a) \<Longrightarrow> unat (of_nat n :: 'a::len word) = n"
  by (simp add: unat_of_nat)

section \<open>Strings\<close>

text \<open>The parts of a string between the occurrences of a character, empty ones included.\<close>

fun split_on :: "char \<Rightarrow> string \<Rightarrow> string list" where
  "split_on c [] = [[]]"
| "split_on c (x # xs) =
     (if x = c then [] # split_on c xs
      else (case split_on c xs of w # ws \<Rightarrow> (x # w) # ws | [] \<Rightarrow> [[x]]))"

lemma split_on_nonempty: "split_on c xs \<noteq> []"
  by (induction xs) (simp_all split: list.splits)

lemma split_on_single: "c \<notin> set xs \<Longrightarrow> split_on c xs = [xs]"
  by (induction xs) auto

lemma split_on_first: "c \<notin> set xs \<Longrightarrow> split_on c (xs @ c # ys) = xs # split_on c ys"
  by (induction xs) auto

end
