(* ===== verification/Scte35_Data.thy ===== *)
theory Scte35_Data
  imports Prelude
begin

text \<open>
  The SCTE-35 data model of \<^verbatim>\<open>src/scte35/scte35.h\<close>: one record per struct, one
  datatype per \<^verbatim>\<open>std::variant\<close>, with the fields, widths and constants of the code.
  The comparison operators of the structs are the equality of the records, as
  \<^verbatim>\<open>Scte35_Equality\<close> shows.
\<close>

section \<open>Times\<close>

record splice_time =
  pts_time :: "u64 option"

definition time_specified :: "splice_time \<Rightarrow> bool" where
  "time_specified t = (pts_time t \<noteq> None)"

record break_duration =
  bd_auto_return :: bool
  bd_duration :: u64

section \<open>Commands\<close>

record ss_component =
  ssc_component_tag :: u8
  ssc_utc_splice_time :: u32

datatype program_splice =
    Program_Splice_On u32
  | Program_Splice_Off "ss_component list"

record ss_cancel_off =
  ss_out_of_network :: bool
  ss_splice :: program_splice
  ss_break_duration :: "break_duration option"
  ss_unique_program_id :: u16
  ss_avail_num :: u8
  ss_avails_expected :: u8

definition ss_program_splice :: "ss_cancel_off \<Rightarrow> bool" where
  "ss_program_splice m = (case ss_splice m of Program_Splice_On _ \<Rightarrow> True | Program_Splice_Off _ \<Rightarrow> False)"

definition ss_duration :: "ss_cancel_off \<Rightarrow> bool" where
  "ss_duration m = (ss_break_duration m \<noteq> None)"

record ss_event =
  sse_id :: u32
  sse_more :: "ss_cancel_off option"

definition sse_cancel :: "ss_event \<Rightarrow> bool" where
  "sse_cancel e = (sse_more e = None)"

record splice_schedule =
  ss_events :: "ss_event list"

record si_component =
  sic_component_tag :: u8
  sic_splice_time :: "splice_time option"

record si_cancel_off =
  si_out_of_network :: bool
  si_program_splice :: bool
  si_splice_immediate :: bool
  si_splice_time :: "splice_time option"
  si_components :: "si_component list option"
  si_break_duration :: "break_duration option"
  si_unique_program_id :: u16
  si_avail_num :: u8
  si_avails_expected :: u8

definition si_duration :: "si_cancel_off \<Rightarrow> bool" where
  "si_duration m = (si_break_duration m \<noteq> None)"

record splice_insert =
  si_id :: u32
  si_more :: "si_cancel_off option"

definition si_cancel :: "splice_insert \<Rightarrow> bool" where
  "si_cancel i = (si_more i = None)"

record time_signal =
  tsig_splice_time :: splice_time

record private_command =
  pc_identifier :: u32
  pc_bytes :: "u8 list"

datatype command =
    Splice_Null
  | Splice_Schedule splice_schedule
  | Splice_Insert splice_insert
  | Time_Signal time_signal
  | Bandwidth_Reservation
  | Private_Command private_command

text \<open>The \<^verbatim>\<open>type\<close> constants of the command structs.\<close>

fun command_type :: "command \<Rightarrow> u8" where
  "command_type Splice_Null = 0x00"
| "command_type (Splice_Schedule _) = 0x04"
| "command_type (Splice_Insert _) = 0x05"
| "command_type (Time_Signal _) = 0x06"
| "command_type Bandwidth_Reservation = 0x07"
| "command_type (Private_Command _) = 0xFF"

section \<open>Descriptors\<close>

definition cue_identifier :: u32 where
  "cue_identifier = 0x43554549"

record avail_descriptor =
  provider_avail_id :: u32

definition avail_tag :: u8 where "avail_tag = 0x00"
definition avail_length :: u8 where "avail_length = 8"

record dtmf_descriptor =
  dtmf_preroll :: u8
  dtmf_chars :: "u8 list"

definition dtmf_tag :: u8 where "dtmf_tag = 0x01"

record segmentation_descriptor =
  seg_data :: "u8 list"

definition segmentation_tag :: u8 where "segmentation_tag = 0x02"

record time_descriptor =
  tai_seconds :: u64
  tai_nanoseconds :: u32
  utc_offset :: u16

definition time_tag :: u8 where "time_tag = 0x03"
definition time_length :: u8 where "time_length = 16"

datatype descriptor =
    Avail_Descriptor avail_descriptor
  | Dtmf_Descriptor dtmf_descriptor
  | Segmentation_Descriptor segmentation_descriptor
  | Time_Descriptor time_descriptor

lemmas descriptor_consts =
  avail_tag_def avail_length_def dtmf_tag_def segmentation_tag_def time_tag_def time_length_def

section \<open>The section\<close>

definition sis_table_id :: u8 where "sis_table_id = 0xFC"
definition sis_section_syntax_indicator :: bool where "sis_section_syntax_indicator = False"
definition sis_private_indicator :: bool where "sis_private_indicator = False"
definition sis_protocol_version :: u8 where "sis_protocol_version = 0"

record splice_info_section =
  encrypted_packet :: bool
  encryption_algorithm :: u8
  pts_adjustment :: u64
  cw_index :: u8
  tier :: u16
  command :: command
  descriptors :: "descriptor list"

text \<open>The member initialisers of the struct.\<close>

definition default_section :: splice_info_section where
  "default_section = \<lparr>encrypted_packet = False, encryption_algorithm = 0, pts_adjustment = 0,
     cw_index = 0, tier = 0xFFF, command = Splice_Null, descriptors = []\<rparr>"

end
