(* ===== verification/Byte_Cursor.thy ===== *)
theory Byte_Cursor
  imports Prelude
begin

text \<open>
  The byte readers of \<^verbatim>\<open>src/binary_parser_util.h\<close> and the byte writers of
  \<^verbatim>\<open>src/binary_emitter_util.h\<close>.

  The C++ functions take a pointer and an end pointer; the model takes the bytes between
  them, and a function that advances the pointer returns the bytes that are left.  A writer
  returns the bytes it sends to its output iterator.  Arithmetic is on words of the width
  the C++ expression has.

  The interfaces of the theory are \<open>wire_format\<close> (a writer and a reader that inverts it),
  its extension \<open>sized_format\<close> (with the size the writer announces) and \<open>suffix_reader\<close>
  (a reader that only moves forward); each comes with the lemmas on repeated reading.
\<close>

type_synonym 'a reader = "u8 list \<Rightarrow> ('a \<times> u8 list) result"

section \<open>Readers\<close>

definition require_distance :: "u8 list \<Rightarrow> nat \<Rightarrow> unit result" where
  "require_distance bs n = (if length bs < n then parse_fail Short_Input else Inr ())"

definition scan_8 :: "u8 \<Rightarrow> u8 list \<Rightarrow> u8 result" where
  "scan_8 m bs = bind_res (require_distance bs 1) (\<lambda>_. Inr (bs ! 0 AND m))"

definition read_8 :: "u8 \<Rightarrow> u8 reader" where
  "read_8 m bs = bind_res (scan_8 m bs) (\<lambda>v. Inr (v, drop 1 bs))"

definition scan_flag :: "u8 \<Rightarrow> u8 list \<Rightarrow> bool result" where
  "scan_flag m bs = bind_res (scan_8 m bs) (\<lambda>v. Inr (v \<noteq> 0))"

text \<open>\<^verbatim>\<open>read_flag\<close> takes its pointer by value: the caller's pointer stays.\<close>

definition read_flag :: "u8 \<Rightarrow> u8 list \<Rightarrow> bool result" where
  "read_flag m bs = bind_res (read_8 m bs) (\<lambda>(v, _). Inr (v \<noteq> 0))"

definition scan_12_high :: "u8 list \<Rightarrow> u16 result" where
  "scan_12_high bs = bind_res (require_distance bs 2) (\<lambda>_.
     Inr (push_bit 4 (ucast (bs ! 0)) + ucast (drop_bit 4 (bs ! 1 AND 0xF0))))"

definition read_12_high :: "u16 reader" where
  "read_12_high bs = bind_res (scan_12_high bs) (\<lambda>v. Inr (v, drop 2 bs))"

definition scan_12_low :: "u8 list \<Rightarrow> u16 result" where
  "scan_12_low bs = bind_res (require_distance bs 2) (\<lambda>_.
     Inr (push_bit 8 (ucast (bs ! 0) AND 0x0F) + ucast (bs ! 1)))"

definition read_12_low :: "u16 reader" where
  "read_12_low bs = bind_res (scan_12_low bs) (\<lambda>v. Inr (v, drop 2 bs))"

definition scan_16 :: "u8 list \<Rightarrow> u16 result" where
  "scan_16 bs = bind_res (require_distance bs 2) (\<lambda>_.
     Inr (push_bit 8 (ucast (bs ! 0)) + ucast (bs ! 1)))"

definition read_16 :: "u16 reader" where
  "read_16 bs = bind_res (scan_16 bs) (\<lambda>v. Inr (v, drop 2 bs))"

definition scan_32 :: "u8 list \<Rightarrow> u32 result" where
  "scan_32 bs = bind_res (require_distance bs 4) (\<lambda>_.
     Inr (push_bit 24 (ucast (bs ! 0)) + push_bit 16 (ucast (bs ! 1)) +
          push_bit 8 (ucast (bs ! 2)) + ucast (bs ! 3)))"

definition read_32 :: "u32 reader" where
  "read_32 bs = bind_res (scan_32 bs) (\<lambda>v. Inr (v, drop 4 bs))"

definition scan_33 :: "u8 list \<Rightarrow> u64 result" where
  "scan_33 bs = bind_res (require_distance bs 5) (\<lambda>_.
     Inr (push_bit 32 (ucast (bs ! 0 AND 1)) + push_bit 24 (ucast (bs ! 1)) +
          push_bit 16 (ucast (bs ! 2)) + push_bit 8 (ucast (bs ! 3)) + ucast (bs ! 4)))"

definition read_33 :: "u64 reader" where
  "read_33 bs = bind_res (scan_33 bs) (\<lambda>v. Inr (v, drop 5 bs))"

text \<open>
  \<^verbatim>\<open>scan_48\<close> adds a call that advances the pointer to a call that reads at the
  pointer; which operand runs first is up to the compiler.
\<close>

definition scan_48 :: "cpp_impl \<Rightarrow> u8 list \<Rightarrow> u64 result" where
  "scan_48 im bs = bind_res (require_distance bs 6) (\<lambda>_.
     if operands_left_first im then
       bind_res (read_16 bs) (\<lambda>(h, bs'). bind_res (scan_32 bs') (\<lambda>l.
         Inr (push_bit 32 (ucast h) + ucast l)))
     else
       bind_res (scan_32 bs) (\<lambda>l. bind_res (read_16 bs) (\<lambda>(h, _).
         Inr (push_bit 32 (ucast h) + ucast l))))"

definition read_48 :: "cpp_impl \<Rightarrow> u64 reader" where
  "read_48 im bs = bind_res (scan_48 im bs) (\<lambda>v. Inr (v, drop 6 bs))"

text \<open>The counting loop \<^verbatim>\<open>for (i = 0; i < n; i++) v.push_back(get(ptr, endptr))\<close>.\<close>

fun read_many :: "nat \<Rightarrow> 'a reader \<Rightarrow> 'a list reader" where
  "read_many 0 get bs = Inr ([], bs)"
| "read_many (Suc n) get bs = bind_res (get bs) (\<lambda>(x, bs').
     bind_res (read_many n get bs') (\<lambda>(xs, bs''). Inr (x # xs, bs'')))"

section \<open>Writers\<close>

definition write_8 :: "u8 \<Rightarrow> u8 list" where
  "write_8 v = [v]"

definition write_12_prefix :: "u8 \<Rightarrow> u16 \<Rightarrow> u8 list" where
  "write_12_prefix p v =
     [ucast (push_bit 4 (ucast p AND 0x0F :: u32) OR drop_bit 8 (ucast v AND 0x0F00)),
      ucast (ucast v AND 0x00FF :: u32)]"

text \<open>
  The low operand of the middle byte is written \<^verbatim>\<open>low & 0x0f00 >> 4\<close>; the shift
  binds tighter than the conjunction, so the mask is \<open>0x00f0\<close> and nothing is shifted.
\<close>

definition write_12_pair :: "u16 \<Rightarrow> u16 \<Rightarrow> u8 list" where
  "write_12_pair high low =
     [ucast (drop_bit 4 (ucast high AND 0x0FF0 :: u32)),
      ucast (ucast (ucast (push_bit 4 (ucast high AND 0x000F :: u32)) :: u8) OR
        (ucast (ucast (ucast low AND drop_bit 4 0x0F00 :: u32) :: u8) :: u32)),
      ucast (ucast low AND 0x00FF :: u32)]"

definition write_16 :: "u16 \<Rightarrow> u8 list" where
  "write_16 v = [ucast (drop_bit 8 (ucast v AND 0xFF00 :: u32)), ucast (ucast v AND 0x00FF :: u32)]"

definition write_32 :: "u32 \<Rightarrow> u8 list" where
  "write_32 v =
     [ucast (drop_bit 24 (v AND 0xFF000000)), ucast (drop_bit 16 (v AND 0x00FF0000)),
      ucast (drop_bit 8 (v AND 0x0000FF00)), ucast (v AND 0x000000FF)]"

definition write_33_prefix :: "u8 \<Rightarrow> u64 \<Rightarrow> u8 list" where
  "write_33_prefix p v =
     write_8 (ucast (ucast (p AND 0xFE) OR drop_bit 32 (v AND 0x100000000))) @
     write_32 (ucast (v AND 0xFFFFFFFF))"

definition write_48 :: "u64 \<Rightarrow> u8 list" where
  "write_48 v =
     [ucast (drop_bit 40 (v AND 0xFF0000000000)), ucast (drop_bit 32 (v AND 0x00FF00000000)),
      ucast (drop_bit 24 (v AND 0x0000FF000000)), ucast (drop_bit 16 (v AND 0x000000FF0000)),
      ucast (drop_bit 8 (v AND 0x00000000FF00)), ucast (v AND 0x0000000000FF)]"

section \<open>What the readers make of what the writers wrote\<close>

named_theorems wire \<open>reading what was written, and the sizes of what is written\<close>

lemma require_distance_simps [simp]:
  "length bs < n \<Longrightarrow> require_distance bs n = parse_fail Short_Input"
  "n \<le> length bs \<Longrightarrow> require_distance bs n = Inr ()"
  by (simp_all add: require_distance_def)

lemma require_distance_Inr [simp]: "require_distance bs n = Inr u \<longleftrightarrow> n \<le> length bs"
  by (simp add: require_distance_def parse_fail_def)

lemma read_8_Cons [wire]: "read_8 m (b # bs) = Inr (b AND m, bs)"
  by (simp add: read_8_def scan_8_def)

lemma scan_8_Cons [wire]: "scan_8 m (b # bs) = Inr (b AND m)"
  by (simp add: scan_8_def)

lemma scan_flag_Cons [wire]: "scan_flag m (b # bs) = Inr (b AND m \<noteq> 0)"
  by (simp add: scan_flag_def wire)

lemma and_byte_ff [simp]: "(b :: u8) AND 255 = b"
proof (rule bit_word_eqI)
  fix n assume "n < LENGTH(8)"
  then show "bit (b AND 255) n = bit b n" by (simp add: byte_masks bit_simps)
qed

lemma length_writes [wire]:
  "length (write_8 a) = 1" "length (write_12_prefix p b) = 2" "length (write_12_pair b c) = 3"
  "length (write_16 b) = 2" "length (write_32 d) = 4" "length (write_33_prefix p e) = 5"
  "length (write_48 e) = 6"
  by (simp_all add: write_8_def write_12_prefix_def write_12_pair_def write_16_def write_32_def
      write_33_prefix_def write_48_def)

lemma u32_masks:
  "(0xFF00 :: u32) = push_bit 8 (mask 8)" "(0xFF0000 :: u32) = push_bit 16 (mask 8)"
  "(0xFF000000 :: u32) = push_bit 24 (mask 8)" "(0xFF :: u32) = push_bit 0 (mask 8)"
  by (simp_all add: mask_eq_exp_minus_1)

lemma u64_masks:
  "(0xFF00 :: u64) = push_bit 8 (mask 8)" "(0xFF0000 :: u64) = push_bit 16 (mask 8)"
  "(0xFF000000 :: u64) = push_bit 24 (mask 8)" "(0xFF00000000 :: u64) = push_bit 32 (mask 8)"
  "(0xFF0000000000 :: u64) = push_bit 40 (mask 8)" "(0xFF :: u64) = push_bit 0 (mask 8)"
  "(0xFFFFFFFF :: u64) = mask 32" "(0x100000000 :: u64) = push_bit 32 (mask 1)"
  by (simp_all add: mask_eq_exp_minus_1)

lemma write_32_bytes:
  "write_32 v = [ucast (drop_bit 24 v), ucast (drop_bit 16 v), ucast (drop_bit 8 v), ucast v]"
  by (simp only: write_32_def u32_masks byte_of_mask) (simp add: byte_of_mask [of 0, simplified])

lemma write_48_bytes:
  "write_48 v = [ucast (drop_bit 40 v), ucast (drop_bit 32 v), ucast (drop_bit 24 v),
     ucast (drop_bit 16 v), ucast (drop_bit 8 v), ucast v]"
  by (simp only: write_48_def u64_masks byte_of_mask) (simp add: byte_of_mask [of 0, simplified])

lemma write_16_bytes: "write_16 v = [ucast (drop_bit 8 v), ucast v]"
proof -
  have "(ucast (drop_bit 8 (ucast v :: u32)) :: u8) = ucast (drop_bit 8 v)"
    by (intro bit_word_eqI) (auto simp: bit_simps)
  moreover have "(ucast (ucast v :: u32) :: u8) = ucast v"
    by (intro bit_word_eqI) (auto simp: bit_simps)
  ultimately show ?thesis
    by (simp only: write_16_def u32_masks byte_of_mask) (simp add: byte_of_mask [of 0, simplified])
qed

lemma join_16: "push_bit 8 (ucast (ucast (drop_bit 8 v) :: u8)) + ucast (ucast v :: u8) = (v :: u16)"
proof -
  have "push_bit 8 (ucast (ucast (drop_bit 8 v) :: u8)) OR ucast (ucast v :: u8) = (v :: u16)"
  proof (rule bit_word_eqI)
    fix n assume "n < LENGTH(16)"
    then show "bit (push_bit 8 (ucast (ucast (drop_bit 8 v) :: u8)) OR ucast (ucast v :: u8) :: u16) n
        = bit v n"
      by (cases "n < 8") (auto simp: bit_simps)
  qed
  then show ?thesis by (subst disjunctive_add) (auto simp: bit_simps)
qed
lemma join_32: "push_bit 24 (ucast (ucast (drop_bit 24 v) :: u8)) +
   push_bit 16 (ucast (ucast (drop_bit 16 v) :: u8)) +
   push_bit 8 (ucast (ucast (drop_bit 8 v) :: u8)) +  ucast (ucast v :: u8) = (v::u32)"
proof -
  have "push_bit 24 (ucast (ucast (drop_bit 24 v) :: u8)) OR
    push_bit 16 (ucast (ucast (drop_bit 16 v) :: u8)) OR
    push_bit 8 (ucast (ucast (drop_bit 8 v) :: u8)) OR ucast (ucast v :: u8) = (v::u32)"
  proof (rule bit_word_eqI)
    fix n assume "n < LENGTH(32)"
    then show "bit (push_bit 24 (ucast (ucast (drop_bit 24 v) :: u8)) OR
    push_bit 16 (ucast (ucast (drop_bit 16 v) :: u8)) OR
    push_bit 8 (ucast (ucast (drop_bit 8 v) :: u8)) OR ucast (ucast v :: u8) :: u32) n = bit v n"
      by (cases "n < 8"; cases "n < 16"; cases "n < 24") (auto simp: bit_simps)
  qed
  then show ?thesis by (subst disjunctive_add, force simp: bit_simps)+ (simp add: or.assoc)
qed



lemma bit_below_exp:
  fixes v :: "'a::len word"
  assumes "bit v n" and "v < 2 ^ k" and "k < LENGTH('a)"
  shows "n < k"
proof -
  from assms(2,3) have "v AND mask k = v"
    by (simp add: mask_eq_iff_w2p word_size)
  with assms(1) show ?thesis
    by (metis bit_and_iff bit_mask_iff)
qed

lemma join_48:
  "push_bit 32 (ucast (ucast (drop_bit 32 v) :: u16)) + ucast (ucast v :: u32) = v"
  if "v < 2 ^ 48" for v :: u64
proof -
  have "push_bit 32 (ucast (ucast (drop_bit 32 v) :: u16)) OR ucast (ucast v :: u32) = v"
  proof (rule bit_word_eqI)
    fix n assume "n < LENGTH(64)"
    then show "bit (push_bit 32 (ucast (ucast (drop_bit 32 v) :: u16)) OR ucast (ucast v :: u32) :: u64) n
        = bit v n"
      using bit_below_exp [of v n 48] that by (cases "n < 32") (auto simp: bit_simps)
  qed
  then show ?thesis by (subst disjunctive_add) (auto simp: bit_simps)
qed

lemma byte_of_low_word:
  "k \<le> 24 \<Longrightarrow> (ucast (drop_bit k (ucast (v :: u64) :: u32)) :: u8) = ucast (drop_bit k v)"
  by (intro bit_word_eqI) (auto simp: bit_simps)

lemma write_48_halves: "write_48 v = write_16 (ucast (drop_bit 32 v)) @ write_32 (ucast v)"
proof -
  have "ucast (drop_bit k (ucast v :: u32)) = (ucast (drop_bit k v) :: u8)" if "k \<le> 24" for k
    using that by (intro bit_word_eqI) (auto simp: bit_simps)
  moreover have "ucast (drop_bit 8 (ucast (drop_bit 32 v) :: u16)) = (ucast (drop_bit 40 v) :: u8)"
    by (intro bit_word_eqI) (auto simp: bit_simps)
  moreover have "ucast (ucast (drop_bit 32 v) :: u16) = (ucast (drop_bit 32 v) :: u8)"
    and "ucast (ucast v :: u32) = (ucast v :: u8)"
    by (intro bit_word_eqI; auto simp: bit_simps)+
  ultimately show ?thesis
    by (simp add: write_48_bytes write_16_bytes write_32_bytes)
qed

lemma read_16_write [wire]: "read_16 (write_16 v @ r) = Inr (v, r)"
  by (simp add: read_16_def scan_16_def write_16_bytes join_16)

lemma scan_32_write [wire]: "scan_32 (write_32 v @ r) = Inr v"
  by (simp add: scan_32_def write_32_bytes join_32)

lemma read_32_write [wire]: "read_32 (write_32 v @ r) = Inr (v, r)"
  by (simp add: read_32_def wire)

lemma read_48_write:
  assumes "v < 2 ^ 48" and "operands_left_first im"
  shows "read_48 im (write_48 v @ r) = Inr (v, r)"
  using assms by (simp add: read_48_def scan_48_def wire) (simp add: write_48_halves wire join_48)

definition first_byte_33 :: "u8 \<Rightarrow> u64 \<Rightarrow> u8" where
  "first_byte_33 p v = (p AND 0xFE) OR ucast (drop_bit 32 v AND 1)"

lemma write_33_prefix_bytes:
  "write_33_prefix p v = first_byte_33 p v # write_32 (ucast v)"
proof -
  have "(ucast (ucast (p AND 0xFE) OR drop_bit 32 (v AND 0x100000000)) :: u8) = first_byte_33 p v"
    unfolding first_byte_33_def u64_masks
    by (intro bit_word_eqI) (auto simp: bit_simps)
  moreover have "(ucast (v AND 0xFFFFFFFF) :: u32) = ucast v"
    unfolding u64_masks by (intro bit_word_eqI) (auto simp: bit_simps)
  ultimately show ?thesis by (simp add: write_33_prefix_def write_8_def)
qed

lemma join_33:
  "push_bit 32 (ucast (first_byte_33 p v AND 1)) +
    push_bit 24 (ucast (ucast (drop_bit 24 v) :: u8)) + push_bit 16 (ucast (ucast (drop_bit 16 v) :: u8)) +
    push_bit 8 (ucast (ucast (drop_bit 8 v) :: u8)) +  ucast (ucast v :: u8) = v"
  if "v < 2 ^ 33" for v :: u64
proof -
  have 1: "(1::u64) = mask 1" "(1::u8) = mask 1" "(0xFE :: u8) = NOT (mask 1)" by simp_all
  have "push_bit 32 (ucast (first_byte_33 p v AND 1)) OR
    push_bit 24 (ucast (ucast (drop_bit 24 v) :: u8)) OR push_bit 16 (ucast (ucast (drop_bit 16 v) :: u8)) OR
    push_bit 8 (ucast (ucast (drop_bit 8 v) :: u8)) OR ucast (ucast v :: u8) = v"
  proof (rule bit_word_eqI)
    fix n assume "n < LENGTH(64)"
    then show "bit (push_bit 32 (ucast (first_byte_33 p v AND 1)) OR
    push_bit 24 (ucast (ucast (drop_bit 24 v) :: u8)) OR push_bit 16 (ucast (ucast (drop_bit 16 v) :: u8)) OR
    push_bit 8 (ucast (ucast (drop_bit 8 v) :: u8)) OR ucast (ucast v :: u8) :: u64) n = bit v n"
      using bit_below_exp [of v n 33] that unfolding first_byte_33_def 1
      by (cases "n < 8"; cases "n < 16"; cases "n < 24"; cases "n < 32"; cases "n = 32") (auto simp: bit_simps)
  qed
  then show ?thesis
    by (subst disjunctive_add, force simp: bit_simps)+ (simp add: or.assoc)
qed

lemma read_33_write:
  assumes "v < 2 ^ 33"
  shows "read_33 (write_33_prefix p v @ r) = Inr (v, r)"
  using join_33 [OF assms, of p]
  by (simp add: read_33_def scan_33_def write_33_prefix_bytes write_32_bytes byte_of_low_word
      byte_of_low_word [of 0, simplified])

lemma scan_33_prefix:
  "scan_8 m (write_33_prefix p v @ r) = Inr (first_byte_33 p v AND m)"
  "scan_flag m (write_33_prefix p v @ r) = Inr (first_byte_33 p v AND m \<noteq> 0)"
  by (simp_all add: write_33_prefix_bytes wire)

lemma first_byte_33_high:
  assumes "\<not> bit m 0"
  shows "first_byte_33 p v AND m = p AND m"
proof -
  have 1: "(1::u64) = mask 1" "(0xFE :: u8) = NOT (mask 1)" by simp_all
  show ?thesis unfolding first_byte_33_def 1
    by (intro bit_word_eqI) (use assms in \<open>auto simp: bit_simps intro!: gr0I\<close>)
qed

text \<open>The 12-bit fields: what the readers make of what the writers sent.\<close>

lemma write_12_pair_bytes:
  "write_12_pair h l = [ucast (drop_bit 4 h), ucast (push_bit 4 h) OR (ucast l AND 0xF0), ucast l]"
proof -
  have m: "(0x0FF0 :: u32) = push_bit 4 (mask 8)" "(0xF0 :: u32) = push_bit 4 (mask 4)" "(0xF0 :: u8) = push_bit 4 (mask 4)"
     "(0xF :: u32) = mask 4" "(0xFF :: u32) = mask 8" "drop_bit 4 0x0F00 = (push_bit 4 (mask 4) :: u32)"
    by (simp_all add: mask_eq_exp_minus_1)
  have "(ucast (drop_bit 4 (ucast h AND 0x0FF0 :: u32)) :: u8) = ucast (drop_bit 4 h)"
    unfolding m by (intro bit_word_eqI) (auto simp: bit_simps)
  moreover have "(ucast (ucast (ucast (push_bit 4 (ucast h AND 0x000F :: u32)) :: u8) OR
        (ucast (ucast (ucast l AND drop_bit 4 0x0F00 :: u32) :: u8) :: u32)) :: u8)
      = ucast (push_bit 4 h) OR (ucast l AND 0xF0)"
    unfolding m by (intro bit_word_eqI) (auto simp: bit_simps)
  moreover have "(ucast (ucast l AND 0x00FF :: u32) :: u8) = ucast l"
    unfolding m by (intro bit_word_eqI) (auto simp: bit_simps)
  ultimately show ?thesis by (simp only: write_12_pair_def)
qed

lemma scan_12_high_pair:
  "scan_12_high (write_12_pair h l @ r) = Inr ((h AND 0xFFF) OR (drop_bit 4 l AND 0xF))"
proof -
  have m: "(0xF0 :: u8) = push_bit 4 (mask 4)" "(0xFFF :: u16) = mask 12" "(0xF :: u16) = mask 4"
    by (simp_all add: mask_eq_exp_minus_1)
  have "push_bit 4 (ucast (ucast (drop_bit 4 h) :: u8)) OR
      ucast (drop_bit 4 ((ucast (push_bit 4 h) OR (ucast l AND 0xF0) :: u8) AND 0xF0))
      = (h AND 0xFFF) OR (drop_bit 4 l AND 0xF)"
  proof (rule bit_word_eqI)
    fix n assume "n < LENGTH(16)"
    then show "bit (push_bit 4 (ucast (ucast (drop_bit 4 h) :: u8)) OR
      ucast (drop_bit 4 ((ucast (push_bit 4 h) OR (ucast l AND 0xF0) :: u8) AND 0xF0)) :: u16) n
      = bit ((h AND 0xFFF) OR (drop_bit 4 l AND 0xF)) n"
      unfolding m by (cases "n < 4") (auto simp: bit_simps)
  qed
  then show ?thesis
    by (simp add: scan_12_high_def write_12_pair_bytes)
      (subst disjunctive_add; auto simp: bit_simps m)
qed

lemma read_12_low_pair:
  "read_12_low (tl (write_12_pair h l @ r)) = Inr (l AND 0xFF, r)"
proof -
  have m: "(0xF0 :: u8) = push_bit 4 (mask 4)" "(0xF :: u16) = mask 4" "(0xFF :: u16) = mask 8"
    by (simp_all add: mask_eq_exp_minus_1)
  have "push_bit 8 (ucast (ucast (push_bit 4 h) OR (ucast l AND 0xF0) :: u8) AND 0xF) + ucast (ucast l :: u8)
      = (l AND 0xFF)"
  proof -
    have "ucast (ucast (push_bit 4 h) OR (ucast l AND 0xF0) :: u8) AND 0xF = (0 :: u16)"
      unfolding m by (intro bit_word_eqI) (auto simp: bit_simps)
    moreover have "ucast (ucast l :: u8) = (l AND 0xFF)"
      unfolding m by (intro bit_word_eqI) (auto simp: bit_simps)
    ultimately show ?thesis by simp
  qed
  then show ?thesis
    by (simp add: read_12_low_def scan_12_low_def write_12_pair_bytes)
qed

lemma write_12_prefix_bytes:
  "write_12_prefix p v = [push_bit 4 p OR (ucast (drop_bit 8 v) AND 0xF), ucast v]"
proof -
  have m: "(0xF :: u8) = mask 4" "(0xF :: u32) = mask 4" "(0xF00 :: u32) = push_bit 8 (mask 4)" "(0xFF :: u32) = mask 8"
    by (simp_all add: mask_eq_exp_minus_1)
  have "(ucast (push_bit 4 (ucast p AND 0x0F :: u32) OR drop_bit 8 (ucast v AND 0x0F00)) :: u8)
     = push_bit 4 p OR (ucast (drop_bit 8 v) AND 0xF)"
    unfolding m by (intro bit_word_eqI) (auto simp: bit_simps)
  moreover have "(ucast (ucast v AND 0x00FF :: u32) :: u8) = ucast v"
    unfolding m by (intro bit_word_eqI) (auto simp: bit_simps)
  ultimately show ?thesis by (simp add: write_12_prefix_def)
qed

lemma read_12_low_prefix:
  "read_12_low (write_12_prefix p v @ r) = Inr (v AND 0xFFF, r)"
proof -
  have m: "(0xF :: u8) = mask 4" "(0xFFF :: u16) = mask 12" "(0xF :: u16) = mask 4"
    by (simp_all add: mask_eq_exp_minus_1)
  have "push_bit 8 (ucast (push_bit 4 p OR (ucast (drop_bit 8 v) AND 0xF) :: u8) AND 0xF) OR ucast (ucast v :: u8)
      = v AND 0xFFF"
  proof (rule bit_word_eqI)
    fix n assume "n < LENGTH(16)"
    then show "bit (push_bit 8 (ucast (push_bit 4 p OR (ucast (drop_bit 8 v) AND 0xF) :: u8) AND 0xF)
       OR ucast (ucast v :: u8) :: u16) n = bit (v AND 0xFFF) n"
      unfolding m by (cases "n < 8") (auto simp: bit_simps)
  qed
  then show ?thesis
    by (simp add: read_12_low_def scan_12_low_def write_12_prefix_bytes)
      (subst disjunctive_add; auto simp: bit_simps)
qed

lemma read_8_pair:
  "read_8 255 (write_12_pair h l @ r) = Inr (ucast (drop_bit 4 h), tl (write_12_pair h l @ r))"
  by (simp add: write_12_pair_bytes wire)

lemma scan_flag_prefix:
  "scan_flag m (write_12_prefix p v @ r) = Inr ((push_bit 4 p OR (ucast (drop_bit 8 v) AND 0xF)) AND m \<noteq> 0)"
  by (simp add: write_12_prefix_bytes wire)

section \<open>The interfaces\<close>

text \<open>
  A wire format is a writer with a reader that inverts it on the values \<open>ok\<close> accepts,
  whatever bytes follow.  What it gives the client: counted sequences are read back, and no
  two values share an encoding, even as a prefix.
\<close>

locale wire_format =
  fixes ok :: "'a \<Rightarrow> bool"
    and put :: "'a \<Rightarrow> u8 list"
    and get :: "'a reader"
  assumes get_put: "ok x \<Longrightarrow> get (put x @ r) = Inr (x, r)"
begin

lemma read_many_put:
  "list_all ok xs \<Longrightarrow> read_many (length xs) get (concat (map put xs) @ r) = Inr (xs, r)"
  by (induction xs) (simp_all add: get_put)

lemma put_prefix_free:
  assumes "ok x" and "ok y" and "put x @ r = put y @ s"
  shows "x = y \<and> r = s"
proof -
  have "get (put x @ r) = Inr (y, s)" using assms(2,3) by (simp add: get_put)
  with assms(1) show ?thesis by (simp add: get_put)
qed

end

text \<open>A sized format also announces how many bytes it writes.\<close>

locale sized_format = wire_format +
  fixes hint :: "'a \<Rightarrow> nat"
  assumes length_put: "ok x \<Longrightarrow> length (put x) = hint x"
begin

lemma length_concat_put:
  "list_all ok xs \<Longrightarrow> length (concat (map put xs)) = (\<Sum>x\<leftarrow>xs. hint x)"
  by (induction xs) (simp_all add: length_put)

lemma length_read_many_put:
  assumes "list_all ok xs"
  shows "\<exists>bs. read_many (length xs) get bs = Inr (xs, []) \<and> length bs = (\<Sum>x\<leftarrow>xs. hint x)"
  using read_many_put [OF assms, of "[]"] length_concat_put [OF assms] by auto

end

text \<open>A reader that only moves forward: what it leaves is a tail of what it got.\<close>

locale suffix_reader =
  fixes get :: "'a reader"
  assumes leaves_suffix: "get bs = Inr (x, r) \<Longrightarrow> \<exists>p. bs = p @ r"
begin

lemma leaves_shorter: "get bs = Inr (x, r) \<Longrightarrow> length r \<le> length bs"
  by (auto dest: leaves_suffix)

lemma read_many_suffix: "read_many n get bs = Inr (xs, r) \<Longrightarrow> \<exists>p. bs = p @ r"
proof (induction n arbitrary: bs xs)
  case 0
  then show ?case by simp
next
  case (Suc n)
  then obtain y b ys where "get bs = Inr (y, b)" and "read_many n get b = Inr (ys, r)"
    by (auto simp: bind_res_Inr_iff)
  with Suc.IH leaves_suffix show ?case by (metis append.assoc)
qed

lemma read_many_length: "read_many n get bs = Inr (xs, r) \<Longrightarrow> length xs = n"
  by (induction n arbitrary: bs xs) (auto simp: bind_res_Inr_iff)

end

text \<open>A reader that consumes at least one byte whenever it succeeds.\<close>

locale strict_reader = suffix_reader +
  assumes consumes: "get bs = Inr (x, r) \<Longrightarrow> r \<noteq> bs"
begin

lemma leaves_less: "get bs = Inr (x, r) \<Longrightarrow> length r < length bs"
  using leaves_suffix consumes by fastforce

lemma read_many_consumes:
  "read_many n get bs = Inr (xs, r) \<Longrightarrow> length r + n \<le> length bs"
proof (induction n arbitrary: bs xs)
  case 0
  then show ?case by simp
next
  case (Suc n)
  then obtain y b ys where "get bs = Inr (y, b)" and "read_many n get b = Inr (ys, r)"
    by (auto simp: bind_res_Inr_iff)
  with Suc.IH leaves_less show ?case by fastforce
qed

end

subsection \<open>The byte formats are such interfaces\<close>

interpretation w8: sized_format "\<lambda>_. True" write_8 "read_8 255" "\<lambda>_. 1"
  by unfold_locales (simp_all add: write_8_def wire)

interpretation w16: sized_format "\<lambda>_. True" write_16 read_16 "\<lambda>_. 2"
  by unfold_locales (simp_all add: wire)

interpretation w32: sized_format "\<lambda>_. True" write_32 read_32 "\<lambda>_. 4"
  by unfold_locales (simp_all add: wire)

interpretation w33: sized_format "\<lambda>v. v < 2 ^ 33" "write_33_prefix p" read_33 "\<lambda>_. 5" for p
  by unfold_locales (simp_all add: wire read_33_write)

lemma drop_neq_self: "0 < n \<Longrightarrow> n \<le> length bs \<Longrightarrow> drop n bs \<noteq> bs"
proof
  assume "0 < n" and "n \<le> length bs" and "drop n bs = bs"
  then show False using length_drop [of n bs] by simp
qed

lemma strict_readerI:
  assumes "\<And>bs x r. get bs = Inr (x, r) \<Longrightarrow> r = drop n bs \<and> n \<le> length bs" and "0 < n"
  shows "strict_reader get"
proof
  fix bs x r assume "get bs = Inr (x, r)"
  then have r: "r = drop n bs" "n \<le> length bs" using assms(1) by blast+
  then show "\<exists>p. bs = p @ r" by (metis append_take_drop_id)
  from r \<open>0 < n\<close> show "r \<noteq> bs" by (simp add: drop_neq_self)
qed

lemmas scan_defs = scan_8_def scan_12_high_def scan_12_low_def scan_16_def scan_32_def scan_33_def
  scan_48_def bind_res_Inr_iff

interpretation r8: strict_reader "read_8 m" for m
  by (rule strict_readerI [where n = 1]) (auto simp: read_8_def scan_defs)

interpretation r12l: strict_reader read_12_low
  by (rule strict_readerI [where n = 2]) (auto simp: read_12_low_def scan_defs)

interpretation r16: strict_reader read_16
  by (rule strict_readerI [where n = 2]) (auto simp: read_16_def scan_defs)

interpretation r32: strict_reader read_32
  by (rule strict_readerI [where n = 4]) (auto simp: read_32_def scan_defs)

interpretation r33: strict_reader read_33
  by (rule strict_readerI [where n = 5]) (auto simp: read_33_def scan_defs)

interpretation r48: strict_reader "read_48 im" for im
  by (rule strict_readerI [where n = 6]) (auto simp: read_48_def scan_defs)

end
