(* ===== verification/Crc32.thy ===== *)
theory Crc32
  imports Byte_Cursor
begin

text \<open>
  The CRC-32 of \<^verbatim>\<open>src/scte35/crc32.h\<close> and \<^verbatim>\<open>crc32.cpp\<close>: a table-driven
  update over a 64-bit accumulator of which only the low 32 bits are ever read.

  The reference is the bit-by-bit division by the generator polynomial \<open>0x04C11DB7\<close>
  (the MPEG-2 variant: most significant bit first, start value all ones, no final inversion).
  The lemmas show that the table implements it, that a message followed by its own CRC has
  residue zero, and that a change confined to four consecutive bytes changes the CRC.
\<close>

section \<open>The code\<close>

definition crc_table :: "u32 list" where
  "crc_table =
    [0x00000000, 0x04c11db7, 0x09823b6e, 0x0d4326d9, 0x130476dc, 0x17c56b6b, 0x1a864db2, 0x1e475005,
     0x2608edb8, 0x22c9f00f, 0x2f8ad6d6, 0x2b4bcb61, 0x350c9b64, 0x31cd86d3, 0x3c8ea00a, 0x384fbdbd,
     0x4c11db70, 0x48d0c6c7, 0x4593e01e, 0x4152fda9, 0x5f15adac, 0x5bd4b01b, 0x569796c2, 0x52568b75,
     0x6a1936c8, 0x6ed82b7f, 0x639b0da6, 0x675a1011, 0x791d4014, 0x7ddc5da3, 0x709f7b7a, 0x745e66cd,
     0x9823b6e0, 0x9ce2ab57, 0x91a18d8e, 0x95609039, 0x8b27c03c, 0x8fe6dd8b, 0x82a5fb52, 0x8664e6e5,
     0xbe2b5b58, 0xbaea46ef, 0xb7a96036, 0xb3687d81, 0xad2f2d84, 0xa9ee3033, 0xa4ad16ea, 0xa06c0b5d,
     0xd4326d90, 0xd0f37027, 0xddb056fe, 0xd9714b49, 0xc7361b4c, 0xc3f706fb, 0xceb42022, 0xca753d95,
     0xf23a8028, 0xf6fb9d9f, 0xfbb8bb46, 0xff79a6f1, 0xe13ef6f4, 0xe5ffeb43, 0xe8bccd9a, 0xec7dd02d,
     0x34867077, 0x30476dc0, 0x3d044b19, 0x39c556ae, 0x278206ab, 0x23431b1c, 0x2e003dc5, 0x2ac12072,
     0x128e9dcf, 0x164f8078, 0x1b0ca6a1, 0x1fcdbb16, 0x018aeb13, 0x054bf6a4, 0x0808d07d, 0x0cc9cdca,
     0x7897ab07, 0x7c56b6b0, 0x71159069, 0x75d48dde, 0x6b93dddb, 0x6f52c06c, 0x6211e6b5, 0x66d0fb02,
     0x5e9f46bf, 0x5a5e5b08, 0x571d7dd1, 0x53dc6066, 0x4d9b3063, 0x495a2dd4, 0x44190b0d, 0x40d816ba,
     0xaca5c697, 0xa864db20, 0xa527fdf9, 0xa1e6e04e, 0xbfa1b04b, 0xbb60adfc, 0xb6238b25, 0xb2e29692,
     0x8aad2b2f, 0x8e6c3698, 0x832f1041, 0x87ee0df6, 0x99a95df3, 0x9d684044, 0x902b669d, 0x94ea7b2a,
     0xe0b41de7, 0xe4750050, 0xe9362689, 0xedf73b3e, 0xf3b06b3b, 0xf771768c, 0xfa325055, 0xfef34de2,
     0xc6bcf05f, 0xc27dede8, 0xcf3ecb31, 0xcbffd686, 0xd5b88683, 0xd1799b34, 0xdc3abded, 0xd8fba05a,
     0x690ce0ee, 0x6dcdfd59, 0x608edb80, 0x644fc637, 0x7a089632, 0x7ec98b85, 0x738aad5c, 0x774bb0eb,
     0x4f040d56, 0x4bc510e1, 0x46863638, 0x42472b8f, 0x5c007b8a, 0x58c1663d, 0x558240e4, 0x51435d53,
     0x251d3b9e, 0x21dc2629, 0x2c9f00f0, 0x285e1d47, 0x36194d42, 0x32d850f5, 0x3f9b762c, 0x3b5a6b9b,
     0x0315d626, 0x07d4cb91, 0x0a97ed48, 0x0e56f0ff, 0x1011a0fa, 0x14d0bd4d, 0x19939b94, 0x1d528623,
     0xf12f560e, 0xf5ee4bb9, 0xf8ad6d60, 0xfc6c70d7, 0xe22b20d2, 0xe6ea3d65, 0xeba91bbc, 0xef68060b,
     0xd727bbb6, 0xd3e6a601, 0xdea580d8, 0xda649d6f, 0xc423cd6a, 0xc0e2d0dd, 0xcda1f604, 0xc960ebb3,
     0xbd3e8d7e, 0xb9ff90c9, 0xb4bcb610, 0xb07daba7, 0xae3afba2, 0xaafbe615, 0xa7b8c0cc, 0xa379dd7b,
     0x9b3660c6, 0x9ff77d71, 0x92b45ba8, 0x9675461f, 0x8832161a, 0x8cf30bad, 0x81b02d74, 0x857130c3,
     0x5d8a9099, 0x594b8d2e, 0x5408abf7, 0x50c9b640, 0x4e8ee645, 0x4a4ffbf2, 0x470cdd2b, 0x43cdc09c,
     0x7b827d21, 0x7f436096, 0x7200464f, 0x76c15bf8, 0x68860bfd, 0x6c47164a, 0x61043093, 0x65c52d24,
     0x119b4be9, 0x155a565e, 0x18197087, 0x1cd86d30, 0x029f3d35, 0x065e2082, 0x0b1d065b, 0x0fdc1bec,
     0x3793a651, 0x3352bbe6, 0x3e119d3f, 0x3ad08088, 0x2497d08d, 0x2056cd3a, 0x2d15ebe3, 0x29d4f654,
     0xc5a92679, 0xc1683bce, 0xcc2b1d17, 0xc8ea00a0, 0xd6ad50a5, 0xd26c4d12, 0xdf2f6bcb, 0xdbee767c,
     0xe3a1cbc1, 0xe760d676, 0xea23f0af, 0xeee2ed18, 0xf0a5bd1d, 0xf464a0aa, 0xf9278673, 0xfde69bc4,
     0x89b8fd09, 0x8d79e0be, 0x803ac667, 0x84fbdbd0, 0x9abc8bd5, 0x9e7d9662, 0x933eb0bb, 0x97ffad0c,
     0xafb010b1, 0xab710d06, 0xa6322bdf, 0xa2f33668, 0xbcb4666d, 0xb8757bda, 0xb5365d03, 0xb1f740b4]"

definition crc_init :: u64 where
  "crc_init = 0xFFFFFFFF"

definition crc_update :: "u64 \<Rightarrow> u8 \<Rightarrow> u64" where
  "crc_update m b =
     (let ptr = ((drop_bit 24 m AND 0xFF) XOR ucast b) AND 0xFF
      in push_bit 8 m XOR ucast (crc_table ! unat ptr))"

definition crc_update_all :: "u64 \<Rightarrow> u8 list \<Rightarrow> u64" where
  "crc_update_all m bs = foldl crc_update m bs"

definition crc_value :: "u64 \<Rightarrow> u32" where
  "crc_value m = ucast (m AND 0xFFFFFFFF)"

definition crc_compute :: "u8 list \<Rightarrow> u64" where
  "crc_compute bs = crc_update_all crc_init bs"

section \<open>The reference: polynomial division, bit by bit\<close>

definition poly_step :: "u32 \<Rightarrow> u32" where
  "poly_step c = (if bit c 31 then push_bit 1 c XOR 0x04C11DB7 else push_bit 1 c)"

fun poly_steps :: "nat \<Rightarrow> u32 \<Rightarrow> u32" where
  "poly_steps 0 c = c"
| "poly_steps (Suc n) c = poly_steps n (poly_step c)"

definition ref_update :: "u32 \<Rightarrow> u8 \<Rightarrow> u32" where
  "ref_update c b = poly_steps 8 (c XOR push_bit 24 (ucast b))"

definition ref_crc :: "u8 list \<Rightarrow> u32" where
  "ref_crc bs = foldl ref_update 0xFFFFFFFF bs"



fun adjacent :: "'a list \<Rightarrow> ('a \<times> 'a) list" where
  "adjacent (x # y # xs) = (x, y) # adjacent xs"
| "adjacent _ = []"

lemma length_crc_table [simp]: "length crc_table = 256"
  by (simp add: crc_table_def)

lemma table_recurrence:
  "list_all2 (\<lambda>x (y, z). y = poly_step x \<and> z = y XOR 0x04C11DB7) (take 128 crc_table) (adjacent crc_table)"
  by (simp add: crc_table_def poly_step_def)


section \<open>The table implements the reference\<close>

lemma poly_step_xor: "poly_step (a XOR b) = poly_step a XOR poly_step b"
  by (auto simp: poly_step_def push_bit_xor bit_xor_iff ac_simps)

lemma poly_steps_xor: "poly_steps n (a XOR b) = poly_steps n a XOR poly_steps n b"
  by (induction n arbitrary: a b) (simp_all add: poly_step_xor)

lemma poly_steps_step: "poly_steps n (poly_step c) = poly_step (poly_steps n c)"
  by (induction n arbitrary: c) simp_all

lemma poly_steps_add: "poly_steps (m + n) c = poly_steps n (poly_steps m c)"
  by (induction m arbitrary: c) simp_all

lemma poly_steps_shift:
  assumes "\<And>n. bit c n \<Longrightarrow> n + k < 32"
  shows "poly_steps k c = push_bit k c"
  using assms
proof (induction k arbitrary: c)
  case 0
  then show ?case by simp
next
  case (Suc k)
  have "\<not> bit c 31" using Suc.prems [of 31] by auto
  then have "poly_step c = push_bit 1 c" by (simp add: poly_step_def)
  moreover have "n + k < 32" if "bit (push_bit 1 c) n" for n
    using that Suc.prems [of "n - 1"] unfolding bit_push_bit_iff by auto
  ultimately show ?case using Suc.IH [of "push_bit 1 c"] by simp
qed

lemma adjacent_nth: "2 * j + 1 < length xs \<Longrightarrow> adjacent xs ! j = (xs ! (2 * j), xs ! (2 * j + 1))"
proof (induction xs arbitrary: j rule: adjacent.induct)
  case (1 x y xs)
  then show ?case by (cases j) auto
qed auto

lemma table_even_odd:
  assumes "j < 128"
  shows "crc_table ! (2 * j) = poly_step (crc_table ! j)"
    and "crc_table ! (2 * j + 1) = poly_step (crc_table ! j) XOR 0x04C11DB7"
proof -
  have len: "length (take 128 crc_table) = 128" by simp
  have "j < length (take 128 crc_table)" using assms by simp
  from list_all2_nthD [OF table_recurrence this] assms
  show "crc_table ! (2 * j) = poly_step (crc_table ! j)"
    and "crc_table ! (2 * j + 1) = poly_step (crc_table ! j) XOR 0x04C11DB7"
    by (simp_all add: adjacent_nth)
qed

lemma poly_steps_one: "poly_steps 8 (push_bit 24 1) = 0x04C11DB7"
  by code_simp


lemma push_24_double:
  assumes "j < 128"
  shows "push_bit 24 (word_of_nat (2 * j)) = poly_step (push_bit 24 (word_of_nat j))"
    and "push_bit 24 (word_of_nat (2 * j + 1)) = poly_step (push_bit 24 (word_of_nat j)) XOR push_bit 24 1"
proof -
  have "\<not> bit (word_of_nat j :: u32) 7"
  proof -
    have "j < 2 ^ 7" using assms by simp
    then have "word_of_nat j < (2 ^ 7 :: u32)" by (simp add: word_less_nat_alt unat_of_nat)
    then show ?thesis using bit_below_exp [of "word_of_nat j :: u32" 7 7] by auto
  qed
  then have step: "poly_step (push_bit 24 (word_of_nat j)) = push_bit 1 (push_bit 24 (word_of_nat j))"
    by (simp add: poly_step_def bit_push_bit_iff)
  have double: "(word_of_nat (2 * j) :: u32) = push_bit 1 (word_of_nat j)"
    by (simp add: push_bit_eq_mult)
  then show even: "push_bit 24 (word_of_nat (2 * j)) = poly_step (push_bit 24 (word_of_nat j))"
    by (simp only: step push_bit_push_bit) (simp add: add.commute)
  have "(word_of_nat (2 * j + 1) :: u32) = word_of_nat (2 * j) XOR 1"
    by (simp add: xor_one_eq)
  then show "push_bit 24 (word_of_nat (2 * j + 1)) = poly_step (push_bit 24 (word_of_nat j)) XOR push_bit 24 1"
    by (simp only: push_bit_xor even)
qed

lemma table_nth: "i < 256 \<Longrightarrow> crc_table ! i = poly_steps 8 (push_bit 24 (word_of_nat i))"
proof (induction i rule: less_induct)
  case (less i)
  show ?case
  proof (cases "i = 0")
    case True
    have "poly_steps 8 (push_bit 24 (word_of_nat 0)) = 0"
      by (subst poly_steps_shift) simp_all
    with True show ?thesis by (simp add: crc_table_def)
  next
    case False
    define j where "j = i div 2"
    have j: "j < i" "j < 128" using False less.prems by (auto simp: j_def)
    then have IH: "crc_table ! j = poly_steps 8 (push_bit 24 (word_of_nat j))"
      using less.IH by simp
    have "i = 2 * j \<or> i = 2 * j + 1" by (auto simp: j_def)
    then show ?thesis
      using table_even_odd [OF j(2)] push_24_double [OF j(2)] poly_steps_one
      by (auto simp only: IH poly_steps_step poly_steps_xor)
  qed
qed

lemma crc_value_bits: "crc_value m = ucast m"
  unfolding crc_value_def u64_masks by (intro bit_word_eqI) (auto simp: bit_simps)

lemma ucast_of_byte: "(word_of_nat (unat (b :: u8)) :: u32) = ucast b"
  by simp

text \<open>One table-driven update is eight steps of polynomial division.\<close>

lemma crc_update_ref: "crc_value (crc_update m b) = ref_update (crc_value m) b"
proof -
  define ptr where "ptr = ((drop_bit 24 m AND 0xFF) XOR ucast b) AND (0xFF :: u64)"
  define c :: u32 where "c = ucast m"
  have p: "unat ptr < 256"
    unfolding ptr_def using word_and_le1 [of "(drop_bit 24 m AND 0xFF) XOR ucast b" "0xFF::u64"]
    by (simp add: word_le_nat_alt)
  have hi: "push_bit 24 (word_of_nat (unat ptr)) = (c AND push_bit 24 (mask 8)) XOR push_bit 24 (ucast b)"
    unfolding ptr_def c_def by (intro bit_word_eqI) (auto simp: bit_simps byte_masks)
  have split: "c XOR push_bit 24 (ucast b) = ((c AND push_bit 24 (mask 8)) XOR push_bit 24 (ucast b)) XOR (c AND mask 24)"
    by (intro bit_word_eqI) (auto simp: bit_simps)
  have lo: "poly_steps 8 (c AND mask 24) = push_bit 8 c"
    by (subst poly_steps_shift) (auto simp: bit_simps intro!: bit_word_eqI)
  have "ref_update c b = crc_table ! unat ptr XOR push_bit 8 c"
    unfolding ref_update_def split poly_steps_xor [of 8 "_ XOR _" "c AND mask 24"] lo
    using table_nth [OF p] hi by simp
  also have "\<dots> = ucast (push_bit 8 m XOR ucast (crc_table ! unat ptr))"
    unfolding c_def by (intro bit_word_eqI) (auto simp: bit_simps)
  finally show ?thesis
    by (simp add: crc_value_bits c_def ptr_def crc_update_def Let_def)
qed


lemma crc_value_init: "crc_value crc_init = 0xFFFFFFFF"
  by (simp add: crc_value_def crc_init_def)

lemma crc_update_all_ref: "crc_value (crc_update_all m bs) = foldl ref_update (crc_value m) bs"
  by (induction bs arbitrary: m) (simp_all add: crc_update_all_def crc_update_ref)

lemma crc_compute_ref: "crc_value (crc_compute bs) = ref_crc bs"
  by (simp add: crc_compute_def crc_update_all_ref ref_crc_def crc_value_init)

text \<open>
  C16: The table driven checksum equals bitwise division by the polynomial 0x04C11DB7 with
  initial value 0xFFFFFFFF, for every input.
\<close>

theorem crc_matches_polynomial_division:
  "crc_value (crc_compute bs) = ref_crc bs"
  by (rule crc_compute_ref)

section \<open>The residue of a message that ends in its own CRC\<close>

lemma ref_update_top_byte: "ref_update c (ucast (drop_bit 24 c)) = push_bit 8 c"
proof -
  have "c XOR push_bit 24 (ucast (ucast (drop_bit 24 c) :: u8)) = c AND mask 24"
    by (intro bit_word_eqI) (auto simp: bit_simps)
  moreover have "poly_steps 8 (c AND mask 24) = push_bit 8 c"
    by (subst poly_steps_shift) (auto simp: bit_simps intro!: bit_word_eqI)
  ultimately show ?thesis by (simp add: ref_update_def)
qed

lemma ref_update_own: "foldl ref_update c (write_32 c) = 0"
proof -
  have b: "(ucast (drop_bit (24 - k) c) :: u8) = ucast (drop_bit 24 (push_bit k c))" if "k \<le> 24" for k
    using that by (intro bit_word_eqI) (auto simp: bit_simps)
  have "foldl ref_update c (write_32 c) = push_bit 32 c"
    using b [of 0] b [of 8] b [of 16] b [of 24]
    by (simp add: write_32_bytes ref_update_top_byte)
  also have "\<dots> = 0" by (intro bit_word_eqI) (auto simp: bit_simps)
  finally show ?thesis .
qed

lemma crc_residue: "crc_value (crc_compute (bs @ write_32 (crc_value (crc_compute bs)))) = 0"
  by (simp add: crc_compute_ref) (simp add: ref_crc_def ref_update_own)

section \<open>Error detection\<close>

lemma xor_eq_zero: "a XOR b = 0 \<longleftrightarrow> a = (b :: 'a::len word)"
  by (metis xor.assoc xor.right_neutral xor_self_eq)

lemma xor_cancel_right [simp]: "a XOR c = b XOR c \<longleftrightarrow> a = (b :: 'a::len word)"
  by (metis xor.assoc xor.right_neutral xor_self_eq)

lemma poly_step_zero: "poly_step c = 0 \<Longrightarrow> c = 0"
proof (cases "bit c 31")
  case True
  have "bit (push_bit 1 c XOR 0x04C11DB7) 0" unfolding bit_xor_iff bit_push_bit_iff by simp
  moreover assume "poly_step c = 0"
  ultimately show ?thesis using True by (simp add: poly_step_def)
next
  case False
  assume "poly_step c = 0"
  with False have z: "push_bit 1 c = 0" by (simp add: poly_step_def)
  show ?thesis
  proof (rule bit_word_eqI)
    fix n assume "n < LENGTH(32)"
    then show "bit c n = bit 0 n"
      using False z [THEN arg_cong, of "\<lambda>x. bit x (Suc n)"] unfolding bit_push_bit_iff
      by (cases "n = 31") auto
  qed
qed

lemma poly_steps_inj: "poly_steps n a = poly_steps n b \<longleftrightarrow> a = b"
proof
  have z: "poly_steps n c = 0 \<Longrightarrow> c = 0" for c
    by (induction n arbitrary: c) (auto dest: poly_step_zero)
  assume "poly_steps n a = poly_steps n b"
  then have "poly_steps n (a XOR b) = 0" by (simp add: poly_steps_xor)
  then show "a = b" by (metis z xor_eq_zero)
qed simp

lemma ref_update_inj: "ref_update c b = ref_update d b \<longleftrightarrow> c = d"
  by (simp add: ref_update_def poly_steps_inj)

lemma ref_fold_inj: "foldl ref_update c bs = foldl ref_update d bs \<longleftrightarrow> c = d"
  by (induction bs arbitrary: c d) (simp_all add: ref_update_inj)


text \<open>Up to four bytes act on the accumulator as one word.\<close>

fun burst_word :: "u8 list \<Rightarrow> u32" where
  "burst_word [] = 0"
| "burst_word (b # bs) = push_bit 24 (ucast b) XOR drop_bit 8 (burst_word bs)"

lemma burst_word_low: "bit (burst_word bs) k \<Longrightarrow> 32 \<le> k + 8 * length bs"
  by (induction bs arbitrary: k) (fastforce simp: bit_simps)+

lemma ref_fold_burst:
  "length bs \<le> 4 \<Longrightarrow> foldl ref_update c bs = poly_steps (8 * length bs) (c XOR burst_word bs)"
proof (induction bs arbitrary: c)
  case Nil
  then show ?case by simp
next
  case (Cons b bs)
  have "poly_steps 8 (drop_bit 8 (burst_word bs)) = push_bit 8 (drop_bit 8 (burst_word bs))"
    by (rule poly_steps_shift) (auto simp: bit_simps dest: bit_imp_le_length)
  also have "\<dots> = burst_word bs"
  proof (rule bit_word_eqI)
    fix k assume "k < LENGTH(32)"
    then show "bit (push_bit 8 (drop_bit 8 (burst_word bs))) k = bit (burst_word bs) k"
      using burst_word_low [of bs k] Cons.prems by (auto simp: bit_simps)
  qed
  finally have "ref_update c b XOR burst_word bs = poly_steps 8 (c XOR burst_word (b # bs))"
    by (simp add: ref_update_def poly_steps_xor xor.assoc)
  with Cons show ?case
    by (simp flip: poly_steps_add add: mult.commute)
qed

lemma burst_word_inj:
  "length as = length bs \<Longrightarrow> length bs \<le> 4 \<Longrightarrow> burst_word as = burst_word bs \<Longrightarrow> as = bs"
proof (induction as bs rule: list_induct2)
  case Nil
  then show ?case by simp
next
  case (Cons a as b bs)
  have eq: "push_bit 24 (ucast a) XOR drop_bit 8 (burst_word as) = push_bit 24 (ucast b) XOR drop_bit 8 (burst_word bs)"
    using Cons.prems by simp
  have "a = b"
  proof (rule bit_word_eqI)
    fix k assume "k < LENGTH(8)"
    then show "bit a k = bit b k"
      using eq [THEN arg_cong, of "\<lambda>x. bit x (24 + k)"] bit_imp_le_length [of "burst_word _" "24 + k + 8"]
      by (auto simp: bit_simps)
  qed
  moreover have "burst_word as = burst_word bs"
  proof (rule bit_word_eqI)
    fix k assume "k < LENGTH(32)"
    show "bit (burst_word as) k = bit (burst_word bs) k"
    proof (cases "k < 8")
      case True
      then show ?thesis
        using burst_word_low [of as k] burst_word_low [of bs k] Cons.prems Cons.hyps by auto
    next
      case False
      then show ?thesis
        using eq [THEN arg_cong, of "\<lambda>x. bit x (k - 8)"] \<open>a = b\<close> by (auto simp: bit_simps)
    qed
  qed
  ultimately show ?case using Cons by simp
qed

text \<open>
  Two messages that differ in a burst of at most four bytes have different checksums.
\<close>

theorem crc_detects_bursts:
  assumes "length u = length v" and "length v \<le> 4" and "u \<noteq> v"
  shows "crc_value (crc_compute (p @ u @ s)) \<noteq> crc_value (crc_compute (p @ v @ s))"
proof -
  have "foldl ref_update c u \<noteq> foldl ref_update c v" for c
    using assms burst_word_inj [of u v] by (auto simp: ref_fold_burst poly_steps_inj xor.commute [of c])
  then show ?thesis
    by (simp add: crc_compute_ref) (simp add: ref_crc_def ref_fold_inj)
qed

theorem crc_detects_bursts_witness:
  "crc_value (crc_compute ([1, 2] @ [3, 4, 5, 6] @ [7])) \<noteq> crc_value (crc_compute ([1, 2] @ [3, 0, 5, 9] @ [7]))"
  by (rule crc_detects_bursts) simp_all

end
