(* ===== verification/Scte35_Emit.thy ===== *)
theory Scte35_Emit
  imports Scte35_Data Crc32
begin

text \<open>
  The SCTE-35 emitter of \<^verbatim>\<open>src/scte35/emitter.h\<close>: the overloads of
  \<^verbatim>\<open>emit_size_hint\<close> and of \<^verbatim>\<open>emit\<close>, one definition each, with the name of
  the struct they are for.  An emitter returns the bytes it sends to its output iterator.
\<close>

section \<open>Announced sizes\<close>

definition hint_splice_time :: "splice_time \<Rightarrow> nat" where
  "hint_splice_time t = (if pts_time t \<noteq> None then 5 else 1)"

definition hint_break_duration :: "break_duration \<Rightarrow> nat" where
  "hint_break_duration d = 5"

fun hint_program_splice :: "program_splice \<Rightarrow> nat" where
  "hint_program_splice (Program_Splice_On _) = 4"
| "hint_program_splice (Program_Splice_Off cs) = length cs * 5"

text \<open>The code calls \<^verbatim>\<open>std::visit\<close> for the splice and drops its result.\<close>

definition hint_ss_cancel_off :: "ss_cancel_off \<Rightarrow> nat" where
  "hint_ss_cancel_off m =
     1 + 4 + (case ss_break_duration m of None \<Rightarrow> 0 | Some d \<Rightarrow> hint_break_duration d)"

definition hint_ss_event :: "ss_event \<Rightarrow> nat" where
  "hint_ss_event e = 5 + (case sse_more e of None \<Rightarrow> 0 | Some m \<Rightarrow> hint_ss_cancel_off m)"

definition hint_splice_schedule :: "splice_schedule \<Rightarrow> nat" where
  "hint_splice_schedule c = 1 + (\<Sum>e\<leftarrow>ss_events c. hint_ss_event e)"

definition hint_si_component :: "si_component \<Rightarrow> nat" where
  "hint_si_component c = 1 + (case sic_splice_time c of None \<Rightarrow> 0 | Some t \<Rightarrow> hint_splice_time t)"

definition hint_si_components :: "si_component list \<Rightarrow> nat" where
  "hint_si_components cs = 1 + (\<Sum>c\<leftarrow>cs. hint_si_component c)"

definition hint_si_cancel_off :: "si_cancel_off \<Rightarrow> nat" where
  "hint_si_cancel_off m = 1 + 4
     + (case si_splice_time m of None \<Rightarrow> 0 | Some t \<Rightarrow> hint_splice_time t)
     + (case si_components m of None \<Rightarrow> 0 | Some cs \<Rightarrow> hint_si_components cs)
     + (case si_break_duration m of None \<Rightarrow> 0 | Some d \<Rightarrow> hint_break_duration d)"

definition hint_splice_insert :: "splice_insert \<Rightarrow> nat" where
  "hint_splice_insert c = 5 + (case si_more c of None \<Rightarrow> 0 | Some m \<Rightarrow> hint_si_cancel_off m)"

definition hint_time_signal :: "time_signal \<Rightarrow> nat" where
  "hint_time_signal c = hint_splice_time (tsig_splice_time c)"

definition hint_private_command :: "private_command \<Rightarrow> nat" where
  "hint_private_command c = 4 + length (pc_bytes c) * 1"

fun hint_command :: "command \<Rightarrow> nat" where
  "hint_command Splice_Null = 0"
| "hint_command (Splice_Schedule c) = hint_splice_schedule c"
| "hint_command (Splice_Insert c) = hint_splice_insert c"
| "hint_command (Time_Signal c) = hint_time_signal c"
| "hint_command Bandwidth_Reservation = 0"
| "hint_command (Private_Command c) = hint_private_command c"

fun hint_descriptor :: "descriptor \<Rightarrow> nat" where
  "hint_descriptor (Avail_Descriptor d) = 2 + unat avail_length"
| "hint_descriptor (Dtmf_Descriptor d) = 8 + length (dtmf_chars d)"
| "hint_descriptor (Segmentation_Descriptor d) = 6 + length (seg_data d)"
| "hint_descriptor (Time_Descriptor d) = 2 + unat time_length"

definition hint_descriptors :: "descriptor list \<Rightarrow> nat" where
  "hint_descriptors ds = (\<Sum>d\<leftarrow>ds. hint_descriptor d)"

definition compute_section_length :: "splice_info_section \<Rightarrow> nat" where
  "compute_section_length s = 17 + hint_command (command s) + hint_descriptors (descriptors s)"

definition hint_section :: "splice_info_section \<Rightarrow> nat" where
  "hint_section s = 3 + compute_section_length s"

section \<open>Emitted bytes\<close>

definition emit_splice_time :: "splice_time \<Rightarrow> u8 list" where
  "emit_splice_time t =
     (case pts_time t of Some v \<Rightarrow> write_33_prefix 0xFF v | None \<Rightarrow> write_8 0x7F)"

definition emit_break_duration :: "break_duration \<Rightarrow> u8 list" where
  "emit_break_duration d =
     write_33_prefix (push_bit 7 (of_bool (bd_auto_return d))) (bd_duration d)"

definition emit_ss_component :: "ss_component \<Rightarrow> u8 list" where
  "emit_ss_component c = write_8 (ssc_component_tag c) @ write_32 (ssc_utc_splice_time c)"

fun emit_program_splice :: "program_splice \<Rightarrow> u8 list" where
  "emit_program_splice (Program_Splice_On t) = write_32 t"
| "emit_program_splice (Program_Splice_Off cs) =
     write_8 (word_of_nat (length cs)) @ concat (map emit_ss_component cs)"

definition emit_ss_cancel_off :: "ss_cancel_off \<Rightarrow> u8 list" where
  "emit_ss_cancel_off m =
     write_8 (push_bit 7 (of_bool (ss_out_of_network m)) OR push_bit 6 (of_bool (ss_program_splice m))
       OR push_bit 5 (of_bool (ss_duration m)) OR 0x1F) @
     emit_program_splice (ss_splice m) @
     (case ss_break_duration m of None \<Rightarrow> [] | Some d \<Rightarrow> emit_break_duration d) @
     write_16 (ss_unique_program_id m) @
     write_8 (ss_avail_num m) @
     write_8 (ss_avails_expected m)"

definition emit_ss_event :: "ss_event \<Rightarrow> u8 list" where
  "emit_ss_event e = write_32 (sse_id e) @
     (case sse_more e of
        Some m \<Rightarrow> write_8 0x7F @ emit_ss_cancel_off m
      | None \<Rightarrow> write_8 0xFF)"

definition emit_splice_schedule :: "splice_schedule \<Rightarrow> u8 list" where
  "emit_splice_schedule c =
     write_8 (word_of_nat (length (ss_events c))) @ concat (map emit_ss_event (ss_events c))"

definition emit_si_component :: "si_component \<Rightarrow> u8 list" where
  "emit_si_component c = write_8 (sic_component_tag c) @
     (case sic_splice_time c of None \<Rightarrow> [] | Some t \<Rightarrow> emit_splice_time t)"

definition emit_si_components :: "si_component list \<Rightarrow> u8 list" where
  "emit_si_components cs = write_8 (word_of_nat (length cs)) @ concat (map emit_si_component cs)"

definition emit_si_cancel_off :: "si_cancel_off \<Rightarrow> u8 list" where
  "emit_si_cancel_off m =
     write_8 (push_bit 7 (of_bool (si_out_of_network m)) OR push_bit 6 (of_bool (si_program_splice m))
       OR push_bit 5 (of_bool (si_duration m)) OR push_bit 4 (of_bool (si_splice_immediate m)) OR 0x0F) @
     (case si_splice_time m of None \<Rightarrow> [] | Some t \<Rightarrow> emit_splice_time t) @
     (case si_components m of None \<Rightarrow> [] | Some cs \<Rightarrow> emit_si_components cs) @
     (case si_break_duration m of None \<Rightarrow> [] | Some d \<Rightarrow> emit_break_duration d) @
     write_16 (si_unique_program_id m) @
     write_8 (si_avail_num m) @
     write_8 (si_avails_expected m)"

definition emit_splice_insert :: "splice_insert \<Rightarrow> u8 list" where
  "emit_splice_insert c = write_32 (si_id c) @
     (case si_more c of
        Some m \<Rightarrow> write_8 0x7F @ emit_si_cancel_off m
      | None \<Rightarrow> write_8 0xFF)"

definition emit_time_signal :: "time_signal \<Rightarrow> u8 list" where
  "emit_time_signal c = emit_splice_time (tsig_splice_time c)"

definition emit_private_command :: "private_command \<Rightarrow> u8 list" where
  "emit_private_command c = write_32 (pc_identifier c) @ concat (map write_8 (pc_bytes c))"

fun emit_command :: "command \<Rightarrow> u8 list" where
  "emit_command Splice_Null = []"
| "emit_command (Splice_Schedule c) = emit_splice_schedule c"
| "emit_command (Splice_Insert c) = emit_splice_insert c"
| "emit_command (Time_Signal c) = emit_time_signal c"
| "emit_command Bandwidth_Reservation = []"
| "emit_command (Private_Command c) = emit_private_command c"

fun emit_descriptor :: "descriptor \<Rightarrow> u8 list" where
  "emit_descriptor (Avail_Descriptor d) =
     write_8 avail_tag @ write_8 avail_length @ write_32 cue_identifier @
     write_32 (provider_avail_id d)"
| "emit_descriptor (Dtmf_Descriptor d) =
     write_8 dtmf_tag @ write_8 (word_of_nat (hint_descriptor (Dtmf_Descriptor d) - 2)) @
     write_32 cue_identifier @ write_8 (dtmf_preroll d) @
     write_8 (word_of_nat (length (dtmf_chars d) * 2 ^ 5)) @ concat (map write_8 (dtmf_chars d))"
| "emit_descriptor (Segmentation_Descriptor d) =
     write_8 segmentation_tag @
     write_8 (word_of_nat (hint_descriptor (Segmentation_Descriptor d) - 2)) @
     write_32 cue_identifier @ concat (map write_8 (seg_data d))"
| "emit_descriptor (Time_Descriptor d) =
     write_8 time_tag @ write_8 time_length @ write_32 cue_identifier @
     write_48 (tai_seconds d) @ write_32 (tai_nanoseconds d) @ write_16 (utc_offset d)"

text \<open>
  \<^verbatim>\<open>CRC32OutputIterator\<close>: every byte written goes to the inner iterator and into the
  checksum.  The state is what has been written and the accumulator.
\<close>

type_synonym crc_out = "u8 list \<times> u64"

definition crc_out_init :: crc_out where
  "crc_out_init = ([], crc_init)"

fun crc_out_put :: "crc_out \<Rightarrow> u8 \<Rightarrow> crc_out" where
  "crc_out_put (out, crc) b = (out @ [b], crc_update crc b)"

definition crc_out_write :: "u8 list \<Rightarrow> crc_out \<Rightarrow> crc_out" where
  "crc_out_write bs s = foldl crc_out_put s bs"

definition emit_section :: "splice_info_section \<Rightarrow> u8 list" where
  "emit_section s =
     (let out = crc_out_init;
          out = crc_out_write (write_8 sis_table_id) out;
          out = crc_out_write (write_12_prefix
                  (push_bit 3 (of_bool sis_section_syntax_indicator)
                    OR push_bit 2 (of_bool sis_private_indicator) OR 3)
                  (word_of_nat (compute_section_length s))) out;
          out = crc_out_write (write_8 sis_protocol_version) out;
          out = crc_out_write (write_33_prefix
                  (push_bit 7 (of_bool (encrypted_packet s))
                    OR (push_bit 1 (encryption_algorithm s) AND 0x7E))
                  (pts_adjustment s)) out;
          out = crc_out_write (write_8 (cw_index s)) out;
          out = crc_out_write (write_12_pair (tier s) (word_of_nat (hint_command (command s)))) out;
          out = crc_out_write (write_8 (command_type (command s))) out;
          out = crc_out_write (emit_command (command s)) out;
          out = crc_out_write (write_16 (word_of_nat (hint_descriptors (descriptors s)))) out;
          out = crc_out_write (concat (map emit_descriptor (descriptors s))) out;
          out = crc_out_write (write_32 (crc_value (snd out))) out
      in fst out)"

end
