(* ===== verification/Scte35_Parse.thy ===== *)
theory Scte35_Parse
  imports Scte35_Emit
begin

text \<open>
  The SCTE-35 parser of \<^verbatim>\<open>src/scte35/parser.cpp\<close>, one definition per function.
  A function that advances the caller's pointer is a reader: it takes the bytes up to the end
  pointer and returns what is left of them.
\<close>

section \<open>Times\<close>

definition min_sis_length :: nat where
  "min_sis_length = 1 + 2 + 1 + 1 + 4 + 1 + 3 + 1 + 2 + 4"

text \<open>The macro \<^verbatim>\<open>TEST_CONST\<close>: throw unless the comparison holds.\<close>

definition test_const :: "bool \<Rightarrow> unit result" where
  "test_const c = (if c then Inr () else parse_fail Const_Test)"

definition parse_splice_time :: "splice_time reader" where
  "parse_splice_time bs =
     bind_res (scan_flag 0x80 bs) (\<lambda>time_specified_flag.
     if time_specified_flag then
       bind_res (read_33 bs) (\<lambda>(t, bs). Inr (\<lparr>pts_time = Some t\<rparr>, bs))
     else
       bind_res (read_8 0xFF bs) (\<lambda>(_, bs). Inr (\<lparr>pts_time = None\<rparr>, bs)))"

definition parse_break_duration :: "break_duration reader" where
  "parse_break_duration bs =
     bind_res (scan_flag 0x80 bs) (\<lambda>auto_return.
     bind_res (read_33 bs) (\<lambda>(duration, bs).
     Inr (\<lparr>bd_auto_return = auto_return, bd_duration = duration\<rparr>, bs)))"

text \<open>The conditional \<^verbatim>\<open>if (flag) x = parse(ptr, endptr)\<close> on an optional.\<close>

definition read_if :: "bool \<Rightarrow> 'a reader \<Rightarrow> 'a option reader" where
  "read_if c get bs =
     (if c then bind_res (get bs) (\<lambda>(x, bs). Inr (Some x, bs)) else Inr (None, bs))"

section \<open>Commands\<close>

definition parse_ss_component :: "ss_component reader" where
  "parse_ss_component bs =
     bind_res (read_8 0xFF bs) (\<lambda>(component_tag, bs).
     bind_res (read_32 bs) (\<lambda>(utc_splice_time, bs).
     Inr (\<lparr>ssc_component_tag = component_tag, ssc_utc_splice_time = utc_splice_time\<rparr>, bs)))"

definition parse_program_splice :: "bool \<Rightarrow> program_splice reader" where
  "parse_program_splice program_splice_flag bs =
     (if program_splice_flag then
        bind_res (read_32 bs) (\<lambda>(utc_splice_time, bs). Inr (Program_Splice_On utc_splice_time, bs))
      else
        bind_res (read_8 0xFF bs) (\<lambda>(component_count, bs).
        bind_res (test_const (component_count \<ge> 1)) (\<lambda>_.
        bind_res (read_many (unat component_count) parse_ss_component bs) (\<lambda>(components, bs).
        Inr (Program_Splice_Off components, bs)))))"

definition parse_ss_event :: "ss_event reader" where
  "parse_ss_event bs =
     bind_res (read_32 bs) (\<lambda>(splice_event_id, bs).
     bind_res (scan_flag 0x80 bs) (\<lambda>splice_event_cancel_indicator.
     bind_res (read_8 0xFF bs) (\<lambda>(_, bs).
     if splice_event_cancel_indicator then
       Inr (\<lparr>sse_id = splice_event_id, sse_more = None\<rparr>, bs)
     else
       bind_res (scan_flag 0x80 bs) (\<lambda>out_of_network_indicator.
       bind_res (scan_flag 0x40 bs) (\<lambda>program_splice_flag.
       bind_res (scan_flag 0x20 bs) (\<lambda>duration_flag.
       bind_res (read_8 0xFF bs) (\<lambda>(_, bs).
       bind_res (parse_program_splice program_splice_flag bs) (\<lambda>(program_splice, bs).
       bind_res (read_if duration_flag parse_break_duration bs) (\<lambda>(break_duration, bs).
       bind_res (read_16 bs) (\<lambda>(unique_program_id, bs).
       bind_res (read_8 0xFF bs) (\<lambda>(avail_num, bs).
       bind_res (read_8 0xFF bs) (\<lambda>(avails_expected, bs).
       Inr (\<lparr>sse_id = splice_event_id,
             sse_more = Some \<lparr>ss_out_of_network = out_of_network_indicator,
               ss_splice = program_splice, ss_break_duration = break_duration,
               ss_unique_program_id = unique_program_id, ss_avail_num = avail_num,
               ss_avails_expected = avails_expected\<rparr>\<rparr>, bs)))))))))))))"

definition parse_splice_schedule :: "splice_schedule reader" where
  "parse_splice_schedule bs =
     bind_res (read_8 0xFF bs) (\<lambda>(splice_count, bs).
     bind_res (read_many (unat splice_count) parse_ss_event bs) (\<lambda>(events, bs).
     Inr (\<lparr>ss_events = events\<rparr>, bs)))"

definition parse_si_component :: "bool \<Rightarrow> si_component reader" where
  "parse_si_component splice_immediate_flag bs =
     bind_res (read_8 0xFF bs) (\<lambda>(component_tag, bs).
     bind_res (read_if (\<not> splice_immediate_flag) parse_splice_time bs) (\<lambda>(component_splice_time, bs).
     Inr (\<lparr>sic_component_tag = component_tag, sic_splice_time = component_splice_time\<rparr>, bs)))"

definition parse_si_components :: "bool \<Rightarrow> si_component list reader" where
  "parse_si_components splice_immediate_flag bs =
     bind_res (read_8 0xFF bs) (\<lambda>(component_count, bs).
     bind_res (test_const (component_count \<ge> 1)) (\<lambda>_.
     read_many (unat component_count) (parse_si_component splice_immediate_flag) bs))"

definition parse_splice_insert :: "splice_insert reader" where
  "parse_splice_insert bs =
     bind_res (read_32 bs) (\<lambda>(splice_event_id, bs).
     bind_res (scan_flag 0x80 bs) (\<lambda>splice_event_cancel_indicator.
     bind_res (read_8 0xFF bs) (\<lambda>(_, bs).
     if splice_event_cancel_indicator then
       Inr (\<lparr>si_id = splice_event_id, si_more = None\<rparr>, bs)
     else
       bind_res (scan_flag 0x80 bs) (\<lambda>out_of_network_indicator.
       bind_res (scan_flag 0x40 bs) (\<lambda>program_splice_flag.
       bind_res (scan_flag 0x20 bs) (\<lambda>duration_flag.
       bind_res (scan_flag 0x10 bs) (\<lambda>splice_immediate_flag.
       bind_res (read_8 0xFF bs) (\<lambda>(_, bs).
       bind_res (read_if (program_splice_flag \<and> \<not> splice_immediate_flag) parse_splice_time bs)
         (\<lambda>(splice_time, bs).
       bind_res (read_if (\<not> program_splice_flag) (parse_si_components splice_immediate_flag) bs)
         (\<lambda>(components, bs).
       bind_res (read_if duration_flag parse_break_duration bs) (\<lambda>(break_duration, bs).
       bind_res (read_16 bs) (\<lambda>(unique_program_id, bs).
       bind_res (read_8 0xFF bs) (\<lambda>(avail_num, bs).
       bind_res (read_8 0xFF bs) (\<lambda>(avails_expected, bs).
       Inr (\<lparr>si_id = splice_event_id,
             si_more = Some \<lparr>si_out_of_network = out_of_network_indicator,
               si_program_splice = program_splice_flag, si_splice_immediate = splice_immediate_flag,
               si_splice_time = splice_time, si_components = components,
               si_break_duration = break_duration, si_unique_program_id = unique_program_id,
               si_avail_num = avail_num, si_avails_expected = avails_expected\<rparr>\<rparr>, bs)))))))))))))))"

definition parse_time_signal :: "time_signal reader" where
  "parse_time_signal bs =
     bind_res (parse_splice_time bs) (\<lambda>(t, bs). Inr (\<lparr>tsig_splice_time = t\<rparr>, bs))"

text \<open>
  The pointer has already moved past the identifier when the code forms the ranges
  \<^verbatim>\<open>[ptr + 4, ptr + splice_command_length)\<close> and adds the whole command length to it.
\<close>

definition parse_private_command :: "u16 \<Rightarrow> private_command reader" where
  "parse_private_command splice_command_length bs =
     bind_res (test_const (splice_command_length > 4)) (\<lambda>_.
     bind_res (test_const (splice_command_length < 0xFFF)) (\<lambda>_.
     bind_res (read_32 bs) (\<lambda>(identifier, bs).
     if length bs < unat splice_command_length then Inl Range_Violation
     else Inr (\<lparr>pc_identifier = identifier,
                pc_bytes = drop 4 (take (unat splice_command_length) bs)\<rparr>,
               drop (unat splice_command_length) bs))))"

text \<open>The switch on the command type.\<close>

definition parse_command :: "u8 \<Rightarrow> u16 \<Rightarrow> command reader" where
  "parse_command splice_command_type splice_command_length bs =
     (if splice_command_type = 0x00 then Inr (Splice_Null, bs)
      else if splice_command_type = 0x04 then
        bind_res (parse_splice_schedule bs) (\<lambda>(c, bs). Inr (Splice_Schedule c, bs))
      else if splice_command_type = 0x05 then
        bind_res (parse_splice_insert bs) (\<lambda>(c, bs). Inr (Splice_Insert c, bs))
      else if splice_command_type = 0x06 then
        bind_res (parse_time_signal bs) (\<lambda>(c, bs). Inr (Time_Signal c, bs))
      else if splice_command_type = 0x07 then Inr (Bandwidth_Reservation, bs)
      else if splice_command_type = 0xFF then
        bind_res (parse_private_command splice_command_length bs) (\<lambda>(c, bs). Inr (Private_Command c, bs))
      else parse_fail Unsupported_Command)"

end
