(* ===== verification/Packet_Parser.thy ===== *)
theory Packet_Parser
  imports Prelude
begin

text \<open>
  The class template \<^verbatim>\<open>BinaryParser\<close> of \<^verbatim>\<open>src/binary_parser.h\<close>: a cursor over
  a byte range that asks \<open>Next\<close> for the boundaries of the next packet, moves past it and
  hands the boundaries to \<open>Pack\<close>.  Both are template arguments in the code and arguments of the
  definitions here.  A boundary's start is an offset into the bytes \<open>Next\<close> was given; what
  \<open>Pack\<close> gets is an offset into the whole range.

  The interface locales state what the cursor needs of \<open>Next\<close>; inside them the loop over all
  packets is shown to end, to stay in range and to keep the assertions.
\<close>

record bounds =
  b_start :: nat
  b_length :: nat

record parser =
  p_buffer :: "u8 list"
  p_pos :: nat

section \<open>The cursor\<close>

definition parser_create :: "u8 list \<Rightarrow> parser" where
  "parser_create buf = \<lparr>p_buffer = buf, p_pos = 0\<rparr>"

definition has_next :: "parser \<Rightarrow> bool" where
  "has_next p \<longleftrightarrow> p_pos p < length (p_buffer p)"

definition bytes_consumed :: "parser \<Rightarrow> nat" where
  "bytes_consumed p = p_pos p"

definition bytes_left :: "parser \<Rightarrow> nat" where
  "bytes_left p = length (p_buffer p) - p_pos p"

definition unread :: "parser \<Rightarrow> u8 list" where
  "unread p = drop (p_pos p) (p_buffer p)"

text \<open>The \<^verbatim>\<open>catch\<close> of \<^verbatim>\<open>next()\<close>: a parse error is rethrown with the position.\<close>

fun inject_position :: "parser \<Rightarrow> cpp_error \<Rightarrow> cpp_error" where
  "inject_position p (Parse_Error r _ _) = Parse_Error r (bytes_consumed p) (bytes_left p)"
| "inject_position p e = e"

definition parser_next ::
  "cpp_impl \<Rightarrow> (u8 list \<Rightarrow> 'b bounds_scheme option result)
    \<Rightarrow> (u8 list \<Rightarrow> 'b bounds_scheme \<Rightarrow> 'p result) \<Rightarrow> parser \<Rightarrow> ('p option \<times> parser) result" where
  "parser_next im Next Pack p =
     (if \<not> has_next p then Inr (None, p)
      else case Next (unread p) of
        Inl e \<Rightarrow> Inl (inject_position p e)
      | Inr None \<Rightarrow> Inr (None, p)
      | Inr (Some b) \<Rightarrow>
          bind_res (cpp_assert im (p_pos p + b_start b + b_length b \<le> length (p_buffer p))) (\<lambda>_.
          bind_res (cpp_assert im (b_length b > 0)) (\<lambda>_.
          let p' = p\<lparr>p_pos := p_pos p + b_start b + b_length b\<rparr> in
          case Pack (p_buffer p) (b\<lparr>b_start := p_pos p + b_start b\<rparr>) of
            Inl e \<Rightarrow> Inl (inject_position p' e)
          | Inr x \<Rightarrow> Inr (Some x, p'))))"

text \<open>\<^verbatim>\<open>operator>>\<close> dereferences what \<^verbatim>\<open>next()\<close> returns without a test.\<close>

definition parser_shift ::
  "cpp_impl \<Rightarrow> (u8 list \<Rightarrow> 'b bounds_scheme option result)
    \<Rightarrow> (u8 list \<Rightarrow> 'b bounds_scheme \<Rightarrow> 'p result) \<Rightarrow> parser \<Rightarrow> ('p \<times> parser) result" where
  "parser_shift im Next Pack p =
     bind_res (parser_next im Next Pack p) (\<lambda>(r, p').
       case r of None \<Rightarrow> Inl Range_Violation | Some x \<Rightarrow> Inr (x, p'))"

section \<open>The loop over all packets\<close>

text \<open>
  The loop \<^verbatim>\<open>while (parser) { parser >> x; body }\<close> of the users of the template.  The
  body works on a state and may throw; what it did to the state before a throw stays.  One unit
  of fuel is one round; \<open>None\<close> is a loop that has not ended.
\<close>

type_synonym ('p, 's) loop_body = "'p \<Rightarrow> 's \<Rightarrow> 's \<times> cpp_error option"

fun parser_loop ::
  "nat \<Rightarrow> cpp_impl \<Rightarrow> (u8 list \<Rightarrow> 'b bounds_scheme option result)
    \<Rightarrow> (u8 list \<Rightarrow> 'b bounds_scheme \<Rightarrow> 'p result) \<Rightarrow> ('p, 's) loop_body
    \<Rightarrow> parser \<Rightarrow> 's \<Rightarrow> ('s \<times> cpp_error option) option" where
  "parser_loop 0 im Next Pack body p s = None"
| "parser_loop (Suc n) im Next Pack body p s =
     (if \<not> has_next p then Some (s, None)
      else case parser_shift im Next Pack p of
        Inl e \<Rightarrow> Some (s, Some e)
      | Inr (x, p') \<Rightarrow>
          (case body x s of
             (s', Some e) \<Rightarrow> Some (s', Some e)
           | (s', None) \<Rightarrow> parser_loop n im Next Pack body p' s'))"

definition parse_each ::
  "cpp_impl \<Rightarrow> (u8 list \<Rightarrow> 'b bounds_scheme option result)
    \<Rightarrow> (u8 list \<Rightarrow> 'b bounds_scheme \<Rightarrow> 'p result) \<Rightarrow> ('p, 's) loop_body
    \<Rightarrow> u8 list \<Rightarrow> 's \<Rightarrow> ('s \<times> cpp_error option) option" where
  "parse_each im Next Pack body buf s =
     parser_loop (Suc (length buf)) im Next Pack body (parser_create buf) s"

lemma parser_create_simps [simp]:
  "p_buffer (parser_create buf) = buf" "p_pos (parser_create buf) = 0"
  by (simp_all add: parser_create_def)

lemma length_unread [simp]: "length (unread p) = bytes_left p"
  by (simp add: unread_def bytes_left_def)

lemma has_next_unread: "has_next p \<longleftrightarrow> unread p \<noteq> []"
  by (auto simp: has_next_def unread_def)

lemma inject_position_simps [simp]:
  "inject_position p e = Range_Violation \<longleftrightarrow> e = Range_Violation"
  "inject_position p e = Assertion_Failed \<longleftrightarrow> e = Assertion_Failed"
  by (cases e; simp)+

section \<open>What the cursor needs of its packet format\<close>

locale packet_format =
  fixes Next :: "u8 list \<Rightarrow> 'b bounds_scheme option result"
    and Pack :: "u8 list \<Rightarrow> 'b bounds_scheme \<Rightarrow> 'p result"
  assumes next_in_range: "Next bs = Inr (Some b) \<Longrightarrow> b_start b + b_length b \<le> length bs"
    and next_progress: "Next bs = Inr (Some b) \<Longrightarrow> 0 < b_start b + b_length b"
begin

lemma parser_next_moves:
  assumes "parser_next im Next Pack p = Inr (Some x, p')"
  shows "p_buffer p' = p_buffer p \<and> p_pos p < p_pos p' \<and> p_pos p' \<le> length (p_buffer p)"
proof -
  from assms obtain b where n: "has_next p" "Next (unread p) = Inr (Some b)"
    and p': "p' = p\<lparr>p_pos := p_pos p + b_start b + b_length b\<rparr>"
    by (auto simp: parser_next_def bind_res_Inr_iff Let_def split: if_splits sum.splits option.splits)
  from next_in_range [OF n(2)] next_progress [OF n(2)] n(1) show ?thesis
    by (auto simp: p' bytes_left_def has_next_def)
qed

lemma parser_shift_moves:
  assumes "parser_shift im Next Pack p = Inr (x, p')"
  shows "p_buffer p' = p_buffer p \<and> bytes_left p' < bytes_left p"
proof -
  from assms have "parser_next im Next Pack p = Inr (Some x, p')"
    by (auto simp: parser_shift_def bind_res_Inr_iff split: option.splits)
  from parser_next_moves [OF this] show ?thesis by (auto simp: bytes_left_def)
qed

text \<open>One round per byte is fuel enough.\<close>

lemma parser_loop_ends:
  "bytes_left p < n \<Longrightarrow> parser_loop n im Next Pack body p s \<noteq> None"
proof (induction n arbitrary: p s)
  case 0
  then show ?case by simp
next
  case (Suc n)
  show ?case
  proof (cases "parser_shift im Next Pack p")
    case (Inl e)
    then show ?thesis by simp
  next
    case (Inr a)
    obtain x p' where a: "a = (x, p')" by (cases a)
    from parser_shift_moves [OF Inr [unfolded a]] Suc.prems have "bytes_left p' < n" by simp
    with Suc.IH show ?thesis by (auto simp: Inr a split: prod.splits option.splits)
  qed
qed

lemma parse_each_ends: "parse_each im Next Pack body buf s \<noteq> None"
  unfolding parse_each_def by (rule parser_loop_ends) (simp add: bytes_left_def)

end

text \<open>
  A format that finds a packet or throws whenever bytes are left, and that never finds an empty
  one: the cursor then never dereferences an empty result and never trips an assertion of its own.
\<close>

locale total_format = packet_format +
  assumes next_found: "bs \<noteq> [] \<Longrightarrow> Next bs \<noteq> Inr None"
begin

lemma parser_shift_in_range:
  assumes "has_next p" and "\<And>bs. Next bs \<noteq> Inl Range_Violation"
    and "\<And>buf b. Pack buf b \<noteq> Inl Range_Violation"
  shows "parser_shift im Next Pack p \<noteq> Inl Range_Violation"
proof -
  from assms(1) next_found have "Next (unread p) \<noteq> Inr None" by (simp add: has_next_unread)
  moreover have "inject_position p' e \<noteq> Range_Violation" if "Next (unread p) = Inl e" for e p'
    using that assms(2) by auto
  moreover have "inject_position p' e \<noteq> Range_Violation" if "Pack buf b = Inl e" for e p' buf b
    using that assms(3) by auto
  ultimately show ?thesis
    using assms(1)
    by (auto simp: parser_shift_def parser_next_def cpp_assert_def Let_def bind_res_Inl_iff
        split: sum.splits option.splits if_splits)
qed

end

text \<open>
  A format with an emitter: the cursor finds what was emitted, whatever follows it.  Then the loop
  over a buffer of emitted packets hands exactly those packets to the body, in order.
\<close>

fun run_body :: "('p, 's) loop_body \<Rightarrow> 'p list \<Rightarrow> 's \<Rightarrow> 's \<times> cpp_error option" where
  "run_body body [] s = (s, None)"
| "run_body body (x # xs) s =
     (case body x s of (s', Some e) \<Rightarrow> (s', Some e) | (s', None) \<Rightarrow> run_body body xs s')"

lemma run_body_total:
  "(\<And>x s. x \<in> set xs \<Longrightarrow> body x s = (f x s, None)) \<Longrightarrow> run_body body xs s = (fold f xs s, None)"
  by (induction xs arbitrary: s) simp_all

lemma run_body_append:
  "run_body body (xs @ ys) s = (case run_body body xs s of
     (s', Some e) \<Rightarrow> (s', Some e) | (s', None) \<Rightarrow> run_body body ys s')"
  by (induction xs arbitrary: s) (auto split: prod.splits option.splits)

text \<open>Whatever the bytes are: what every round keeps holds after the loop.\<close>

lemma parser_loop_invariant:
  assumes "\<And>x s s' e. P s \<Longrightarrow> body x s = (s', e) \<Longrightarrow> P s'"
  shows "P s \<Longrightarrow> parser_loop n im Next Pack body p s = Some (s', e) \<Longrightarrow> P s'"
proof (induction n arbitrary: p s)
  case (Suc n)
  show ?case
  proof (cases "has_next p")
    case False
    with Suc.prems show ?thesis by simp
  next
    case True
    show ?thesis
    proof (cases "parser_shift im Next Pack p")
      case (Inl x)
      with True Suc.prems show ?thesis by simp
    next
      case (Inr a)
      obtain x p1 where a: "a = (x, p1)" by (cases a)
      obtain s1 e1 where b: "body x s = (s1, e1)" by (cases "body x s")
      have "P s1" using assms Suc.prems(1) b by blast
      with Suc.IH [of s1 p1] Suc.prems(2) True Inr a b show ?thesis by (cases e1) auto
    qed
  qed
qed simp

locale packet_codec =
  fixes im :: cpp_impl
    and Next :: "u8 list \<Rightarrow> 'b bounds_scheme option result"
    and Pack :: "u8 list \<Rightarrow> 'b bounds_scheme \<Rightarrow> 'p result"
    and ok :: "'p \<Rightarrow> bool"
    and put :: "'p \<Rightarrow> u8 list"
  assumes shift_put: "ok x \<Longrightarrow> p_pos p \<le> length (p_buffer p) \<Longrightarrow> unread p = put x @ rest \<Longrightarrow>
      parser_shift im Next Pack p = Inr (x, p\<lparr>p_pos := p_pos p + length (put x)\<rparr>)"
    and put_nonempty: "ok x \<Longrightarrow> put x \<noteq> []"
begin

lemma parser_loop_put:
  "list_all ok xs \<Longrightarrow> p_pos p \<le> length (p_buffer p) \<Longrightarrow> unread p = concat (map put xs) \<Longrightarrow>
     length xs < n \<Longrightarrow> parser_loop n im Next Pack body p s = Some (run_body body xs s)"
proof (induction xs arbitrary: n p s)
  case Nil
  then show ?case by (cases n) (auto simp: has_next_unread)
next
  case (Cons x xs)
  obtain m where n: "n = Suc m" "length xs < m" using Cons.prems(4) by (cases n) auto
  let ?p = "p\<lparr>p_pos := p_pos p + length (put x)\<rparr>"
  have u: "unread p = put x @ concat (map put xs)" using Cons.prems(3) by simp
  then have "length (put x) \<le> bytes_left p" by (metis length_append length_unread le_add1)
  then have le: "p_pos ?p \<le> length (p_buffer ?p)" using Cons.prems(2) by (simp add: bytes_left_def)
  have "unread ?p = drop (length (put x)) (unread p)" by (simp add: unread_def add.commute)
  then have "unread ?p = concat (map put xs)" using u by simp
  with Cons.IH [OF _ le _ n(2)] Cons.prems(1)
  have "parser_loop m im Next Pack body ?p s' = Some (run_body body xs s')" for s' by simp
  moreover have "has_next p" using put_nonempty Cons.prems(1) u by (auto simp: has_next_unread)
  moreover have "parser_shift im Next Pack p = Inr (x, ?p)"
    using shift_put Cons.prems(1,2) u by simp
  ultimately show ?case by (auto simp: n(1) split: prod.splits option.splits)
qed

lemma count_put: "list_all ok xs \<Longrightarrow> length xs \<le> length (concat (map put xs))"
proof (induction xs)
  case (Cons x xs)
  then have "1 \<le> length (put x)" using put_nonempty by (cases "put x") auto
  with Cons show ?case by simp
qed simp

lemma parse_each_put:
  "list_all ok xs \<Longrightarrow> parse_each im Next Pack body (concat (map put xs)) s = Some (run_body body xs s)"
  unfolding parse_each_def
  by (rule parser_loop_put) (auto simp: unread_def less_Suc_eq_le intro: count_put)

end

end
