(* ===== verification/Scte35_Section.thy ===== *)
theory Scte35_Section
  imports Scte35_Parse Packet_Parser
begin

text \<open>
  The rest of \<^verbatim>\<open>src/scte35/parser.cpp\<close>: the descriptor loop, the section header, and
  the two template arguments of \<^verbatim>\<open>Scte35Parser\<close> (\<^verbatim>\<open>src/scte35/parser.h\<close>).
\<close>

section \<open>Descriptors\<close>

definition parse_avail_descriptor :: "u8 \<Rightarrow> u8 \<Rightarrow> u32 \<Rightarrow> avail_descriptor reader" where
  "parse_avail_descriptor splice_descriptor_tag descriptor_length identifier bs =
     bind_res (test_const (splice_descriptor_tag = avail_tag)) (\<lambda>_.
     bind_res (test_const (descriptor_length = avail_length)) (\<lambda>_.
     bind_res (test_const (identifier = cue_identifier)) (\<lambda>_.
     bind_res (read_32 bs) (\<lambda>(v, bs). Inr (\<lparr>provider_avail_id = v\<rparr>, bs)))))"

definition parse_dtmf_descriptor :: "u8 \<Rightarrow> u8 \<Rightarrow> u32 \<Rightarrow> dtmf_descriptor reader" where
  "parse_dtmf_descriptor splice_descriptor_tag descriptor_length identifier bs =
     bind_res (test_const (splice_descriptor_tag = dtmf_tag)) (\<lambda>_.
     bind_res (test_const (identifier = cue_identifier)) (\<lambda>_.
     bind_res (read_8 0xFF bs) (\<lambda>(preroll, bs).
     bind_res (scan_8 0xE0 bs) (\<lambda>count_bits.
     let dtmf_count = unat (drop_bit 5 count_bits) in
     bind_res (read_8 0xFF bs) (\<lambda>(_, bs).
     bind_res (test_const (unat descriptor_length = 4 + 1 + dtmf_count)) (\<lambda>_.
     bind_res (test_const (dtmf_count \<le> length bs)) (\<lambda>_.
     Inr (\<lparr>dtmf_preroll = preroll, dtmf_chars = take dtmf_count bs\<rparr>, drop dtmf_count bs))))))))"

text \<open>
  The end of the data is \<^verbatim>\<open>ptr + descriptor_length - 4\<close>; for a length below four it lies
  before the start and the vector is built from an inverted range.
\<close>

definition parse_segmentation_descriptor :: "u8 \<Rightarrow> u8 \<Rightarrow> u32 \<Rightarrow> segmentation_descriptor reader" where
  "parse_segmentation_descriptor splice_descriptor_tag descriptor_length identifier bs =
     bind_res (test_const (splice_descriptor_tag = segmentation_tag)) (\<lambda>_.
     bind_res (test_const (identifier = cue_identifier)) (\<lambda>_.
     bind_res (test_const (unat descriptor_length \<le> length bs + 4)) (\<lambda>_.
     if unat descriptor_length < 4 then Inl Range_Violation
     else let n = unat descriptor_length - 4 in
       Inr (\<lparr>seg_data = take n bs\<rparr>, drop n bs))))"

text \<open>
  The three readers are arguments of one constructor call, evaluated in the order the compiler
  chooses: first to last or last to first.
\<close>

definition parse_time_descriptor :: "cpp_impl \<Rightarrow> u8 \<Rightarrow> u8 \<Rightarrow> u32 \<Rightarrow> time_descriptor reader" where
  "parse_time_descriptor im splice_descriptor_tag descriptor_length identifier bs =
     bind_res (test_const (splice_descriptor_tag = time_tag)) (\<lambda>_.
     bind_res (test_const (descriptor_length = time_length)) (\<lambda>_.
     bind_res (test_const (identifier = cue_identifier)) (\<lambda>_.
     if arguments_left_first im then
       bind_res (read_48 im bs) (\<lambda>(s, bs).
       bind_res (read_32 bs) (\<lambda>(n, bs).
       bind_res (read_16 bs) (\<lambda>(u, bs).
       Inr (\<lparr>tai_seconds = s, tai_nanoseconds = n, utc_offset = u\<rparr>, bs))))
     else
       bind_res (read_16 bs) (\<lambda>(u, bs).
       bind_res (read_32 bs) (\<lambda>(n, bs).
       bind_res (read_48 im bs) (\<lambda>(s, bs).
       Inr (\<lparr>tai_seconds = s, tai_nanoseconds = n, utc_offset = u\<rparr>, bs)))))))"

text \<open>One round of the descriptor loop: the header, the length test and the switch on the tag.\<close>

definition parse_descriptor :: "cpp_impl \<Rightarrow> descriptor reader" where
  "parse_descriptor im bs =
     bind_res (read_8 0xFF bs) (\<lambda>(splice_descriptor_tag, bs).
     bind_res (read_8 0xFF bs) (\<lambda>(descriptor_length, bs).
     bind_res (test_const (unat descriptor_length \<le> length bs)) (\<lambda>_.
     bind_res (read_32 bs) (\<lambda>(identifier, bs).
     if splice_descriptor_tag = avail_tag then
       bind_res (parse_avail_descriptor splice_descriptor_tag descriptor_length identifier bs)
         (\<lambda>(d, bs). Inr (Avail_Descriptor d, bs))
     else if splice_descriptor_tag = dtmf_tag then
       bind_res (parse_dtmf_descriptor splice_descriptor_tag descriptor_length identifier bs)
         (\<lambda>(d, bs). Inr (Dtmf_Descriptor d, bs))
     else if splice_descriptor_tag = segmentation_tag then
       bind_res (parse_segmentation_descriptor splice_descriptor_tag descriptor_length identifier bs)
         (\<lambda>(d, bs). Inr (Segmentation_Descriptor d, bs))
     else if splice_descriptor_tag = time_tag then
       bind_res (parse_time_descriptor im splice_descriptor_tag descriptor_length identifier bs)
         (\<lambda>(d, bs). Inr (Time_Descriptor d, bs))
     else parse_fail Unknown_Descriptor))))"

lemma test_const_simps [simp]:
  "test_const True = Inr ()" "test_const c = Inr u \<longleftrightarrow> c"
  by (simp_all add: test_const_def parse_fail_def)

lemmas reader_lengths =
  r8.leaves_less r16.leaves_less r32.leaves_less r33.leaves_less r48.leaves_less r12l.leaves_less

lemma descriptor_bodies_shrink:
  "parse_avail_descriptor t l i bs = Inr (a, r) \<Longrightarrow> length r \<le> length bs"
  "parse_dtmf_descriptor t l i bs = Inr (b, r) \<Longrightarrow> length r \<le> length bs"
  "parse_segmentation_descriptor t l i bs = Inr (c, r) \<Longrightarrow> length r \<le> length bs"
  "parse_time_descriptor im t l i bs = Inr (d, r) \<Longrightarrow> length r \<le> length bs"
  by (auto simp: parse_avail_descriptor_def parse_dtmf_descriptor_def parse_time_descriptor_def
      parse_segmentation_descriptor_def bind_res_Inr_iff Let_def split: if_splits dest!: reader_lengths)

lemma parse_descriptor_shrinks [termination_simp]:
  "parse_descriptor im bs = Inr (d, r) \<Longrightarrow> length r < length bs"
  by (auto simp: parse_descriptor_def bind_res_Inr_iff split: if_splits
      dest!: reader_lengths descriptor_bodies_shrink)

text \<open>The loop \<^verbatim>\<open>while (ptr < endptr)\<close>.\<close>

function parse_descriptor_loop :: "cpp_impl \<Rightarrow> u8 list \<Rightarrow> descriptor list result" where
  "parse_descriptor_loop im bs =
     (if bs = [] then Inr []
      else bind_res (parse_descriptor im bs) (\<lambda>(d, bs').
           bind_res (parse_descriptor_loop im bs') (\<lambda>ds. Inr (d # ds))))"
  by pat_completeness auto
termination
  by (relation "measure (\<lambda>(im, bs). length bs)") (auto simp: parse_descriptor_shrinks)

declare parse_descriptor_loop.simps [simp del]

text \<open>
  The loop runs on the bytes up to its own end pointer; \<open>beyond\<close> are the bytes from there to the
  end of the section, which must not be empty.
\<close>

definition parse_descriptors :: "cpp_impl \<Rightarrow> u8 list \<Rightarrow> u8 list \<Rightarrow> descriptor list result" where
  "parse_descriptors im bs beyond =
     bind_res (test_const (beyond \<noteq> [])) (\<lambda>_. parse_descriptor_loop im bs)"

section \<open>The section header\<close>

text \<open>
  Reads up to and including \<^verbatim>\<open>section_length\<close>, after an optional pointer field \<open>0x00\<close>;
  returns the length and whether the pointer field was there.
\<close>

definition read_until_length :: "cpp_impl \<Rightarrow> (u16 \<times> bool) reader" where
  "read_until_length im bs0 =
     bind_res (test_const (length bs0 \<ge> min_sis_length)) (\<lambda>_.
     bind_res (scan_8 0xFF bs0) (\<lambda>pointer_field.
     bind_res (if pointer_field = 0x00
               then bind_res (read_8 0xFF bs0) (\<lambda>(_, bs). Inr (True, bs)) else Inr (False, bs0))
       (\<lambda>(chopped_prefix, bs).
     bind_res (read_8 0xFF bs) (\<lambda>(table_id, bs).
     bind_res (test_const (table_id = sis_table_id)) (\<lambda>_.
     bind_res (scan_flag 0x80 bs) (\<lambda>section_syntax_indicator.
     bind_res (test_const (section_syntax_indicator = sis_section_syntax_indicator)) (\<lambda>_.
     bind_res (scan_flag 0x40 bs) (\<lambda>private_indicator.
     bind_res (test_const (private_indicator = sis_private_indicator)) (\<lambda>_.
     bind_res (read_12_low bs) (\<lambda>(section_length, bs).
     let header_length = length bs0 - length bs in
     bind_res (cpp_assert im (header_length = 3 \<or> header_length = 4)) (\<lambda>_.
     bind_res (test_const (unat section_length \<ge> min_sis_length - header_length)) (\<lambda>_.
     bind_res (test_const (section_length \<le> 4093)) (\<lambda>_.
     bind_res (test_const (unat section_length \<le> length bs)) (\<lambda>_.
     Inr ((section_length, chopped_prefix), bs)))))))))))))))"

definition scte35_parser_next :: "cpp_impl \<Rightarrow> u8 list \<Rightarrow> bounds option result" where
  "scte35_parser_next im bs =
     (if length bs < min_sis_length then Inr None
      else bind_res (read_until_length im bs) (\<lambda>((section_length, chopped_prefix), rest).
        let start = (if chopped_prefix then 1 else 0);
            header_length = length bs - start - length rest
        in Inr (Some \<lparr>b_start = start, b_length = header_length + unat section_length\<rparr>)))"

section \<open>The section\<close>

definition parse_section :: "cpp_impl \<Rightarrow> u8 list \<Rightarrow> splice_info_section result" where
  "parse_section im bs0 =
     bind_res (cpp_assert im (length bs0 \<ge> min_sis_length)) (\<lambda>_.
     bind_res (read_until_length im bs0) (\<lambda>((section_length, chopped_prefix), bs).
     bind_res (cpp_assert im (unat section_length = length bs)) (\<lambda>_.
     let crc_start = (if chopped_prefix then drop 1 bs0 else bs0) in
     bind_res (read_8 0xFF bs) (\<lambda>(protocol_version, bs).
     bind_res (test_const (protocol_version = sis_protocol_version)) (\<lambda>_.
     bind_res (scan_flag 0x80 bs) (\<lambda>encrypted.
     bind_res (scan_8 0x7E bs) (\<lambda>algorithm_bits.
     if encrypted then parse_fail Encrypted_Section
     else
     bind_res (read_33 bs) (\<lambda>(pts_adj, bs).
     bind_res (cpp_assert im (pts_adj \<le> push_bit 33 1)) (\<lambda>_.
     bind_res (read_8 0xFF bs) (\<lambda>(cw, bs).
     bind_res (scan_12_high bs) (\<lambda>tier_bits.
     bind_res (cpp_assert im (tier_bits \<le> 0xFFF)) (\<lambda>_.
     bind_res (read_8 0xFF bs) (\<lambda>(_, bs).
     bind_res (read_12_low bs) (\<lambda>(splice_command_length, bs).
     bind_res (cpp_assert im (splice_command_length \<le> 0xFFF)) (\<lambda>_.
     bind_res (read_8 0xFF bs) (\<lambda>(splice_command_type, bs).
     let command_start = bs in
     bind_res (test_const (splice_command_length = 0xFFF \<or> unat splice_command_length < length bs)) (\<lambda>_.
     bind_res (parse_command splice_command_type splice_command_length bs) (\<lambda>(cmd, bs).
     let len = (word_of_nat (length command_start - length bs) :: u16) in
     if splice_command_length \<noteq> 0xFFF \<and> len \<noteq> splice_command_length
     then parse_fail Command_Length_Differs
     else
     bind_res (read_16 bs) (\<lambda>(descriptor_loop_length, bs).
     bind_res (if descriptor_loop_length > 0 then
                 bind_res (test_const (unat descriptor_loop_length < length bs)) (\<lambda>_.
                 bind_res (parse_descriptors im (take (unat descriptor_loop_length) bs)
                             (drop (unat descriptor_loop_length) bs)) (\<lambda>ds.
                 Inr (ds, drop (unat descriptor_loop_length) bs)))
               else Inr ([], bs)) (\<lambda>(ds, bs).
     bind_res (if encrypted then bind_res (read_32 bs) (\<lambda>(_, bs). Inr bs) else Inr bs) (\<lambda>bs.
     bind_res (read_32 bs) (\<lambda>(_, bs).
     if crc_value (crc_compute crc_start) \<noteq> 0 then parse_fail Crc_Mismatch
     else
     bind_res (cpp_assert im (bs = [])) (\<lambda>_.
     Inr \<lparr>encrypted_packet = encrypted, encryption_algorithm = drop_bit 1 algorithm_bits,
          pts_adjustment = pts_adj, cw_index = cw, tier = tier_bits, command = cmd,
          descriptors = ds\<rparr>)))))))))))))))))))))))"

definition scte35_parser_pack :: "cpp_impl \<Rightarrow> u8 list \<Rightarrow> bounds \<Rightarrow> splice_info_section result" where
  "scte35_parser_pack im buf b = parse_section im (take (b_length b) (drop (b_start b) buf))"

end
