(* ===== verification/Scte35_Roundtrip.thy ===== *)
theory Scte35_Roundtrip
  imports Scte35_Section
begin

text \<open>
  The emitter against the parser.  Each pair of overloads is a wire format of \<open>Byte_Cursor\<close>;
  where the announced size is the real one it is a sized format.  The exceptions, which the
  sections at the end state, are the schedule (sizes), the private command and the DTMF
  descriptor (parsing) and the packed pair of tier and command length.
\<close>

section \<open>Times\<close>

definition ok_splice_time :: "splice_time \<Rightarrow> bool" where
  "ok_splice_time t = (case pts_time t of None \<Rightarrow> True | Some v \<Rightarrow> v < 2 ^ 33)"

definition ok_break_duration :: "break_duration \<Rightarrow> bool" where
  "ok_break_duration d \<longleftrightarrow> bd_duration d < 2 ^ 33"

lemma scan_flag_33:
  "scan_flag 0x80 (write_33_prefix p v @ r) = Inr (p AND 0x80 \<noteq> 0)"
  by (simp add: scan_33_prefix first_byte_33_high)

interpretation f_time: sized_format ok_splice_time emit_splice_time parse_splice_time hint_splice_time
proof
  fix t r assume "ok_splice_time t"
  then show "parse_splice_time (emit_splice_time t @ r) = Inr (t, r)"
    by (cases t) (auto simp: ok_splice_time_def emit_splice_time_def parse_splice_time_def
        scan_flag_33 read_33_write write_8_def wire split: option.splits)
  show "length (emit_splice_time t) = hint_splice_time t"
    by (auto simp: emit_splice_time_def hint_splice_time_def wire split: option.splits)
qed

interpretation f_break: sized_format ok_break_duration emit_break_duration parse_break_duration hint_break_duration
proof
  fix d r assume "ok_break_duration d"
  then show "parse_break_duration (emit_break_duration d @ r) = Inr (d, r)"
    by (cases d; cases "bd_auto_return d") (auto simp: ok_break_duration_def emit_break_duration_def
        parse_break_duration_def scan_flag_33 read_33_write)
  show "length (emit_break_duration d) = hint_break_duration d"
    by (simp add: emit_break_duration_def hint_break_duration_def wire)
qed

text \<open>An optional field that is present exactly when its flag is set.\<close>

lemma read_if_put:
  assumes "c \<longleftrightarrow> x \<noteq> None" and "\<And>y. x = Some y \<Longrightarrow> get (put y @ r) = Inr (y, r)"
  shows "read_if c get ((case x of None \<Rightarrow> [] | Some y \<Rightarrow> put y) @ r) = Inr (x, r)"
  using assms by (cases x) (auto simp: read_if_def)

lemma read_8_write [wire]: "read_8 255 (write_8 v @ r) = Inr (v, r)"
  by (simp add: write_8_def wire)

lemma scan_8_write [wire]: "scan_8 m (write_8 v @ r) = Inr (v AND m)"
  by (simp add: write_8_def wire)

lemma scan_flag_write [wire]: "scan_flag m (write_8 v @ r) = Inr (v AND m \<noteq> 0)"
  by (simp add: write_8_def wire)

lemma flag_bits:
  "(push_bit 7 (of_bool a) OR push_bit 6 (of_bool b) OR push_bit 5 (of_bool c) OR 0x1F :: u8) AND 0x80 \<noteq> 0 \<longleftrightarrow> a"
  "(push_bit 7 (of_bool a) OR push_bit 6 (of_bool b) OR push_bit 5 (of_bool c) OR 0x1F :: u8) AND 0x40 \<noteq> 0 \<longleftrightarrow> b"
  "(push_bit 7 (of_bool a) OR push_bit 6 (of_bool b) OR push_bit 5 (of_bool c) OR 0x1F :: u8) AND 0x20 \<noteq> 0 \<longleftrightarrow> c"
  "(push_bit 7 (of_bool a) OR push_bit 6 (of_bool b) OR push_bit 5 (of_bool c) OR push_bit 4 (of_bool d) OR 0x0F :: u8) AND 0x80 \<noteq> 0 \<longleftrightarrow> a"
  "(push_bit 7 (of_bool a) OR push_bit 6 (of_bool b) OR push_bit 5 (of_bool c) OR push_bit 4 (of_bool d) OR 0x0F :: u8) AND 0x40 \<noteq> 0 \<longleftrightarrow> b"
  "(push_bit 7 (of_bool a) OR push_bit 6 (of_bool b) OR push_bit 5 (of_bool c) OR push_bit 4 (of_bool d) OR 0x0F :: u8) AND 0x20 \<noteq> 0 \<longleftrightarrow> c"
  "(push_bit 7 (of_bool a) OR push_bit 6 (of_bool b) OR push_bit 5 (of_bool c) OR push_bit 4 (of_bool d) OR 0x0F :: u8) AND 0x10 \<noteq> 0 \<longleftrightarrow> d"
  by (cases a; cases b; cases c; cases d; simp)+

section \<open>Splice schedules\<close>

interpretation f_ssc: sized_format "\<lambda>_. True" emit_ss_component parse_ss_component "\<lambda>_. 5"
  by unfold_locales
    (simp_all add: emit_ss_component_def parse_ss_component_def wire)

fun ok_program_splice :: "program_splice \<Rightarrow> bool" where
  "ok_program_splice (Program_Splice_On _) = True"
| "ok_program_splice (Program_Splice_Off cs) \<longleftrightarrow> 1 \<le> length cs \<and> length cs \<le> 255"

definition ok_ss_event :: "ss_event \<Rightarrow> bool" where
  "ok_ss_event e = (case sse_more e of None \<Rightarrow> True
     | Some m \<Rightarrow> ok_program_splice (ss_splice m) \<and> pred_option ok_break_duration (ss_break_duration m))"

lemma count_byte: "n \<le> 255 \<Longrightarrow> unat (word_of_nat n :: u8) = n"
  by (simp add: unat_of_nat)

lemma count_byte_ge: "1 \<le> n \<Longrightarrow> n \<le> 255 \<Longrightarrow> (1 :: u8) \<le> word_of_nat n"
  by (simp add: word_le_nat_alt count_byte)

lemma parse_program_splice_emit:
  assumes "ok_program_splice ps"
  shows "parse_program_splice (case ps of Program_Splice_On _ \<Rightarrow> True | Program_Splice_Off _ \<Rightarrow> False)
    (emit_program_splice ps @ r) = Inr (ps, r)"
proof (cases ps)
  case (Program_Splice_On t)
  then show ?thesis by (simp add: parse_program_splice_def wire)
next
  case (Program_Splice_Off cs)
  with assms f_ssc.read_many_put [of cs r] show ?thesis
    by (simp add: parse_program_splice_def wire count_byte count_byte_ge list_all_iff)
qed

interpretation f_sse: wire_format ok_ss_event emit_ss_event parse_ss_event
proof
  fix e r assume ok: "ok_ss_event e"
  show "parse_ss_event (emit_ss_event e @ r) = Inr (e, r)"
  proof (cases "sse_more e")
    case None
    then show ?thesis by (cases e) (simp add: parse_ss_event_def emit_ss_event_def wire)
  next
    case (Some m)
    have d: "read_if (ss_duration m) parse_break_duration
        ((case ss_break_duration m of None \<Rightarrow> [] | Some d \<Rightarrow> emit_break_duration d) @ q)
        = Inr (ss_break_duration m, q)" for q
      by (rule read_if_put) (use ok Some in \<open>auto simp: ss_duration_def ok_ss_event_def f_break.get_put\<close>)
    have p: "parse_program_splice (ss_program_splice m) (emit_program_splice (ss_splice m) @ q)
        = Inr (ss_splice m, q)" for q
      using parse_program_splice_emit ok Some by (simp add: ss_program_splice_def ok_ss_event_def)
    show ?thesis using Some
      by (cases e)
        (simp add: parse_ss_event_def emit_ss_event_def emit_ss_cancel_off_def wire flag_bits d p)
  qed
qed


definition ok_splice_schedule :: "splice_schedule \<Rightarrow> bool" where
  "ok_splice_schedule c \<longleftrightarrow> length (ss_events c) \<le> 255 \<and> list_all ok_ss_event (ss_events c)"

interpretation f_schedule: wire_format ok_splice_schedule emit_splice_schedule parse_splice_schedule
proof
  fix c r assume "ok_splice_schedule c"
  with f_sse.read_many_put [of "ss_events c" r]
  show "parse_splice_schedule (emit_splice_schedule c @ r) = Inr (c, r)"
    by (simp add: parse_splice_schedule_def emit_splice_schedule_def ok_splice_schedule_def wire count_byte)
qed

section \<open>Splice inserts\<close>

definition ok_si_component :: "bool \<Rightarrow> si_component \<Rightarrow> bool" where
  "ok_si_component immediate c \<longleftrightarrow>
     (sic_splice_time c = None \<longleftrightarrow> immediate) \<and> pred_option ok_splice_time (sic_splice_time c)"

interpretation f_sic: sized_format "ok_si_component imm" emit_si_component "parse_si_component imm" hint_si_component
  for imm
proof
  fix c r assume ok: "ok_si_component imm c"
  have "read_if (\<not> imm) parse_splice_time
      ((case sic_splice_time c of None \<Rightarrow> [] | Some t \<Rightarrow> emit_splice_time t) @ r)
      = Inr (sic_splice_time c, r)"
    by (rule read_if_put) (use ok in \<open>auto simp: ok_si_component_def f_time.get_put\<close>)
  then show "parse_si_component imm (emit_si_component c @ r) = Inr (c, r)"
    by (simp add: parse_si_component_def emit_si_component_def wire)
  show "length (emit_si_component c) = hint_si_component c"
    using ok by (auto simp: emit_si_component_def hint_si_component_def wire ok_si_component_def
        f_time.length_put split: option.splits)
qed

definition ok_si_components :: "bool \<Rightarrow> si_component list \<Rightarrow> bool" where
  "ok_si_components immediate cs \<longleftrightarrow>
     1 \<le> length cs \<and> length cs \<le> 255 \<and> list_all (ok_si_component immediate) cs"

interpretation f_sics: sized_format "ok_si_components imm" emit_si_components "parse_si_components imm" hint_si_components
  for imm
proof
  fix cs r assume ok: "ok_si_components imm cs"
  with f_sic.read_many_put [of imm cs r]
  show "parse_si_components imm (emit_si_components cs @ r) = Inr (cs, r)"
    by (simp add: parse_si_components_def emit_si_components_def ok_si_components_def wire
        count_byte count_byte_ge)
  show "length (emit_si_components cs) = hint_si_components cs"
    using ok f_sic.length_concat_put [of imm cs]
    by (simp add: emit_si_components_def hint_si_components_def ok_si_components_def wire)
qed

text \<open>
  The optional parts of an insert must be there exactly when the flags say so, as the parser
  makes them; the constructor of the struct does not enforce it.
\<close>

definition ok_si_cancel_off :: "si_cancel_off \<Rightarrow> bool" where
  "ok_si_cancel_off m \<longleftrightarrow>
     (si_splice_time m \<noteq> None \<longleftrightarrow> si_program_splice m \<and> \<not> si_splice_immediate m) \<and>
     (si_components m \<noteq> None \<longleftrightarrow> \<not> si_program_splice m) \<and>
     pred_option ok_splice_time (si_splice_time m) \<and>
     pred_option (ok_si_components (si_splice_immediate m)) (si_components m) \<and>
     pred_option ok_break_duration (si_break_duration m)"

definition ok_splice_insert :: "splice_insert \<Rightarrow> bool" where
  "ok_splice_insert c = pred_option ok_si_cancel_off (si_more c)"

lemma length_option_put:
  "(\<And>y. x = Some y \<Longrightarrow> length (put y) = hint y) \<Longrightarrow>
     length (case x of None \<Rightarrow> [] | Some y \<Rightarrow> put y) = (case x of None \<Rightarrow> 0 | Some y \<Rightarrow> hint y)"
  by (cases x) auto

lemma length_emit_si_cancel_off:
  assumes "ok_si_cancel_off m"
  shows "length (emit_si_cancel_off m) = hint_si_cancel_off m"
proof -
  have "length (case si_splice_time m of None \<Rightarrow> [] | Some t \<Rightarrow> emit_splice_time t)
      = (case si_splice_time m of None \<Rightarrow> 0 | Some t \<Rightarrow> hint_splice_time t)"
    by (rule length_option_put) (use assms in \<open>auto simp: ok_si_cancel_off_def intro: f_time.length_put\<close>)
  moreover have "length (case si_components m of None \<Rightarrow> [] | Some cs \<Rightarrow> emit_si_components cs)
      = (case si_components m of None \<Rightarrow> 0 | Some cs \<Rightarrow> hint_si_components cs)"
    by (rule length_option_put) (use assms in \<open>auto simp: ok_si_cancel_off_def intro: f_sics.length_put\<close>)
  moreover have "length (case si_break_duration m of None \<Rightarrow> [] | Some d \<Rightarrow> emit_break_duration d)
      = (case si_break_duration m of None \<Rightarrow> 0 | Some d \<Rightarrow> hint_break_duration d)"
    by (rule length_option_put) (use assms in \<open>auto simp: ok_si_cancel_off_def intro: f_break.length_put\<close>)
  ultimately show ?thesis
    by (simp add: emit_si_cancel_off_def hint_si_cancel_off_def wire)
qed

interpretation f_insert: sized_format ok_splice_insert emit_splice_insert parse_splice_insert hint_splice_insert
proof
  fix c r assume ok: "ok_splice_insert c"
  show "parse_splice_insert (emit_splice_insert c @ r) = Inr (c, r)"
  proof (cases "si_more c")
    case None
    then show ?thesis by (cases c) (simp add: parse_splice_insert_def emit_splice_insert_def wire)
  next
    case (Some m)
    with ok have m: "ok_si_cancel_off m" by (simp add: ok_splice_insert_def)
    have t: "read_if (si_program_splice m \<and> \<not> si_splice_immediate m) parse_splice_time
        ((case si_splice_time m of None \<Rightarrow> [] | Some t \<Rightarrow> emit_splice_time t) @ q)
        = Inr (si_splice_time m, q)" for q
      by (rule read_if_put) (use m in \<open>auto simp: ok_si_cancel_off_def f_time.get_put\<close>)
    have s: "read_if (\<not> si_program_splice m) (parse_si_components (si_splice_immediate m))
        ((case si_components m of None \<Rightarrow> [] | Some t \<Rightarrow> emit_si_components t) @ q)
        = Inr (si_components m, q)" for q
      by (rule read_if_put) (use m in \<open>auto simp: ok_si_cancel_off_def f_sics.get_put\<close>)
    have d: "read_if (si_duration m) parse_break_duration
        ((case si_break_duration m of None \<Rightarrow> [] | Some d \<Rightarrow> emit_break_duration d) @ q)
        = Inr (si_break_duration m, q)" for q
      by (rule read_if_put) (use m in \<open>auto simp: si_duration_def ok_si_cancel_off_def f_break.get_put\<close>)
    show ?thesis using Some
      by (cases c)
        (simp add: parse_splice_insert_def emit_splice_insert_def emit_si_cancel_off_def wire flag_bits t s d
          del: de_Morgan_conj)
  qed
  show "length (emit_splice_insert c) = hint_splice_insert c"
    using ok by (auto simp: emit_splice_insert_def hint_splice_insert_def wire ok_splice_insert_def
        length_emit_si_cancel_off split: option.splits)
qed


section \<open>Commands\<close>

definition ok_time_signal :: "time_signal \<Rightarrow> bool" where
  "ok_time_signal c = ok_splice_time (tsig_splice_time c)"

interpretation f_signal: sized_format ok_time_signal emit_time_signal parse_time_signal hint_time_signal
  by unfold_locales
    (simp_all add: ok_time_signal_def emit_time_signal_def parse_time_signal_def hint_time_signal_def
      f_time.get_put f_time.length_put)

fun ok_command :: "command \<Rightarrow> bool" where
  "ok_command Splice_Null = True"
| "ok_command (Splice_Schedule c) = ok_splice_schedule c"
| "ok_command (Splice_Insert c) = ok_splice_insert c"
| "ok_command (Time_Signal c) = ok_time_signal c"
| "ok_command Bandwidth_Reservation = True"
| "ok_command (Private_Command c) = False"

lemma parse_command_emit:
  "ok_command c \<Longrightarrow> parse_command (command_type c) len (emit_command c @ r) = Inr (c, r)"
  by (cases c) (simp_all add: parse_command_def f_schedule.get_put f_insert.get_put f_signal.get_put)

text \<open>The commands whose announced size is the size they are emitted with.\<close>

fun sized_command :: "command \<Rightarrow> bool" where
  "sized_command (Splice_Schedule c) = list_all sse_cancel (ss_events c)"
| "sized_command _ = True"

lemma length_cancelled_events:
  "list_all sse_cancel es \<Longrightarrow> length (concat (map emit_ss_event es)) = (\<Sum>e\<leftarrow>es. hint_ss_event e)"
  by (induction es) (simp_all add: emit_ss_event_def hint_ss_event_def sse_cancel_def wire)

lemma length_emit_command:
  "ok_command c \<Longrightarrow> sized_command c \<Longrightarrow> length (emit_command c) = hint_command c"
  by (cases c)
    (simp_all add: f_insert.length_put f_signal.length_put emit_splice_schedule_def
      hint_splice_schedule_def length_cancelled_events wire)

section \<open>Descriptors\<close>

fun ok_descriptor :: "cpp_impl \<Rightarrow> descriptor \<Rightarrow> bool" where
  "ok_descriptor im (Avail_Descriptor d) = True"
| "ok_descriptor im (Dtmf_Descriptor d) = False"
| "ok_descriptor im (Segmentation_Descriptor d) \<longleftrightarrow> length (seg_data d) \<le> 251"
| "ok_descriptor im (Time_Descriptor d) \<longleftrightarrow>
     tai_seconds d < 2 ^ 48 \<and> operands_left_first im \<and> arguments_left_first im"

lemma concat_write_8 [simp]: "concat (map write_8 bs) = bs"
  by (induction bs) (simp_all add: write_8_def)

interpretation f_descriptor: sized_format "ok_descriptor im" emit_descriptor "parse_descriptor im" hint_descriptor
  for im
proof
  fix d r assume ok: "ok_descriptor im d"
  show "parse_descriptor im (emit_descriptor d @ r) = Inr (d, r)"
  proof (cases d)
    case (Avail_Descriptor a)
    then show ?thesis
      by (simp add: parse_descriptor_def parse_avail_descriptor_def wire descriptor_consts)
  next
    case (Dtmf_Descriptor a)
    with ok show ?thesis by simp
  next
    case (Segmentation_Descriptor a)
    with ok have "length (seg_data a) + 4 \<le> 255" by simp
    then have "unat (word_of_nat (length (seg_data a) + 4) :: u8) = length (seg_data a) + 4"
      by (rule count_byte)
    with Segmentation_Descriptor show ?thesis
      by (simp add: parse_descriptor_def parse_segmentation_descriptor_def wire descriptor_consts Let_def
          add.commute del: of_nat_add)
  next
    case (Time_Descriptor a)
    with ok show ?thesis
      by (cases a) (simp add: parse_descriptor_def parse_time_descriptor_def wire read_48_write descriptor_consts)
  qed
  show "length (emit_descriptor d) = hint_descriptor d"
    using ok by (cases d) (simp_all add: wire descriptor_consts)
qed

lemma parse_descriptor_loop_emit:
  "list_all (ok_descriptor im) ds \<Longrightarrow>
     parse_descriptor_loop im (concat (map emit_descriptor ds)) = Inr ds"
proof (induction ds)
  case Nil
  then show ?case by (simp add: parse_descriptor_loop.simps)
next
  case (Cons d ds)
  have "emit_descriptor d \<noteq> []" by (cases d) (simp_all add: write_8_def)
  with Cons show ?case
    by (simp add: parse_descriptor_loop.simps [of im "_ @ _"] f_descriptor.get_put)
qed

end
