(* ===== verification/Scte35_Sections.thy ===== *)
theory Scte35_Sections
  imports Scte35_Roundtrip
begin

text \<open>
  Whole sections: what \<open>emit_section\<close> writes, that \<open>parse_section\<close> reads it back, and what
  the parser guarantees of every section it accepts.
\<close>

lemmas sis_consts = sis_table_id_def sis_section_syntax_indicator_def sis_private_indicator_def
  sis_protocol_version_def

section \<open>The checksum iterator\<close>

lemma crc_out_write_eq:
  "crc_out_write bs (out, crc_compute out) = (out @ bs, crc_compute (out @ bs))"
proof (induction bs arbitrary: out)
  case Nil
  then show ?case by (simp add: crc_out_write_def)
next
  case (Cons b bs)
  have "crc_out_put (out, crc_compute out) b = (out @ [b], crc_compute (out @ [b]))"
    by (simp add: crc_compute_def crc_update_all_def)
  with Cons [of "out @ [b]"] show ?case by (simp add: crc_out_write_def)
qed

lemma crc_out_init_eq: "crc_out_init = ([], crc_compute [])"
  by (simp add: crc_out_init_def crc_compute_def crc_update_all_def)

definition section_header :: "splice_info_section \<Rightarrow> u8 list" where
  "section_header s = write_8 0xFC @ write_12_prefix 3 (word_of_nat (compute_section_length s))"

definition section_fields :: "splice_info_section \<Rightarrow> u8 list" where
  "section_fields s =
     write_8 0 @
     write_33_prefix (push_bit 7 (of_bool (encrypted_packet s))
       OR (push_bit 1 (encryption_algorithm s) AND 0x7E)) (pts_adjustment s) @
     write_8 (cw_index s) @
     write_12_pair (tier s) (word_of_nat (hint_command (command s))) @
     write_8 (command_type (command s)) @
     emit_command (command s) @
     write_16 (word_of_nat (hint_descriptors (descriptors s))) @
     concat (map emit_descriptor (descriptors s))"

definition section_crc :: "splice_info_section \<Rightarrow> u8 list" where
  "section_crc s = write_32 (crc_value (crc_compute (section_header s @ section_fields s)))"

lemma emit_section_eq: "emit_section s = section_header s @ section_fields s @ section_crc s"
  by (simp add: emit_section_def crc_out_init_eq crc_out_write_eq section_header_def
      section_fields_def section_crc_def sis_consts Let_def)

section \<open>Sections that survive the wire\<close>

text \<open>
  The tier keeps its value only if the high nibble of the command length, which the packed pair
  leaves in its low bits, is already there.
\<close>

definition ok_section :: "cpp_impl \<Rightarrow> splice_info_section \<Rightarrow> bool" where
  "ok_section im s \<longleftrightarrow>
     \<not> encrypted_packet s \<and> encryption_algorithm s < 64 \<and> pts_adjustment s < 2 ^ 33 \<and>
     (tier s AND 0xFFF) OR (drop_bit 4 (word_of_nat (hint_command (command s))) AND 0xF) = tier s \<and>
     ok_command (command s) \<and> sized_command (command s) \<and> hint_command (command s) \<le> 255 \<and>
     list_all (ok_descriptor im) (descriptors s) \<and> compute_section_length s \<le> 4093"

lemma length_section_fields:
  assumes "ok_section im s"
  shows "length (section_fields s) = compute_section_length s - 4"
  using assms f_descriptor.length_concat_put [of im "descriptors s"]
  by (simp add: ok_section_def section_fields_def wire length_emit_command compute_section_length_def
      hint_descriptors_def)

lemma small_word_simps:
  assumes "n \<le> 4093"
  shows "unat (word_of_nat n :: u16) = n" and "(word_of_nat n :: u16) AND 0xFFF = word_of_nat n"
proof -
  show u: "unat (word_of_nat n :: u16) = n" using assms by (simp add: unat_of_nat)
  have "(word_of_nat n :: u16) < 2 ^ 12" by (rule word_less_nat_alt [THEN iffD2]) (use u assms in simp)
  then have "(word_of_nat n :: u16) AND mask 12 = word_of_nat n" by (rule less_mask_eq)
  then show "(word_of_nat n :: u16) AND 0xFFF = word_of_nat n" by (simp add: mask_eq_exp_minus_1)
qed

lemma prefix_flags:
  "(48 OR (b AND 0xF) :: u8) AND 0x80 = 0"
  "(48 OR (b AND 0xF) :: u8) AND 0x40 = 0"
  by (simp_all add: bit.conj_disj_distrib2 and.assoc)

lemma read_until_length_emit:
  assumes "ok_section im s"
  shows "read_until_length im (section_header s @ section_fields s @ section_crc s @ rest) =
    Inr ((word_of_nat (compute_section_length s), False), section_fields s @ section_crc s @ rest)"
proof -
  have n: "compute_section_length s \<le> 4093" "17 \<le> compute_section_length s"
    using assms by (simp_all add: ok_section_def compute_section_length_def)
  have l: "length (section_fields s) = compute_section_length s - 4"
    using assms by (rule length_section_fields)
  have c: "length (section_crc s) = 4" by (simp add: section_crc_def wire)
  have le: "(word_of_nat (compute_section_length s) :: u16) \<le> 4093"
    using n by (simp add: word_le_nat_alt small_word_simps)
  show ?thesis
    using n l c le
    by (simp add: read_until_length_def section_header_def wire scan_flag_prefix read_12_low_prefix
        prefix_flags sis_consts min_sis_length_def small_word_simps cpp_assert_def)
qed

lemma algorithm_bits:
  assumes "a < 64"
  shows "drop_bit 1 ((push_bit 1 a AND 0x7E) AND 0x7E) = (a :: u8)"
    and "(push_bit 1 a AND 0x7E) AND 0x80 = (0 :: u8)"
proof -
  have m: "(0x7E :: u8) = push_bit 1 (mask 6)" "(0x80 :: u8) = push_bit 7 (mask 1)"
    by (simp_all add: mask_eq_exp_minus_1)
  have b: "bit a n \<Longrightarrow> n < 6" for n using bit_below_exp [of a n 6] assms by simp
  show "drop_bit 1 ((push_bit 1 a AND 0x7E) AND 0x7E) = (a :: u8)"
    unfolding m by (intro bit_word_eqI)
      (auto simp: bit_simps simp del: One_nat_def push_bit_Suc drop_bit_Suc dest: b)
  show "(push_bit 1 a AND 0x7E) AND 0x80 = (0 :: u8)"
    unfolding m by (intro bit_word_eqI)
      (auto simp: bit_simps simp del: One_nat_def push_bit_Suc drop_bit_Suc)
qed

lemma command_length_byte:
  assumes "n \<le> 255"
  shows "(word_of_nat n :: u16) AND 0xFF = word_of_nat n"
proof -
  have "(word_of_nat n :: u16) < 2 ^ 8"
    by (rule word_less_nat_alt [THEN iffD2]) (use assms in \<open>simp add: unat_of_nat\<close>)
  then have "(word_of_nat n :: u16) AND mask 8 = word_of_nat n" by (rule less_mask_eq)
  then show ?thesis by (simp add: mask_eq_exp_minus_1)
qed

lemma hint_descriptors_zero: "hint_descriptors ds = 0 \<Longrightarrow> ds = []"
proof (cases ds)
  case (Cons d es)
  then show "hint_descriptors ds = 0 \<Longrightarrow> ds = []" by (cases d) (simp_all add: hint_descriptors_def)
qed simp

lemma parse_section_emit:
  assumes ok: "ok_section im s"
  shows "parse_section im (emit_section s) = Inr s"
proof -
  note o = ok [unfolded ok_section_def]
  let ?h = "hint_command (command s)"
  have crc: "crc_value (crc_compute (section_header s @ section_fields s @ section_crc s)) = 0"
    using crc_residue [of "section_header s @ section_fields s"] by (simp add: section_crc_def)
  have n: "compute_section_length s \<le> 4093" "17 \<le> compute_section_length s"
    using o by (simp_all add: compute_section_length_def)
  have len: "length (section_fields s) = compute_section_length s - 4" "length (section_crc s) = 4"
    using length_section_fields [OF ok] by (simp_all add: section_crc_def wire)
  have h: "?h \<le> 255" using o by simp
  have hl: "unat (word_of_nat ?h :: u16) = ?h" using h by (simp add: unat_of_nat)
  have hd: "hint_descriptors (descriptors s) \<le> 4093"
    using n by (simp add: compute_section_length_def)
  have lc: "length (emit_command (command s)) = ?h" using o by (simp add: length_emit_command)
  have ne: "word_of_nat ?h \<noteq> (0xFFF :: u16)"
  proof
    assume "word_of_nat ?h = (0xFFF :: u16)"
    then have "unat (word_of_nat ?h :: u16) = unat (0xFFF :: u16)" by simp
    with hl h show False by simp
  qed
  have le: "word_of_nat ?h \<le> (0xFFF :: u16)" using h hl by (simp add: word_le_nat_alt)
  have t: "(tier s AND 0xFFF) OR (drop_bit 4 (word_of_nat ?h) AND 0xF) = tier s" using o by simp
  have tle: "tier s \<le> 0xFFF"
  proof -
    have "tier s AND 0xFFF = tier s"
      by (subst (1 2) t [symmetric]) (simp add: bit.conj_disj_distrib2 and.assoc)
    then show ?thesis using word_and_le1 [of "tier s" "0xFFF"] by simp
  qed
  have pts: "pts_adjustment s < 2 ^ 33" "pts_adjustment s \<le> push_bit 33 1"
    using o by (simp_all add: order_less_imp_le)
  note ab = algorithm_bits [of "encryption_algorithm s", simplified]
  have hdr: "length (section_header s) = 3" by (simp add: section_header_def wire)
  have ar: "13 \<le> compute_section_length s - 4" "compute_section_length s - 4 + 4 = compute_section_length s"
    using n by simp_all
  note r33 = read_33_write [OF pts(1)]
  have ld: "length (concat (map emit_descriptor (descriptors s))) = hint_descriptors (descriptors s)"
    using f_descriptor.length_concat_put [of im "descriptors s"] o by (simp add: hint_descriptors_def)
  have pd: "parse_descriptors im (concat (map emit_descriptor (descriptors s))) (section_crc s)
      = Inr (descriptors s)"
  proof -
    have "section_crc s \<noteq> []" using len(2) by auto
    then show ?thesis using o by (simp add: parse_descriptors_def parse_descriptor_loop_emit)
  qed
  have none: "descriptors s = []" if "\<not> (word_of_nat (hint_descriptors (descriptors s)) :: u16) > 0"
    using that hd by (intro hint_descriptors_zero) (simp add: word_less_nat_alt small_word_simps)
  have rd: "read_32 (section_crc s) = Inr (crc_value (crc_compute (section_header s @ section_fields s)), [])"
    using w32.get_put [of "crc_value (crc_compute (section_header s @ section_fields s))" "[]"]
    by (simp add: section_crc_def)
  have rec: "\<lparr>encrypted_packet = False, encryption_algorithm = encryption_algorithm s,
      pts_adjustment = pts_adjustment s, cw_index = cw_index s, tier = tier s, command = command s,
      descriptors = descriptors s\<rparr> = s"
    using o by (cases s) simp
  have "parse_section im (section_header s @ section_fields s @ section_crc s) = Inr s"
    using crc unfolding parse_section_def
    apply (simp add: read_until_length_emit [OF ok, where rest = "[]", simplified] small_word_simps n len Let_def)
    apply (simp add: section_fields_def wire scan_33_prefix first_byte_33_high ab sis_consts hdr
       min_sis_length_def o pts pts(2) [simplified] r33 ar n scan_12_high_pair
       t tle read_8_pair read_12_low_pair command_length_byte h le hl ne parse_command_emit lc
       ld small_word_simps hd pd len rd rec)
    apply (rule impI)
    apply (frule none)
    using rec apply (simp add: rd)
    done
  then show ?thesis by (simp add: emit_section_eq)
qed

lemma length_emit_section:
  "ok_section im s \<Longrightarrow> length (emit_section s) = hint_section s"
  using length_section_fields [of im s]
  by (simp add: emit_section_eq section_header_def section_crc_def wire hint_section_def compute_section_length_def)

section \<open>The section parser as a packet format\<close>

lemma read_until_length_consumes:
  "read_until_length im bs = Inr ((n, c), r) \<Longrightarrow> length r < length bs \<and> unat n \<le> length r"
  by (auto simp: read_until_length_def bind_res_Inr_iff Let_def split: if_splits dest!: reader_lengths)

interpretation sections: packet_format "scte35_parser_next im" "scte35_parser_pack im" for im
proof
  fix bs b assume a: "scte35_parser_next im bs = Inr (Some b)"
  then obtain n c r where r: "read_until_length im bs = Inr ((n, c), r)"
    and b: "b = \<lparr>b_start = (if c then 1 else 0), b_length = length bs - (if c then 1 else 0) - length r + unat n\<rparr>"
    by (auto simp: scte35_parser_next_def bind_res_Inr_iff Let_def split: if_splits)
  from read_until_length_consumes [OF r] show "b_start b + b_length b \<le> length bs"
    and "0 < b_start b + b_length b"
    by (auto simp: b)
qed

lemma parser_shift_section:
  assumes "ok_section im s" and "p_pos p \<le> length (p_buffer p)" and "unread p = emit_section s @ rest"
  shows "parser_shift im (scte35_parser_next im) (scte35_parser_pack im) p =
    Inr (s, p\<lparr>p_pos := p_pos p + hint_section s\<rparr>)"
proof -
  have l: "length (emit_section s) = hint_section s" using assms(1) by (rule length_emit_section)
  have h: "hint_section s = 3 + compute_section_length s" "17 \<le> compute_section_length s"
      "compute_section_length s \<le> 4093"
    using assms(1) by (simp_all add: hint_section_def compute_section_length_def ok_section_def)
  have b: "p_buffer p = take (p_pos p) (p_buffer p) @ emit_section s @ rest"
    using assms(3) by (metis unread_def append_take_drop_id)
  have lb: "length (p_buffer p) = p_pos p + hint_section s + length rest"
    using assms(2) l by (subst b) simp
  have sf: "length (section_fields s) = compute_section_length s - 4" "length (section_crc s) = 4"
    using length_section_fields [OF assms(1)] by (simp_all add: section_crc_def wire)
  have nx: "scte35_parser_next im (unread p) = Inr (Some \<lparr>b_start = 0, b_length = hint_section s\<rparr>)"
    using read_until_length_emit [OF assms(1), of rest] h l sf
    by (simp add: scte35_parser_next_def assms(3) min_sis_length_def emit_section_eq small_word_simps Let_def
        section_header_def wire)
  have pk: "scte35_parser_pack im (p_buffer p) \<lparr>b_start = p_pos p, b_length = hint_section s\<rparr> = Inr s"
    using parse_section_emit [OF assms(1)] l assms(3)
    by (simp add: scte35_parser_pack_def unread_def)
  have pos: "0 < hint_section s" using h by simp
  show ?thesis
    using pos lb by (simp add: parser_shift_def parser_next_def nx pk has_next_def Let_def)
qed

interpretation section_codec: packet_codec im "scte35_parser_next im" "scte35_parser_pack im" "ok_section im" emit_section
  for im
proof
  fix s p rest
  assume s: "ok_section im s" and "p_pos p \<le> length (p_buffer p)" and "unread p = emit_section s @ rest"
  then show "parser_shift im (scte35_parser_next im) (scte35_parser_pack im) p
      = Inr (s, p\<lparr>p_pos := p_pos p + length (emit_section s)\<rparr>)"
    by (simp add: parser_shift_section length_emit_section)
next
  fix s assume "ok_section im s"
  then have "length (emit_section s) \<noteq> 0" by (simp add: length_emit_section hint_section_def)
  then show "emit_section s \<noteq> []" by auto
qed

text \<open>A section to evaluate on: a time signal with a segmentation and an avail descriptor.\<close>

definition sample_section :: splice_info_section where
  "sample_section = default_section\<lparr>pts_adjustment := 0x1FFFFFFFF,
     command := Time_Signal \<lparr>tsig_splice_time = \<lparr>pts_time = Some 90000\<rparr>\<rparr>,
     descriptors := [Segmentation_Descriptor \<lparr>seg_data = [1, 2, 3]\<rparr>,
       Avail_Descriptor \<lparr>provider_avail_id = 7\<rparr>,
       Time_Descriptor \<lparr>tai_seconds = 0x123456789ABC, tai_nanoseconds = 5, utc_offset = 37\<rparr>]\<rparr>"

lemma ok_sample: "ok_section sample_impl sample_section"
  by (simp add: ok_section_def sample_section_def default_section_def sample_impl_def
      compute_section_length_def hint_time_signal_def hint_splice_time_def hint_descriptors_def
      ok_time_signal_def ok_splice_time_def descriptor_consts)

text \<open>
  C9: Running the SCTE-35 parser over the concatenation of any emitted well-formed sections
  hands exactly these sections, in order, to the loop's body, and ends without an error.
\<close>

theorem scte35_stream_roundtrip:
  assumes "list_all (ok_section im) ss"
  shows "parse_each im (scte35_parser_next im) (scte35_parser_pack im) body (concat (map emit_section ss)) st
    = Some (run_body body ss st)"
  using assms by (rule section_codec.parse_each_put)

theorem scte35_stream_roundtrip_witness:
  "parse_each sample_impl (scte35_parser_next sample_impl) (scte35_parser_pack sample_impl)
     (\<lambda>s n. (Suc n, None)) (concat (map emit_section [sample_section, sample_section])) 0 = Some (2 :: nat, None)"
  using scte35_stream_roundtrip [of sample_impl "[sample_section, sample_section]" "\<lambda>s n. (Suc n, None)" 0]
  by (simp add: ok_sample)

text \<open>
  C12: Parsing an emitted well-formed section gives the section back, and the emitted bytes have
  the announced size.
\<close>

theorem scte35_section_roundtrip:
  assumes "ok_section im s"
  shows "parse_section im (emit_section s) = Inr s \<and> length (emit_section s) = hint_section s"
  using assms by (simp add: parse_section_emit length_emit_section)

theorem scte35_section_roundtrip_witness:
  "parse_section sample_impl (emit_section sample_section) = Inr sample_section \<and>
   length (emit_section sample_section) = hint_section sample_section"
  by (rule scte35_section_roundtrip) (rule ok_sample)

end
