(* ===== verification/Scte35_Limits.thy ===== *)
theory Scte35_Limits
  imports Scte35_Sections
begin

text \<open>
  What the SCTE-35 parser guarantees of the sections it accepts, and where emitter and parser
  disagree: private commands, DTMF descriptors, schedules, the packed pair of tier and length.
\<close>

section \<open>Accepted sections\<close>

lemma and_mask_less:
  fixes a :: "'a::len word"
  assumes "n < LENGTH('a)"
  shows "a AND mask n < 2 ^ n"
  using and_mask_less' [of n a] assms by simp

lemma read_until_length_pointer:
  "read_until_length im (x # xs) = Inr ((n, c), r) \<Longrightarrow> (c \<longleftrightarrow> x = 0) \<and> min_sis_length \<le> Suc (length xs)"
  by (auto simp: read_until_length_def wire Let_def bind_res_Inr_iff split: if_splits)

lemma parse_section_parts:
  assumes "parse_section im bs = Inr s"
  shows "\<exists>n c rest. read_until_length im bs = Inr ((n, c), rest) \<and>
      crc_value (crc_compute (if c then drop 1 bs else bs)) = 0"
    and "\<not> encrypted_packet s"
    and "\<exists>b x. scan_8 0x7E b = Inr x \<and> encryption_algorithm s = drop_bit 1 x"
    and "\<exists>t n b r. parse_command t n b = Inr (command s, r) \<and>
      (n = 0xFFF \<or> (word_of_nat (length b - length r) :: u16) = n)"
proof -
  from assms show "\<exists>n c rest. read_until_length im bs = Inr ((n, c), rest) \<and>
      crc_value (crc_compute (if c then drop 1 bs else bs)) = 0"
    unfolding parse_section_def Let_def
    by (elim bind_res_tripleE bind_res_pairE bind_resE fail_ifE) auto
  from assms show "\<not> encrypted_packet s"
    unfolding parse_section_def Let_def
    by (elim bind_res_tripleE bind_res_pairE bind_resE fail_ifE) auto
  from assms show "\<exists>b x. scan_8 0x7E b = Inr x \<and> encryption_algorithm s = drop_bit 1 x"
    unfolding parse_section_def Let_def
    apply (elim bind_res_tripleE bind_res_pairE bind_resE fail_ifE)
    apply (drule sum.inject(2) [THEN iffD1])
    apply hypsubst
    apply (simp only: splice_info_section.simps)
    apply (intro exI, rule conjI, assumption)
    apply (rule refl)
    done
  from assms show "\<exists>t n b r. parse_command t n b = Inr (command s, r) \<and>
      (n = 0xFFF \<or> (word_of_nat (length b - length r) :: u16) = n)"
    unfolding parse_section_def Let_def
    apply (elim bind_res_tripleE bind_res_pairE bind_resE fail_ifE)
    apply (drule sum.inject(2) [THEN iffD1])
    apply hypsubst
    apply (simp only: splice_info_section.simps)
    apply (intro exI, rule conjI, assumption)
    apply blast
    done
qed

lemma parse_section_invariant:
  assumes "parse_section im bs = Inr s"
  shows "\<not> encrypted_packet s" and "encryption_algorithm s < 64"
    and "crc_value (crc_compute (if hd bs = 0 then tl bs else bs)) = 0" and "min_sis_length \<le> length bs"
proof -
  from parse_section_parts(1) [OF assms] obtain n c r where r: "read_until_length im bs = Inr ((n, c), r)"
    and crc: "crc_value (crc_compute (if c then drop 1 bs else bs)) = 0" by blast
  then have "bs \<noteq> []" by (auto simp: read_until_length_def min_sis_length_def bind_res_Inr_iff)
  then obtain x xs where bs: "bs = x # xs" by (cases bs) auto
  from crc read_until_length_pointer [OF r [unfolded bs]]
  show "crc_value (crc_compute (if hd bs = 0 then tl bs else bs)) = 0" and "min_sis_length \<le> length bs"
    by (simp_all add: bs split: if_splits)
  show "\<not> encrypted_packet s" by (rule parse_section_parts(2) [OF assms])
  from parse_section_parts(3) [OF assms] obtain b where "encryption_algorithm s = drop_bit 1 (b AND 0x7E)"
    by (auto simp: scan_8_def bind_res_Inr_iff)
  also have "drop_bit 1 (b AND 0x7E) = drop_bit 1 b AND mask 6"
  proof -
    have m: "(0x7E :: u8) = push_bit 1 (mask 6)" by (simp add: mask_eq_exp_minus_1)
    show ?thesis unfolding m by (intro bit_word_eqI)
      (auto simp: bit_simps simp del: One_nat_def push_bit_Suc drop_bit_Suc)
  qed
  also have "\<dots> < 64" using and_mask_less [of 6 "drop_bit 1 b"] by simp
  finally show "encryption_algorithm s < 64" .
qed

text \<open>
  Whatever section the parser accepts: the checksum over its bytes without the pointer field is
  zero, it is not encrypted, its algorithm number has six bits, and it has at least the minimal
  length.
\<close>

theorem accepted_section_checksum:
  assumes "parse_section im bs = Inr s"
  shows "crc_value (crc_compute (if hd bs = 0 then tl bs else bs)) = 0 \<and> \<not> encrypted_packet s \<and>
    encryption_algorithm s < 64 \<and> min_sis_length \<le> length bs"
  using parse_section_invariant [OF assms] by blast

theorem accepted_section_checksum_witness:
  "crc_value (crc_compute (emit_section sample_section)) = 0 \<and> \<not> encrypted_packet sample_section"
  using accepted_section_checksum [OF parse_section_emit [OF ok_sample]]
  by (simp add: emit_section_eq section_header_def write_8_def)



section \<open>Private commands\<close>

lemma parse_private_consumes:
  assumes "parse_private_command n bs = Inr (c, r)"
  shows "length bs - length r = 4 + unat n \<and> n \<noteq> 0xFFF"
  using assms by (auto simp: parse_private_command_def bind_res_Inr_iff read_32_def scan_defs split: if_splits)

lemma parse_command_private:
  assumes "parse_command t n b = Inr (Private_Command c, r)"
  shows "(word_of_nat (length b - length r) :: u16) \<noteq> n \<and> n \<noteq> 0xFFF"
proof -
  from assms have "parse_private_command n b = Inr (c, r)"
    by (auto simp: parse_command_def bind_res_Inr_iff parse_fail_def split: if_splits)
  from parse_private_consumes [OF this] show ?thesis by simp
qed

text \<open>
  No section with a private command is ever accepted.
\<close>

theorem private_command_never_accepted:
  "parse_section im bs = Inr s \<Longrightarrow> command s \<noteq> Private_Command c"
  using parse_section_parts(4) [of im bs s] by (auto dest: parse_command_private)

theorem private_command_never_accepted_witness:
  "command sample_section \<noteq> Private_Command \<lparr>pc_identifier = 0, pc_bytes = []\<rparr>"
  by (rule private_command_never_accepted) (rule parse_section_emit [OF ok_sample])

section \<open>Descriptors\<close>

lemma dtmf_length_differs:
  "unat (word_of_nat (6 + n) :: u8) \<noteq> 5 + unat (drop_bit 5 (word_of_nat (n * 2 ^ 5) AND 0xE0 :: u8))"
proof -
  have e: "(0xE0 :: u8) = push_bit 5 (mask 3)" by (simp add: mask_eq_exp_minus_1)
  have p: "word_of_nat (n * 2 ^ 5) = (push_bit 5 (word_of_nat n) :: u8)"
    by (simp add: push_bit_eq_mult)
  have "drop_bit 5 (word_of_nat (n * 2 ^ 5) AND 0xE0 :: u8) = word_of_nat n AND mask 3"
    unfolding e p by (intro bit_word_eqI) (auto simp: bit_and_iff bit_drop_bit_eq bit_push_bit_iff bit_mask_iff)
  then have d: "drop_bit 5 (word_of_nat (n * 2 ^ 5) AND 0xE0 :: u8) = take_bit 3 (word_of_nat n)"
    by (simp only: take_bit_eq_mask)
  have "unat (take_bit 3 (word_of_nat n :: u8)) = n mod 8"
    unfolding unsigned_take_bit_eq by (simp add: take_bit_eq_mod unat_of_nat mod_mod_cancel)
  then have "unat (drop_bit 5 (word_of_nat (n * 2 ^ 5) AND 0xE0 :: u8)) = n mod 8"
    by (simp only: d)
  moreover have "unat (word_of_nat (6 + n) :: u8) mod 8 = (6 + n) mod 8"
    by (simp add: unat_of_nat mod_mod_cancel del: of_nat_add)
  moreover have "(6 + n) mod 8 \<noteq> (5 + n mod 8) mod 8" by presburger
  ultimately show ?thesis by metis
qed

text \<open>
  No emitted DTMF descriptor is accepted by the parser, whatever its content.
\<close>

theorem dtmf_descriptor_never_read_back:
  "is_error (parse_descriptor im (emit_descriptor (Dtmf_Descriptor d) @ r))"
proof (cases "parse_descriptor im (emit_descriptor (Dtmf_Descriptor d) @ r)")
  case (Inr x)
  with dtmf_length_differs [of "length (dtmf_chars d)"] show ?thesis
    by (auto simp: parse_descriptor_def parse_dtmf_descriptor_def wire descriptor_consts Let_def
        bind_res_Inr_iff simp del: of_nat_add split: if_splits)
qed simp

text \<open>
  A segmentation descriptor with an announced length below four makes the parser build a vector
  from an inverted range.
\<close>

theorem short_segmentation_descriptor_leaves_buffer:
  assumes "n < 4" and "unat n \<le> 4 + length r"
  shows "parse_descriptor im (write_8 segmentation_tag @ write_8 n @ write_32 cue_identifier @ r)
    = Inl Range_Violation"
  using assms
  by (simp add: parse_descriptor_def parse_segmentation_descriptor_def wire descriptor_consts word_less_nat_alt)

theorem short_segmentation_descriptor_leaves_buffer_witness:
  "parse_descriptor sample_impl
     (write_8 segmentation_tag @ write_8 0 @ write_32 cue_identifier @ []) = Inl Range_Violation"
  by (rule short_segmentation_descriptor_leaves_buffer) simp_all

section \<open>Schedules\<close>

text \<open>
  The announced size of a schedule event leaves out the size of its splice part.
\<close>

theorem schedule_event_size_announced_short:
  assumes "ok_ss_event e" and "sse_more e = Some m"
  shows "length (emit_ss_event e) = hint_ss_event e +
    (case ss_splice m of Program_Splice_On _ \<Rightarrow> 4 | Program_Splice_Off cs \<Rightarrow> 1 + 5 * length cs)"
proof -
  have "length (case ss_break_duration m of None \<Rightarrow> [] | Some d \<Rightarrow> emit_break_duration d)
      = (case ss_break_duration m of None \<Rightarrow> 0 | Some d \<Rightarrow> hint_break_duration d)"
    using assms by (intro length_option_put) (auto simp: ok_ss_event_def intro: f_break.length_put)
  moreover have "length (emit_program_splice p) = (case p of Program_Splice_On _ \<Rightarrow> 4 | Program_Splice_Off cs \<Rightarrow> 1 + 5 * length cs)" for p
    using f_ssc.length_concat_put
    by (cases p) (simp_all add: wire list_all_iff sum_list_triv)
  ultimately show ?thesis
    using assms(2) by (simp add: emit_ss_event_def emit_ss_cancel_off_def hint_ss_event_def hint_ss_cancel_off_def wire)
qed

theorem schedule_event_size_announced_short_witness:
  "length (emit_ss_event \<lparr>sse_id = 1, sse_more = Some \<lparr>ss_out_of_network = True,
     ss_splice = Program_Splice_On 5, ss_break_duration = None, ss_unique_program_id = 0,
     ss_avail_num = 0, ss_avails_expected = 0\<rparr>\<rparr>) =
   hint_ss_event \<lparr>sse_id = 1, sse_more = Some \<lparr>ss_out_of_network = True,
     ss_splice = Program_Splice_On 5, ss_break_duration = None, ss_unique_program_id = 0,
     ss_avail_num = 0, ss_avails_expected = 0\<rparr>\<rparr> + 4"
  using schedule_event_size_announced_short [of "\<lparr>sse_id = 1, sse_more = Some \<lparr>ss_out_of_network = True,
     ss_splice = Program_Splice_On 5, ss_break_duration = None, ss_unique_program_id = 0,
     ss_avail_num = 0, ss_avails_expected = 0\<rparr>\<rparr>"]
  by (simp add: ok_ss_event_def)

section \<open>Tier and command length\<close>

text \<open>
  What the parser reads from an emitted pair of tier and command length: the length is right,
  but its upper bits are mixed into the tier, because the shift applies to the mask.
\<close>

theorem tier_and_length_pair:
  "scan_12_high (write_12_pair t n @ r) = Inr ((t AND 0xFFF) OR (drop_bit 4 n AND 0xF)) \<and>
   read_12_low (tl (write_12_pair t n @ r)) = Inr (n AND 0xFF, r)"
  by (simp add: scan_12_high_pair read_12_low_pair)

text \<open>
  Two concrete pairs of tier and command length that are emitted wrongly.
\<close>

theorem tier_pair_loses_data:
  "scan_12_high (write_12_pair 0 0x10) = Inr 1 \<and> read_12_low (tl (write_12_pair 0xFFF 0x100)) = Inr (0, [])"
  using scan_12_high_pair [of 0 "0x10" "[]"] read_12_low_pair [of "0xFFF" "0x100" "[]"] by simp

section \<open>Short input\<close>

text \<open>
  With bytes left that are too few for a section the stream operator dereferences an empty
  result.
\<close>

theorem trailing_bytes_leave_buffer:
  assumes "has_next p" and "bytes_left p < min_sis_length"
  shows "parser_shift im (scte35_parser_next im) (scte35_parser_pack im) p = Inl Range_Violation"
  using assms by (simp add: parser_shift_def parser_next_def scte35_parser_next_def)

theorem trailing_bytes_leave_buffer_witness:
  "parser_shift sample_impl
     (scte35_parser_next sample_impl)
     (scte35_parser_pack sample_impl)
     (parser_create [0xFC, 0x30]) = Inl Range_Violation"
  by (rule trailing_bytes_leave_buffer) (simp_all add: has_next_def bytes_left_def min_sis_length_def)

section \<open>The order of evaluation\<close>

text \<open>
  Whether an emitted time descriptor reads back depends on the order in which the compiler
  evaluates arguments and operands.
\<close>

theorem time_descriptor_order_dependent:
  "parse_descriptor im (emit_descriptor (Time_Descriptor \<lparr>tai_seconds = 1, tai_nanoseconds = 2, utc_offset = 3\<rparr>))
     = Inr (Time_Descriptor \<lparr>tai_seconds = 1, tai_nanoseconds = 2, utc_offset = 3\<rparr>, []) \<longleftrightarrow>
   arguments_left_first im \<and> operands_left_first im"
proof (cases "arguments_left_first im"; cases "operands_left_first im")
  assume a: "arguments_left_first im" "operands_left_first im"
  then show ?thesis
    using f_descriptor.get_put [of im "Time_Descriptor \<lparr>tai_seconds = 1, tai_nanoseconds = 2, utc_offset = 3\<rparr>" "[]"]
    by simp
qed (simp_all add: parse_descriptor_def parse_time_descriptor_def wire descriptor_consts
      write_48_def write_32_def write_16_def read_48_def scan_48_def read_16_def scan_16_def read_32_def scan_32_def
      cue_identifier_def)

end
