(* ===== verification/Scte35_Types.thy ===== *)
theory Scte35_Types
  imports Scte35_Limits
begin

text \<open>
  The types of SCTE-35: the fields of an accepted section are within the widths that the format
  gives them, although the structs hold wider integers, and the optional parts are there exactly
  when the flags say so.
\<close>

section \<open>Widths of what the readers return\<close>

lemma unat_plus_le: "unat (a + b :: 'a::len word) \<le> unat a + unat b"
  by (simp add: unat_word_ariths)

lemma unat_shifted_le: "unat (push_bit n (w :: 'a::len word)) \<le> unat w * 2 ^ n"
  unfolding unsigned_push_bit_eq by (metis push_bit_eq_mult take_bit_nat_less_eq_self)

lemma unat_shifted_byte: "unat (push_bit n (ucast (b :: u8)) :: 'a::len word) \<le> unat b * 2 ^ n"
proof -
  have "unat (ucast b :: 'a word) \<le> unat b" by (simp add: unsigned_ucast_eq take_bit_nat_less_eq_self)
  then show ?thesis using unat_shifted_le [of n "ucast b :: 'a word"] by (meson le_trans mult_le_mono1)
qed

lemma unat_byte: "unat (b :: u8) \<le> 255"
  using unsigned_less [of b, where ?'a = nat] by simp

lemma unat_dropped_byte: "unat (drop_bit n (b :: u8)) \<le> 255 div 2 ^ n"
proof -
  have "unat (drop_bit n b) = unat b div 2 ^ n" by (subst unat_drop_bit_eq) (rule drop_bit_eq_div)
  then show ?thesis using unat_byte [of b] by (simp add: div_le_mono)
qed

lemma read_33_width: "read_33 bs = Inr (v, r) \<Longrightarrow> v < 2 ^ 33"
proof -
  assume "read_33 bs = Inr (v, r)"
  then have v: "v = push_bit 32 (ucast (bs ! 0 AND 1)) + push_bit 24 (ucast (bs ! 1)) +
      push_bit 16 (ucast (bs ! 2)) + push_bit 8 (ucast (bs ! 3)) + ucast (bs ! 4)"
    by (auto simp: read_33_def scan_33_def bind_res_Inr_iff)
  have "bs ! 0 AND 1 < 2 ^ 1" using and_mask_less [of 1 "bs ! 0"] by (simp add: mask_eq_exp_minus_1)
  then have "unat (bs ! 0 AND 1) \<le> 1" by (simp add: word_less_nat_alt del: and_one_eq)
  moreover have "unat v \<le> unat (bs ! 0 AND 1) * 2 ^ 32 + unat (bs ! 1) * 2 ^ 24 + unat (bs ! 2) * 2 ^ 16 +
      unat (bs ! 3) * 2 ^ 8 + unat (bs ! 4) * 2 ^ 0"
    unfolding v by (intro order_trans [OF unat_plus_le] add_mono unat_shifted_byte)
      (use unat_shifted_byte [of 0 "bs ! 4", where ?'a = 64] in simp)
  ultimately have "unat v < 2 ^ 33" using unat_byte [of "bs ! 1"] unat_byte [of "bs ! 2"] unat_byte [of "bs ! 3"] unat_byte [of "bs ! 4"]
    by simp
  then show ?thesis by (simp add: word_less_nat_alt)
qed

lemma scan_12_high_width: "scan_12_high bs = Inr v \<Longrightarrow> v < 2 ^ 12"
proof -
  assume "scan_12_high bs = Inr v"
  then have v: "v = push_bit 4 (ucast (bs ! 0)) + ucast (drop_bit 4 (bs ! 1 AND 0xF0))"
    by (auto simp: scan_12_high_def bind_res_Inr_iff)
  have "unat (drop_bit 4 (bs ! 1 AND 0xF0)) \<le> 15" using unat_dropped_byte [of 4 "bs ! 1 AND 0xF0"] by simp
  moreover have "unat v \<le> unat (bs ! 0) * 2 ^ 4 + unat (drop_bit 4 (bs ! 1 AND 0xF0)) * 2 ^ 0"
    unfolding v by (intro order_trans [OF unat_plus_le] add_mono unat_shifted_byte)
      (use unat_shifted_byte [of 0 "drop_bit 4 (bs ! 1 AND 0xF0)", where ?'a = 16] in simp)
  ultimately have "unat v < 2 ^ 12" using unat_byte [of "bs ! 0"] by simp
  then show ?thesis by (simp add: word_less_nat_alt)
qed

lemma read_48_width: "read_48 im bs = Inr (v, r) \<Longrightarrow> v < 2 ^ 48"
proof -
  assume "read_48 im bs = Inr (v, r)"
  then obtain h :: u16 and l :: u32 where v: "v = push_bit 32 (ucast h) + ucast l"
    by (auto simp: read_48_def scan_48_def bind_res_Inr_iff split: if_splits)
  have "unat (ucast h :: u64) < 2 ^ 16" "unat (ucast l :: u64) < 2 ^ 32"
    using unsigned_less [of h, where ?'a = nat] unsigned_less [of l, where ?'a = nat] by (auto simp: unsigned_ucast_eq intro: le_less_trans [OF take_bit_nat_less_eq_self])
  moreover have "unat v \<le> unat (ucast h :: u64) * 2 ^ 32 + unat (ucast l :: u64)"
    unfolding v by (intro order_trans [OF unat_plus_le] add_mono unat_shifted_le order_refl)
  ultimately have "unat v < 2 ^ 48" by simp
  then show ?thesis by (simp add: word_less_nat_alt)
qed

lemma read_many_Inr:
  assumes "read_many n get bs = Inr (xs, r)" and "\<And>bs x r. get bs = Inr (x, r) \<Longrightarrow> P x"
  shows "length xs = n \<and> list_all P xs"
  using assms(1)
proof (induction n arbitrary: bs xs)
  case (Suc n)
  then show ?case by (auto simp: bind_res_Inr_iff dest: assms(2))
qed simp

lemma read_if_Inr:
  assumes "read_if c get bs = Inr (x, r)" and "\<And>bs x r. get bs = Inr (x, r) \<Longrightarrow> P x"
  shows "(x \<noteq> None \<longleftrightarrow> c) \<and> pred_option P x"
  using assms(1) by (auto simp: read_if_def bind_res_Inr_iff split: if_splits dest: assms(2))

section \<open>Commands\<close>

lemma parse_splice_time_ok: "parse_splice_time bs = Inr (t, r) \<Longrightarrow> ok_splice_time t"
  by (auto simp: parse_splice_time_def ok_splice_time_def bind_res_Inr_iff split: if_splits dest: read_33_width)

lemma parse_break_duration_ok: "parse_break_duration bs = Inr (d, r) \<Longrightarrow> ok_break_duration d"
  by (auto simp: parse_break_duration_def ok_break_duration_def bind_res_Inr_iff dest: read_33_width)

lemma count_of_byte: "(1 :: u8) \<le> n \<Longrightarrow> 1 \<le> unat n \<and> unat n \<le> 255"
  using unat_byte [of n] by (simp add: word_le_nat_alt)

lemma parse_program_splice_ok: "parse_program_splice c bs = Inr (p, r) \<Longrightarrow> ok_program_splice p"
  by (auto simp: parse_program_splice_def bind_res_Inr_iff split: if_splits
      dest!: count_of_byte dest: read_many_Inr [where P = "\<lambda>_. True"])

lemma parse_ss_event_ok: "parse_ss_event bs = Inr (e, r) \<Longrightarrow> ok_ss_event e"
  unfolding parse_ss_event_def
  by (auto simp: bind_res_Inr_iff ok_ss_event_def split: if_splits
      dest: parse_program_splice_ok read_if_Inr [where P = ok_break_duration, OF _ parse_break_duration_ok])

lemma parse_splice_schedule_ok: "parse_splice_schedule bs = Inr (c, r) \<Longrightarrow> ok_splice_schedule c"
  using unat_byte
  by (auto simp: parse_splice_schedule_def ok_splice_schedule_def bind_res_Inr_iff
      dest!: read_many_Inr [where P = ok_ss_event, OF _ parse_ss_event_ok])

lemma parse_si_component_ok: "parse_si_component imm bs = Inr (c, r) \<Longrightarrow> ok_si_component imm c"
  by (auto simp: parse_si_component_def ok_si_component_def bind_res_Inr_iff
      dest!: read_if_Inr [where P = ok_splice_time, OF _ parse_splice_time_ok])

lemma parse_si_components_ok: "parse_si_components imm bs = Inr (cs, r) \<Longrightarrow> ok_si_components imm cs"
  by (auto simp: parse_si_components_def ok_si_components_def bind_res_Inr_iff
      dest!: count_of_byte read_many_Inr [where P = "ok_si_component imm", OF _ parse_si_component_ok])

lemmas optional_parts =
  read_if_Inr [where P = ok_break_duration, OF _ parse_break_duration_ok]
  read_if_Inr [where P = ok_splice_time, OF _ parse_splice_time_ok]
  read_if_Inr [where P = "ok_si_components imm" for imm, OF _ parse_si_components_ok]

lemma parse_splice_insert_ok: "parse_splice_insert bs = Inr (c, r) \<Longrightarrow> ok_splice_insert c"
  unfolding parse_splice_insert_def
  by (auto simp: bind_res_Inr_iff ok_splice_insert_def ok_si_cancel_off_def split: if_splits dest!: optional_parts)

lemma parse_command_ok:
  assumes "parse_command t n bs = Inr (c, r)" and "\<And>p. c \<noteq> Private_Command p"
  shows "ok_command c"
  using assms
  by (auto simp: parse_command_def parse_time_signal_def ok_time_signal_def bind_res_Inr_iff parse_fail_def split: if_splits
      dest: parse_splice_schedule_ok parse_splice_insert_ok parse_splice_time_ok)

section \<open>Descriptors\<close>

fun typed_descriptor :: "descriptor \<Rightarrow> bool" where
  "typed_descriptor (Avail_Descriptor d) = True"
| "typed_descriptor (Dtmf_Descriptor d) \<longleftrightarrow> length (dtmf_chars d) \<le> 7"
| "typed_descriptor (Segmentation_Descriptor d) \<longleftrightarrow> length (seg_data d) \<le> 251"
| "typed_descriptor (Time_Descriptor d) \<longleftrightarrow> tai_seconds d < 2 ^ 48"

lemma dtmf_count_le: "unat (drop_bit 5 (b :: u8)) \<le> 7"
  using unat_dropped_byte [of 5 b] by simp

lemma parse_descriptor_typed: "parse_descriptor im bs = Inr (d, r) \<Longrightarrow> typed_descriptor d"
proof -
  have dtmf: "length (dtmf_chars d) \<le> 7" if "parse_dtmf_descriptor t l i bs = Inr (d, r)" for t l i bs d r
    using that dtmf_count_le
    by (fastforce simp: parse_dtmf_descriptor_def bind_res_Inr_iff Let_def)
  have seg: "length (seg_data d) \<le> 251" if "parse_segmentation_descriptor t l i bs = Inr (d, r)" for t l i bs d r
    using that unat_byte [of l]
    by (auto simp: parse_segmentation_descriptor_def bind_res_Inr_iff Let_def split: if_splits)
  have time: "tai_seconds d < 2 ^ 48" if "parse_time_descriptor im t l i bs = Inr (d, r)" for t l i bs d r
    using that by (auto simp: parse_time_descriptor_def bind_res_Inr_iff split: if_splits dest: read_48_width)
  show "parse_descriptor im bs = Inr (d, r) \<Longrightarrow> typed_descriptor d"
    by (auto simp: parse_descriptor_def bind_res_Inr_iff parse_fail_def split: if_splits dest: dtmf seg time)
qed

lemma parse_descriptor_loop_typed: "parse_descriptor_loop im bs = Inr ds \<Longrightarrow> list_all typed_descriptor ds"
proof (induction im bs arbitrary: ds rule: parse_descriptor_loop.induct)
  case (1 im bs)
  show ?case
  proof (cases "bs = []")
    case True
    with "1.prems" show ?thesis by (simp add: parse_descriptor_loop.simps)
  next
    case False
    with "1.prems" obtain d bs' ds' where p: "parse_descriptor im bs = Inr (d, bs')" "parse_descriptor_loop im bs' = Inr ds'"
      and ds: "ds = d # ds'"
      by (subst (asm) parse_descriptor_loop.simps) (auto simp: bind_res_Inr_iff)
    from "1.IH" [OF False p(1) refl p(2)] parse_descriptor_typed [OF p(1)] ds show ?thesis by simp
  qed
qed

section \<open>Sections\<close>

lemma parse_section_numbers:
  assumes "parse_section im bs = Inr s"
  shows "\<exists>b r. read_33 b = Inr (pts_adjustment s, r)" and "\<exists>b. scan_12_high b = Inr (tier s)"
    and "descriptors s = [] \<or> (\<exists>b. parse_descriptor_loop im b = Inr (descriptors s))"
proof -
  from assms show "\<exists>b r. read_33 b = Inr (pts_adjustment s, r)"
    unfolding parse_section_def Let_def
    apply (elim bind_res_tripleE bind_res_pairE bind_resE fail_ifE)
    apply (drule sum.inject(2) [THEN iffD1])
    apply hypsubst
    apply (simp only: splice_info_section.simps)
    apply (intro exI, assumption)
    done
  from assms show "\<exists>b. scan_12_high b = Inr (tier s)"
    unfolding parse_section_def Let_def
    apply (elim bind_res_tripleE bind_res_pairE bind_resE fail_ifE)
    apply (drule sum.inject(2) [THEN iffD1])
    apply hypsubst
    apply (simp only: splice_info_section.simps)
    apply (intro exI, assumption)
    done
  from assms show "descriptors s = [] \<or> (\<exists>b. parse_descriptor_loop im b = Inr (descriptors s))"
    unfolding parse_section_def Let_def parse_descriptors_def
    apply (elim bind_res_tripleE bind_res_pairE bind_resE fail_ifE)
    apply (drule sum.inject(2) [THEN iffD1])
    apply hypsubst
    apply (simp only: splice_info_section.simps)
    apply (split if_split_asm)
     apply (elim bind_resE)
     apply (auto simp: bind_res_Inr_iff)
    done
qed

lemma accepted_section_typed:
  assumes "parse_section im bs = Inr s"
  shows "\<not> encrypted_packet s \<and> encryption_algorithm s < 2 ^ 6 \<and> pts_adjustment s < 2 ^ 33 \<and> tier s < 2 ^ 12 \<and>
    ok_command (command s) \<and> list_all typed_descriptor (descriptors s)"
proof -
  from parse_section_numbers [OF assms] have "pts_adjustment s < 2 ^ 33" "tier s < 2 ^ 12"
    "list_all typed_descriptor (descriptors s)"
    using read_33_width scan_12_high_width parse_descriptor_loop_typed by fastforce+
  moreover obtain t n b r where c: "parse_command t n b = Inr (command s, r)"
      "n = 0xFFF \<or> (word_of_nat (length b - length r) :: u16) = n"
    using parse_section_parts(4) [OF assms] by blast
  have "ok_command (command s)"
  proof (rule parse_command_ok [OF c(1)])
    fix p show "command s \<noteq> Private_Command p" using parse_command_private [of t n b p r] c by auto
  qed
  ultimately show ?thesis using parse_section_invariant(1,2) [OF assms] by simp
qed

text \<open>
  C13: Every section that the parser accepts is within the widths of the format: six bits of
  algorithm, 33 bits of adjustment, times and durations, 12 bits of tier, one to 255 components,
  at most seven DTMF characters, 48 bits of seconds, optional parts exactly where the flags say
  so, and no private command.
\<close>

theorem accepted_section_well_typed:
  assumes "parse_section im bs = Inr s"
  shows "\<not> encrypted_packet s \<and> encryption_algorithm s < 2 ^ 6 \<and> pts_adjustment s < 2 ^ 33 \<and> tier s < 2 ^ 12 \<and>
    ok_command (command s) \<and> list_all typed_descriptor (descriptors s)"
  by (rule accepted_section_typed [OF assms])

theorem accepted_section_well_typed_witness:
  "tier sample_section < 2 ^ 12 \<and> ok_command (command sample_section)"
  using accepted_section_well_typed [OF parse_section_emit [OF ok_sample]] by blast

text \<open>What the parser accepts is, but for a few exceptions, what the emitter can write.\<close>

definition no_dtmf :: "splice_info_section \<Rightarrow> bool" where
  "no_dtmf s \<longleftrightarrow> list_all (\<lambda>d. case d of Dtmf_Descriptor _ \<Rightarrow> False | _ \<Rightarrow> True) (descriptors s)"

lemma accepted_section_ok:
  assumes "parse_section im bs = Inr s" and "operands_left_first im" and "arguments_left_first im" and "no_dtmf s"
    and "tier s = 0xFFF" and "sized_command (command s)" and "hint_command (command s) \<le> 255"
    and "compute_section_length s \<le> 4093"
  shows "ok_section im s"
proof -
  have "list_all (ok_descriptor im) (descriptors s)"
    using accepted_section_typed [OF assms(1)] assms(2-4)
    by (auto simp: no_dtmf_def list_all_iff split: descriptor.splits)
      (metis ok_descriptor.elims(3) typed_descriptor.simps)
  moreover have "(0xFFF :: u16) AND 0xFFF OR (w AND 0xF) = 0xFFF" for w
  proof -
    have m: "(0xFFF :: u16) = mask 12" "(0xF :: u16) = mask 4" by (simp_all add: mask_eq_exp_minus_1)
    show ?thesis unfolding m by (rule bit_word_eqI) (auto simp: bit_simps)
  qed
  ultimately show ?thesis using assms accepted_section_typed [OF assms(1)] by (simp add: ok_section_def)
qed



end
