(* ===== verification/Ebsp.thy ===== *)
theory Ebsp
  imports Prelude
begin

text \<open>
  The H.264 emulation prevention of \<^verbatim>\<open>src/h264/rbsp.h\<close>: payloads (SODB), payloads with
  their stop bit (RBSP), and the escaped form on the wire (EBSP).  The two directions, the count
  that size computations use, and how far they fit together.
\<close>

section \<open>Unescaping\<close>

text \<open>\<^verbatim>\<open>std::copy\<close> to a back inserter appends; the model returns what is appended.\<close>

fun drop_zeros_back :: "u8 list \<Rightarrow> u8 list result" where
  "drop_zeros_back bs =
     (if bs = [] then Inl Range_Violation
      else if last bs = 0 then drop_zeros_back (butlast bs)
      else Inr bs)"

declare drop_zeros_back.simps [simp del]

text \<open>The main loop; \<open>a\<close> and \<open>b\<close> are \<^verbatim>\<open>first[-2]\<close> and \<^verbatim>\<open>first[-1]\<close>.\<close>

fun unescape :: "u8 \<Rightarrow> u8 \<Rightarrow> u8 list \<Rightarrow> u8 list" where
  "unescape a b [] = []"
| "unescape a b (x # xs) =
     (if a = 0 \<and> b = 0 \<and> x = 3 then unescape b x xs else x # unescape b x xs)"

definition copy_from_ebsp_impl :: "bool \<Rightarrow> u8 list \<Rightarrow> u8 list result" where
  "copy_from_ebsp_impl DropStopBit bs =
     (if bs = [] then Inr []
      else bind_res
        (if DropStopBit then
           bind_res (drop_zeros_back bs) (\<lambda>bs.
           if last bs \<noteq> 0x80 then Inl (Runtime_Error ''malformed RBSP payload, missing stop bit'')
           else Inr (butlast bs))
         else Inr bs)
        (\<lambda>bs. if length bs \<le> 2 then Inr bs
          else Inr (take 2 bs @ unescape (bs ! 0) (bs ! 1) (drop 2 bs))))"

section \<open>Escaping\<close>

fun escape :: "u8 \<Rightarrow> u8 \<Rightarrow> u8 list \<Rightarrow> u8 list" where
  "escape a b [] = []"
| "escape a b (x # xs) =
     (if a = 0 \<and> b = 0 \<and> x \<le> 3 then 3 # x # escape b x xs else x # escape b x xs)"

definition copy_to_ebsp_impl :: "bool \<Rightarrow> u8 list \<Rightarrow> u8 list" where
  "copy_to_ebsp_impl AddStopBit bs =
     (if bs = [] then []
      else (if length bs \<le> 2 then bs
            else take 2 bs @ escape (bs ! 0) (bs ! 1) (drop 2 bs)) @
           (if AddStopBit then [0x80] else []))"

fun count_window :: "u8 \<Rightarrow> u8 \<Rightarrow> u8 list \<Rightarrow> u32" where
  "count_window a b [] = 0"
| "count_window a b (x # xs) = (if a = 0 \<and> b = 0 \<and> x = 3 then 1 else 0) + count_window b x xs"

definition count_emulation_prevention_bytes :: "u8 list \<Rightarrow> u32" where
  "count_emulation_prevention_bytes bs =
     (if length bs \<le> 2 then 0 else count_window (bs ! 0) (bs ! 1) (drop 2 bs))"

definition copy_ebsp_to_rbsp :: "u8 list \<Rightarrow> u8 list result" where
  "copy_ebsp_to_rbsp = copy_from_ebsp_impl False"

definition copy_ebsp_to_sodb :: "u8 list \<Rightarrow> u8 list result" where
  "copy_ebsp_to_sodb = copy_from_ebsp_impl True"

definition copy_rbsp_to_ebsp :: "u8 list \<Rightarrow> u8 list" where
  "copy_rbsp_to_ebsp = copy_to_ebsp_impl False"

definition copy_sodb_to_ebsp :: "u8 list \<Rightarrow> u8 list" where
  "copy_sodb_to_ebsp = copy_to_ebsp_impl True"

lemmas ebsp_defs = copy_ebsp_to_rbsp_def copy_ebsp_to_sodb_def copy_rbsp_to_ebsp_def
  copy_sodb_to_ebsp_def copy_from_ebsp_impl_def copy_to_ebsp_impl_def

lemma drop_zeros_back_snoc [simp]:
  "drop_zeros_back (bs @ [x]) = (if x = 0 then drop_zeros_back bs else Inr (bs @ [x]))"
  by (subst drop_zeros_back.simps) simp

lemma drop_zeros_back_zeros: "drop_zeros_back (bs @ replicate n 0) = drop_zeros_back bs"
proof (induction n)
  case (Suc n)
  have "bs @ replicate (Suc n) 0 = (bs @ replicate n 0) @ [0 :: u8]"
    by (simp add: replicate_append_same)
  with Suc show ?case by (metis drop_zeros_back_snoc)
qed simp

section \<open>Where the two directions meet\<close>

text \<open>
  The escaper looks at the bytes of its source, not at those it has written, so after an inserted
  \<open>03\<close> it still sees the zeros before it.  A run of three zeros before a byte up to \<open>03\<close> is
  escaped twice, which no decoder undoes.
\<close>

fun zero_run :: "u8 list \<Rightarrow> bool" where
  "zero_run (a # b # c # y # r) \<longleftrightarrow> a = 0 \<and> b = 0 \<and> c = 0 \<and> y \<le> 3 \<or> zero_run (b # c # y # r)"
| "zero_run _ = False"

lemma zero_run_tl: "zero_run (b # r) \<Longrightarrow> zero_run (a # b # r)"
  by (cases "(a # b # r)" rule: zero_run.cases) auto

lemma unescape_escape:
  "(\<not> zero_run (a # b # xs) \<longrightarrow> unescape a b (escape a b xs) = xs) \<and>
   (\<not> zero_run (0 # 0 # b # xs) \<longrightarrow> unescape 3 b (escape 0 b xs) = xs)"
proof (induction xs arbitrary: a b)
  case Nil
  then show ?case by simp
next
  case (Cons x xs)
  have 1: "\<not> zero_run (b # x # xs)" if "\<not> zero_run (a # b # x # xs)" for a b
    using that zero_run_tl [of b "x # xs" a] by blast
  have 3: "\<not> zero_run (0 # 0 # x # xs)" if "\<not> zero_run (0 # 0 # 0 # x # xs)"
    using that by (metis zero_run_tl)
  show ?case
  proof (intro conjI impI)
    assume nz: "\<not> zero_run (a # b # x # xs)"
    show "unescape a b (escape a b (x # xs)) = x # xs"
    proof (cases "a = 0 \<and> b = 0 \<and> x \<le> 3")
      case True
      with nz Cons.IH [of 0 x] show ?thesis by auto
    next
      case False
      with nz 1 Cons.IH [of b x] show ?thesis by auto
    qed
  next
    assume nz: "\<not> zero_run (0 # 0 # b # x # xs)"
    then have n: "\<not> (b = 0 \<and> x \<le> 3)" by auto
    from nz have "\<not> zero_run (b # x # xs)" by (metis zero_run_tl)
    with n Cons.IH [of b x] show "unescape 3 b (escape 0 b (x # xs)) = x # xs" by auto
  qed
qed

lemma escape_grows:
  "length xs \<le> length (unescape a b (escape a b xs)) \<and>
   length xs \<le> length (unescape 3 b (escape 0 b xs)) \<and>
   (zero_run (a # b # xs) \<longrightarrow> length xs < length (unescape a b (escape a b xs))) \<and>
   (zero_run (0 # 0 # b # xs) \<longrightarrow> length xs < length (unescape 3 b (escape 0 b xs)))"
proof (induction xs arbitrary: a b)
  case Nil
  then show ?case by simp
next
  case (Cons x xs)
  note ih0 = Cons.IH [of 0 x] and ihb = Cons.IH [of b x]
  have z: "zero_run (a # b # x # xs) \<Longrightarrow> zero_run (b # x # xs) \<or> (a = 0 \<and> b = 0 \<and> x = 0 \<and> zero_run (0 # 0 # 0 # xs))"
    for a b by (cases xs) auto
  show ?case
  proof (intro conjI impI)
    show "length (x # xs) \<le> length (unescape a b (escape a b (x # xs)))"
      using ih0 ihb by auto
    show "length (x # xs) \<le> length (unescape 3 b (escape 0 b (x # xs)))"
      using ih0 ihb by auto
  next
    assume zr: "zero_run (a # b # x # xs)"
    show "length (x # xs) < length (unescape a b (escape a b (x # xs)))"
    proof (cases "a = 0 \<and> b = 0 \<and> x \<le> 3")
      case True
      with zr have "zero_run (0 # 0 # x # xs)" by simp
      with True ih0 show ?thesis by auto
    next
      case False
      with z [OF zr] have "zero_run (b # x # xs)" by auto
      with False ihb show ?thesis by auto
    qed
  next
    assume zr: "zero_run (0 # 0 # b # x # xs)"
    show "length (x # xs) < length (unescape 3 b (escape 0 b (x # xs)))"
    proof (cases "b = 0 \<and> x \<le> 3")
      case True
      with ih0 show ?thesis by auto
    next
      case False
      with zr have "zero_run (0 # b # x # xs)" by auto
      with False z [of 0 b] have "zero_run (b # x # xs)" by auto
      with False ihb show ?thesis by auto
    qed
  qed
qed

lemma copy_to_shapes:
  "copy_sodb_to_ebsp [] = []" "copy_sodb_to_ebsp [a] = [a, 0x80]"
  "copy_sodb_to_ebsp (a # b # xs) = a # b # escape a b xs @ [0x80]"
  by (cases xs; simp add: ebsp_defs)+

lemma copy_from_shapes:
  "copy_ebsp_to_sodb [] = Inr []"
  "copy_ebsp_to_sodb ([a, 0x80] @ replicate n 0) = Inr [a]"
  "copy_ebsp_to_sodb ((a # b # xs @ [0x80]) @ replicate n 0) = Inr (a # b # unescape a b xs)"
proof -
  have d: "drop_zeros_back ((e @ [0x80]) @ replicate n 0) = Inr (e @ [0x80])" for e
    by (simp only: drop_zeros_back_zeros drop_zeros_back_snoc) simp
  show "copy_ebsp_to_sodb [] = Inr []" by (simp add: ebsp_defs)
  show "copy_ebsp_to_sodb ([a, 0x80] @ replicate n 0) = Inr [a]"
    using d [of "[a]"] by (simp add: ebsp_defs)
  show "copy_ebsp_to_sodb ((a # b # xs @ [0x80]) @ replicate n 0) = Inr (a # b # unescape a b xs)"
    using d [of "a # b # xs"] by (cases xs) (simp_all add: ebsp_defs)
qed

lemma copy_from_to:
  "copy_ebsp_to_sodb (copy_sodb_to_ebsp (a # b # xs)) = Inr (a # b # unescape a b (escape a b xs))"
  using copy_from_shapes(3) [of a b "escape a b xs" 0] by (simp add: copy_to_shapes)

text \<open>
  C35: Unescaping an escaped payload gives the payload back exactly when the payload has no
  three zero bytes before a byte of at most 3: the escaper looks at its input, not at its
  output, so in longer runs it inserts two bytes where one is needed.
\<close>

theorem ebsp_roundtrip_iff:
  "copy_ebsp_to_sodb (copy_sodb_to_ebsp bs) = Inr bs \<longleftrightarrow> \<not> zero_run bs"
proof (cases bs rule: list.exhaust [case_names Nil Cons])
  case Nil
  then show ?thesis by (simp add: copy_to_shapes copy_from_shapes)
next
  case (Cons a t)
  show ?thesis
  proof (cases t)
    case Nil
    with Cons show ?thesis using copy_from_shapes(2) [of a 0] by (simp add: copy_to_shapes)
  next
    case t: (Cons b xs)
    have "unescape a b (escape a b xs) = xs \<longleftrightarrow> \<not> zero_run (a # b # xs)"
      using unescape_escape [of a b xs] escape_grows [of xs a b] by auto
    with Cons t show ?thesis by (simp add: copy_from_to)
  qed
qed

section \<open>What is on the wire\<close>

fun start_code_free :: "u8 list \<Rightarrow> bool" where
  "start_code_free (a # b # c # r) \<longleftrightarrow> \<not> (a = 0 \<and> b = 0 \<and> c \<le> 2) \<and> start_code_free (b # c # r)"
| "start_code_free _ = True"

lemma start_code_free_escape:
  "start_code_free (a # b # escape a b xs @ [0x80]) \<and>
   start_code_free (3 # b # escape 0 b xs @ [0x80])"
proof (induction xs arbitrary: a b)
  case Nil
  then show ?case by simp
next
  case (Cons x xs)
  from Cons.IH [of 0 x] Cons.IH [of b x] show ?case
    by (auto simp: word_le_nat_alt)
qed

text \<open>
  Escaped payloads never contain a start code or a sequence reserved for it.
\<close>

theorem ebsp_free_of_start_codes: "start_code_free (copy_sodb_to_ebsp bs)"
proof (cases bs)
  case (Cons a t)
  show ?thesis
  proof (cases t)
    case Nil
    with Cons show ?thesis by (simp add: copy_to_shapes)
  next
    case t: (Cons b xs)
    show ?thesis
      unfolding Cons t copy_to_shapes using start_code_free_escape by blast
  qed
qed (simp add: copy_to_shapes)

section \<open>Stop bits\<close>

text \<open>
  Zero bytes behind a NALU's payload do not change what is extracted.
\<close>

theorem sodb_ignores_trailing_zeros:
  "bs \<noteq> [] \<Longrightarrow> copy_ebsp_to_sodb (bs @ replicate n 0) = copy_ebsp_to_sodb bs"
  by (simp add: ebsp_defs drop_zeros_back_zeros)

theorem sodb_ignores_trailing_zeros_witness:
  "copy_ebsp_to_sodb ([6, 1, 0x80] @ replicate 2 0) = copy_ebsp_to_sodb [6, 1, 0x80]"
  by (rule sodb_ignores_trailing_zeros) simp

lemma drop_zeros_back_split:
  "(\<exists>n. bs = replicate n 0 \<and> drop_zeros_back bs = Inl Range_Violation) \<or>
   (\<exists>p x n. bs = p @ [x] @ replicate n 0 \<and> x \<noteq> 0 \<and> drop_zeros_back bs = Inr (p @ [x]))"
proof (induction bs rule: rev_induct)
  case Nil
  show ?case by (rule disjI1, rule exI [of _ 0]) (simp add: drop_zeros_back.simps)
next
  case (snoc x bs)
  show ?case
  proof (cases "x = 0")
    case False
    then show ?thesis by (intro disjI2 exI [of _ bs] exI [of _ x] exI [of _ 0]) simp
  next
    case True
    from snoc.IH show ?thesis
    proof (elim disjE exE conjE)
      fix n assume "bs = replicate n 0" "drop_zeros_back bs = Inl Range_Violation"
      with True show ?thesis
        by (intro disjI1 exI [of _ "Suc n"])
          (metis drop_zeros_back_snoc replicate_Suc replicate_append_same)
    next
      fix p y n assume "bs = p @ [y] @ replicate n 0" "y \<noteq> 0" "drop_zeros_back bs = Inr (p @ [y])"
      moreover have "bs @ [x] = p @ [y] @ replicate (Suc n) 0"
        using True calculation by (simp add: replicate_append_same)
      moreover have "drop_zeros_back (bs @ [x]) = drop_zeros_back bs"
        using True by simp
      ultimately show ?thesis by metis
    qed
  qed
qed

text \<open>
  Every outcome of the payload extraction: nothing from nothing, an access before the start when
  all bytes are zero, the runtime error when the last non-zero byte is not the stop byte, and the
  unescaped bytes before the stop byte otherwise.
\<close>

lemma copy_ebsp_to_sodb_cases:
  obtains (empty) "bs = []" "copy_ebsp_to_sodb bs = Inr []"
  | (zeros) n where "bs = replicate (Suc n) 0" "copy_ebsp_to_sodb bs = Inl Range_Violation"
  | (missing) p x n where "bs = p @ [x] @ replicate n 0" "x \<noteq> 0" "x \<noteq> 0x80"
      "copy_ebsp_to_sodb bs = Inl (Runtime_Error ''malformed RBSP payload, missing stop bit'')"
  | (payload) p n where "bs = p @ [0x80] @ replicate n 0" "copy_ebsp_to_sodb bs = copy_ebsp_to_rbsp p"
proof (cases "bs = []")
  case True
  then show ?thesis using empty by (simp add: copy_from_shapes)
next
  case False
  consider n where "bs = replicate n 0" "drop_zeros_back bs = Inl Range_Violation"
    | p x n where "bs = p @ [x] @ replicate n 0" "x \<noteq> 0" "drop_zeros_back bs = Inr (p @ [x])"
    using drop_zeros_back_split by blast
  then show ?thesis
  proof cases
    case 1
    with False obtain m where "n = Suc m" by (cases n) auto
    with 1 show ?thesis using zeros [of m] False by (simp add: ebsp_defs)
  next
    case 2
    show ?thesis
    proof (cases "x = 0x80")
      case True
      with 2 show ?thesis using payload [of p n] False by (auto simp: ebsp_defs)
    next
      case x: False
      with 2 show ?thesis using missing [of p x n] False by (simp add: ebsp_defs)
    qed
  qed
qed

text \<open>
  The search for the stop byte leaves its range exactly on non-empty input that is all zeros.
\<close>

theorem sodb_range_violation_iff:
  "copy_ebsp_to_sodb bs = Inl Range_Violation \<longleftrightarrow> set bs = {0}"
proof (cases rule: copy_ebsp_to_sodb_cases [of bs])
  case (payload p n)
  then have "0x80 \<in> set bs" by simp
  moreover have "copy_ebsp_to_rbsp p \<noteq> Inl Range_Violation" by (simp add: ebsp_defs)
  ultimately show ?thesis using payload(2) by auto
qed auto

section \<open>Sizes\<close>

lemma count_window_inserted:
  "length xs < 2 ^ 32 \<Longrightarrow> unat (count_window a b xs) \<le> length xs \<and>
     length xs + unat (count_window a b xs) \<le> length (escape a b xs) \<and>
     (length xs + unat (count_window a b xs) = length (escape a b xs) \<longleftrightarrow> start_code_free (a # b # xs))"
proof (induction xs arbitrary: a b)
  case Nil
  then show ?case by simp
next
  case (Cons x xs)
  from Cons.prems have l: "length xs < 2 ^ 32" "length xs + 1 < 2 ^ 32" by simp_all
  note ih = Cons.IH [OF l(1), of b x]
  then have "unat (count_window b x xs) + 1 < 2 ^ 32" using l by simp
  then have s: "unat (1 + count_window b x xs) = 1 + unat (count_window b x xs)"
    by (subst unat_add_lem [THEN iffD1]) simp_all
  have c: "x = 3 \<or> x \<le> 2 \<or> \<not> x \<le> 3" for x :: u8
  proof -
    have "x = 3 \<longleftrightarrow> unat x = 3" by (auto simp: word_unat_eq_iff)
    then show ?thesis by (simp add: word_le_nat_alt) arith
  qed
  have n: "\<not> (3 :: u8) \<le> 2" "(3 :: u8) \<le> 3" "\<And>x. x \<le> 2 \<Longrightarrow> x \<le> (3 :: u8)" "\<And>x. x \<le> (2 :: u8) \<Longrightarrow> x \<noteq> 3"
    by (auto simp: word_le_nat_alt)
  show ?case
  proof (cases "a = 0 \<and> b = 0")
    case False
    with ih show ?thesis by auto
  next
    case True
    from c [of x] show ?thesis
    proof (elim disjE)
      assume "x = 3"
      with True ih s show ?thesis by (simp add: n)
    next
      assume "x \<le> 2"
      with True ih n(3,4) [of x] show ?thesis by simp
    next
      assume "\<not> x \<le> 3"
      with True ih n show ?thesis by auto
    qed
  qed
qed

lemma length_copy_sodb_iff:
  assumes "bs \<noteq> []" and "length bs < 2 ^ 32"
  shows "length (copy_sodb_to_ebsp bs) = length bs + unat (count_emulation_prevention_bytes bs) + 1
    \<longleftrightarrow> start_code_free bs"
proof (cases bs)
  case Nil
  with assms show ?thesis by simp
next
  case (Cons a t)
  show ?thesis
  proof (cases t)
    case Nil
    with Cons show ?thesis by (simp add: copy_to_shapes count_emulation_prevention_bytes_def)
  next
    case t: (Cons b xs)
    have "count_emulation_prevention_bytes bs = count_window a b xs"
      by (cases xs) (simp_all add: count_emulation_prevention_bytes_def Cons t)
    with Cons t assms count_window_inserted [of xs a b] show ?thesis
      by (auto simp: copy_to_shapes)
  qed
qed

lemma start_code_free_no_run: "start_code_free bs \<Longrightarrow> \<not> zero_run bs"
  by (induction bs rule: zero_run.induct) auto

text \<open>
  The number of bytes announced for an escaped payload is right exactly when the payload has no
  two zero bytes before a byte of at most 2: the counter only looks for the byte 3.
\<close>

theorem counted_bytes_are_inserted_bytes_iff:
  assumes "bs \<noteq> []" and "length bs < 2 ^ 32"
  shows "length (copy_sodb_to_ebsp bs) = length bs + unat (count_emulation_prevention_bytes bs) + 1
    \<longleftrightarrow> start_code_free bs"
  using assms by (rule length_copy_sodb_iff)

theorem counted_bytes_are_inserted_bytes_iff_witness:
  "length (copy_sodb_to_ebsp [1, 0, 0, 1, 5]) \<noteq> 5 + unat (count_emulation_prevention_bytes [1, 0, 0, 1, 5]) + 1"
  using counted_bytes_are_inserted_bytes_iff [of "[1, 0, 0, 1, 5]"] by simp

end
