(* ===== verification/Nalu.thy ===== *)
theory Nalu
  imports Byte_Cursor Packet_Parser
begin

text \<open>
  NAL units: access to the slices of \<^verbatim>\<open>src/slice.h\<close>, the NALU types of
  \<^verbatim>\<open>src/h264/nalu.h\<close> and \<^verbatim>\<open>nalu.cpp\<close>, the AVCC framing of
  \<^verbatim>\<open>nalu_parser.cpp\<close> with \<^verbatim>\<open>av_packet_nalu.h\<close> and
  \<^verbatim>\<open>av_packet_nalu_parser.h\<close>, and its emitter in \<^verbatim>\<open>emitter.h\<close>.
  A NALU is modelled by the bytes its slice shows.
\<close>

section \<open>Slices\<close>

definition slice_empty :: "'a list \<Rightarrow> bool" where
  "slice_empty xs \<longleftrightarrow> length xs = 0"

text \<open>The assertion of \<^verbatim>\<open>operator[]\<close> is its only test.\<close>

definition slice_index :: "cpp_impl \<Rightarrow> 'a list \<Rightarrow> nat \<Rightarrow> 'a result" where
  "slice_index im xs i = bind_res (cpp_assert im (i < length xs)) (\<lambda>_.
     if i < length xs then Inr (xs ! i) else Inl Range_Violation)"

definition slice_at :: "cpp_impl \<Rightarrow> 'a list \<Rightarrow> nat \<Rightarrow> 'a result" where
  "slice_at im xs i =
     (if i \<ge> length xs then Inl (Out_Of_Range ''index out of range'') else slice_index im xs i)"

definition slice_front :: "cpp_impl \<Rightarrow> 'a list \<Rightarrow> 'a result" where
  "slice_front im xs = slice_index im xs 0"

text \<open>\<^verbatim>\<open>size() - 1\<close> is unsigned: for an empty slice it is the largest index.\<close>

definition slice_back :: "cpp_impl \<Rightarrow> 'a list \<Rightarrow> 'a result" where
  "slice_back im xs = slice_index im xs (unat (word_of_nat (length xs) - 1 :: u64))"

lemma slice_at_checked:
  "slice_at im xs i = (if i < length xs then Inr (xs ! i) else Inl (Out_Of_Range ''index out of range''))"
  by (simp add: slice_at_def slice_index_def)

section \<open>NALU types\<close>

datatype nalu_type =
    Nalu_UNSPECIFIED | Nalu_SLICE | Nalu_DPA | Nalu_DPB
  | Nalu_DPC | Nalu_IDR_SLICE | Nalu_SEI | Nalu_SPS
  | Nalu_PPS | Nalu_AUD | Nalu_END_SEQUENCE | Nalu_END_STREAM
  | Nalu_FILLER_DATA | Nalu_SPS_EXT | Nalu_PREFIX | Nalu_SUB_SPS
  | Nalu_DPS | Nalu_RESERVED17 | Nalu_RESERVED18 | Nalu_AUXILIARY_SLICE
  | Nalu_EXTEN_SLICE | Nalu_DEPTH_EXTEN_SLICE | Nalu_RESERVED22 | Nalu_RESERVED23
  | Nalu_UNSPECIFIED24 | Nalu_UNSPECIFIED25 | Nalu_UNSPECIFIED26 | Nalu_UNSPECIFIED27
  | Nalu_UNSPECIFIED28 | Nalu_UNSPECIFIED29 | Nalu_UNSPECIFIED30 | Nalu_UNSPECIFIED31

text \<open>The enumerators in the order of their values, 0 to 31.\<close>

definition nalu_types :: "nalu_type list" where
  "nalu_types = [
     Nalu_UNSPECIFIED, Nalu_SLICE, Nalu_DPA, Nalu_DPB,
     Nalu_DPC, Nalu_IDR_SLICE, Nalu_SEI, Nalu_SPS,
     Nalu_PPS, Nalu_AUD, Nalu_END_SEQUENCE, Nalu_END_STREAM,
     Nalu_FILLER_DATA, Nalu_SPS_EXT, Nalu_PREFIX, Nalu_SUB_SPS,
     Nalu_DPS, Nalu_RESERVED17, Nalu_RESERVED18, Nalu_AUXILIARY_SLICE,
     Nalu_EXTEN_SLICE, Nalu_DEPTH_EXTEN_SLICE, Nalu_RESERVED22, Nalu_RESERVED23,
     Nalu_UNSPECIFIED24, Nalu_UNSPECIFIED25, Nalu_UNSPECIFIED26, Nalu_UNSPECIFIED27,
     Nalu_UNSPECIFIED28, Nalu_UNSPECIFIED29, Nalu_UNSPECIFIED30, Nalu_UNSPECIFIED31]"

definition NALU_TYPE_STR :: "string list" where
  "NALU_TYPE_STR = [
     ''UNSPECIFIED'', ''SLICE'', ''DPA'', ''DPB'', ''DPC'',
     ''IDR_SLICE'', ''SEI'', ''SPS'', ''PPS'', ''AUD'',
     ''END_SEQUENCE'', ''END_STREAM'', ''FILLER_DATA'', ''SPS_EXT'', ''PREFIX'',
     ''SUB_SPS'', ''DPS'', ''RESERVED17'', ''RESERVED18'', ''AUXILIARY_SLICE'',
     ''EXTEN_SLICE'', ''DEPTH_EXTEN_SLICE'', ''RESERVED22'', ''RESERVED23'', ''UNSPECIFIED24'',
     ''UNSPECIFIED25'', ''UNSPECIFIED26'', ''UNSPECIFIED27'', ''UNSPECIFIED28'', ''UNSPECIFIED29'',
     ''UNSPECIFIED30'', ''UNSPECIFIED31'']"

definition nalu_type_of :: "u8 \<Rightarrow> nalu_type" where
  "nalu_type_of b = nalu_types ! unat (b AND 0x1F)"

text \<open>The value of an enumerator is its place in the list.\<close>

fun place_of :: "'a \<Rightarrow> 'a list \<Rightarrow> nat" where
  "place_of x [] = 0"
| "place_of x (y # ys) = (if x = y then 0 else Suc (place_of x ys))"

definition nalu_type_code :: "nalu_type \<Rightarrow> nat" where
  "nalu_type_code ty = place_of ty nalu_types"

definition nalu_type_to_string :: "nalu_type \<Rightarrow> string" where
  "nalu_type_to_string ty = NALU_TYPE_STR ! nalu_type_code ty"

text \<open>\<^verbatim>\<open>boost::to_upper\<close> in the classic locale.\<close>

definition to_upper_char :: "char \<Rightarrow> char" where
  "to_upper_char c =
     (let n = of_char c :: nat in if 97 \<le> n \<and> n \<le> 122 then char_of (n - 32) else c)"

fun find_type_string :: "string \<Rightarrow> string list \<Rightarrow> nat \<Rightarrow> nalu_type option" where
  "find_type_string upper [] i = None"
| "find_type_string upper (s # ss) i =
     (if upper = s then Some (nalu_types ! i) else find_type_string upper ss (Suc i))"

definition string_to_nalu_type :: "string \<Rightarrow> nalu_type option" where
  "string_to_nalu_type str = find_type_string (map to_upper_char str) NALU_TYPE_STR 0"

text \<open>The overload for \<^verbatim>\<open>std::string\<close> hands over the bytes before the first NUL.\<close>

definition string_to_nalu_type_str :: "string \<Rightarrow> nalu_type option" where
  "string_to_nalu_type_str str = string_to_nalu_type (takeWhile (\<lambda>c. c \<noteq> CHR 0x00) str)"

definition MAX_LENGTH :: nat where
  "MAX_LENGTH = 4 * 1024 * 2014"

definition nalu_is_valid :: "cpp_impl \<Rightarrow> u8 list \<Rightarrow> bool result" where
  "nalu_is_valid im nalu =
     (if slice_empty nalu then Inr False
      else bind_res (slice_front im nalu) (\<lambda>b. Inr (b AND 0x80 = 0)))"

definition nalu_get_type :: "cpp_impl \<Rightarrow> u8 list \<Rightarrow> nalu_type result" where
  "nalu_get_type im nalu = bind_res (slice_front im nalu) (\<lambda>b. Inr (nalu_type_of b))"

lemma nalu_types_strings:
  "list_all (\<lambda>ty. string_to_nalu_type (nalu_type_to_string ty) = Some ty) nalu_types"
  by code_simp

lemma all_nalu_types: "ty \<in> set nalu_types"
  by (cases ty) (simp_all add: nalu_types_def)

lemma string_to_nalu_type_to_string: "string_to_nalu_type (nalu_type_to_string ty) = Some ty"
  using nalu_types_strings all_nalu_types [of ty] by (simp add: list_all_iff)

lemma find_type_string_Some:
  "find_type_string u ss i = Some ty \<Longrightarrow> \<exists>j < length ss. ss ! j = u \<and> ty = nalu_types ! (i + j)"
proof (induction ss arbitrary: i)
  case (Cons s ss)
  show ?case
  proof (cases "u = s")
    case True
    with Cons.prems show ?thesis by (intro exI [of _ 0]) simp
  next
    case False
    with Cons.prems have "find_type_string u ss (Suc i) = Some ty" by simp
    from Cons.IH [OF this] obtain j where "j < length ss" "ss ! j = u" "ty = nalu_types ! (Suc i + j)" by auto
    then show ?thesis by (intro exI [of _ "Suc j"]) simp
  qed
qed simp

lemma nalu_type_strings_in_order:
  "map nalu_type_to_string nalu_types = NALU_TYPE_STR"
  by code_simp

lemma string_to_nalu_type_Some_iff:
  "string_to_nalu_type s = Some ty \<longleftrightarrow> map to_upper_char s = nalu_type_to_string ty"
proof
  assume "string_to_nalu_type s = Some ty"
  then obtain j where j: "j < length NALU_TYPE_STR" "NALU_TYPE_STR ! j = map to_upper_char s" "ty = nalu_types ! j"
    using find_type_string_Some [of _ NALU_TYPE_STR 0] by (force simp: string_to_nalu_type_def)
  then have "j < length nalu_types" by (simp add: NALU_TYPE_STR_def nalu_types_def)
  then have "nalu_type_to_string ty = NALU_TYPE_STR ! j"
    using j(3) by (simp flip: nalu_type_strings_in_order)
  with j(2) show "map to_upper_char s = nalu_type_to_string ty" by simp
next
  have u: "list_all (\<lambda>s. map to_upper_char s = s) NALU_TYPE_STR" by code_simp
  assume a: "map to_upper_char s = nalu_type_to_string ty"
  have "nalu_type_to_string ty \<in> set NALU_TYPE_STR"
    using all_nalu_types [of ty] by (simp flip: nalu_type_strings_in_order)
  with u have "map to_upper_char (nalu_type_to_string ty) = nalu_type_to_string ty"
    by (simp add: list_all_iff)
  with a string_to_nalu_type_to_string [of ty] show "string_to_nalu_type s = Some ty"
    by (simp add: string_to_nalu_type_def)
qed

text \<open>
  The name table is read back by the case-insensitive lookup, and by nothing else.
\<close>

theorem nalu_type_names:
  "string_to_nalu_type s = Some ty \<longleftrightarrow> map to_upper_char s = nalu_type_to_string ty"
  by (rule string_to_nalu_type_Some_iff)

section \<open>AVCC framing\<close>

text \<open>
  The length bytes are copied right-aligned into a zeroed 32-bit number and read as big-endian,
  whatever the host's byte order.
\<close>

fun big_endian :: "u32 \<Rightarrow> u8 list \<Rightarrow> u32" where
  "big_endian acc [] = acc"
| "big_endian acc (b # bs) = big_endian (push_bit 8 acc OR ucast b) bs"

definition parse_avcc_nalu_length :: "cpp_impl \<Rightarrow> u8 list \<Rightarrow> u32 \<Rightarrow> u32 result" where
  "parse_avcc_nalu_length im data nalu_length_size =
     bind_res (cpp_assert im (0 < nalu_length_size \<and> nalu_length_size \<le> 4)) (\<lambda>_.
     Inr (big_endian 0 (take (unat nalu_length_size) data)))"

definition next_avcc_bounds :: "cpp_impl \<Rightarrow> u32 \<Rightarrow> u8 list \<Rightarrow> bounds option result" where
  "next_avcc_bounds im nalu_length_size_minus_one bs =
     (if bs = [] then Inr None
      else let nalu_length_size = nalu_length_size_minus_one + 1 in
      if unat nalu_length_size > length bs then parse_fail Nalu_Length_Size
      else bind_res (parse_avcc_nalu_length im bs nalu_length_size) (\<lambda>nalu_length.
        if nalu_length = 0 then parse_fail Nalu_Empty
        else if unat nalu_length > MAX_LENGTH then parse_fail Nalu_Too_Long
        else if unat (nalu_length_size + nalu_length) > length bs then parse_fail Nalu_Overflow
        else Inr (Some \<lparr>b_start = unat nalu_length_size, b_length = unat nalu_length\<rparr>)))"

definition nalu_parser_next :: "cpp_impl \<Rightarrow> u8 list \<Rightarrow> bounds option result" where
  "nalu_parser_next im bs = next_avcc_bounds im 3 bs"

text \<open>
  \<^verbatim>\<open>AVPacketNalu\<close> keeps a reference to the packet, an offset and a length; it shows the
  bytes there.
\<close>

definition av_packet_nalu_parser_pack :: "cpp_impl \<Rightarrow> u8 list \<Rightarrow> bounds \<Rightarrow> u8 list result" where
  "av_packet_nalu_parser_pack im packet b =
     bind_res (cpp_assert im (b_length b > 0)) (\<lambda>_.
     Inr (take (b_length b) (drop (b_start b) packet)))"

definition emit_nalu_length :: "cpp_impl \<Rightarrow> u32 \<Rightarrow> u8 list result" where
  "emit_nalu_length im nalu_length =
     bind_res (cpp_assert im (unat nalu_length < MAX_LENGTH)) (\<lambda>_.
     Inr [ucast (drop_bit 24 nalu_length), ucast (drop_bit 16 nalu_length),
          ucast (drop_bit 8 nalu_length), ucast nalu_length])"

definition emit_avcc_nalu :: "cpp_impl \<Rightarrow> u8 list \<Rightarrow> u8 list result" where
  "emit_avcc_nalu im nalu =
     bind_res (emit_nalu_length im (word_of_nat (length nalu))) (\<lambda>l. Inr (l @ nalu))"

definition ok_nalu :: "u8 list \<Rightarrow> bool" where
  "ok_nalu nalu \<longleftrightarrow> nalu \<noteq> [] \<and> length nalu < MAX_LENGTH"

definition avcc_nalu :: "u8 list \<Rightarrow> u8 list" where
  "avcc_nalu nalu = write_32 (word_of_nat (length nalu)) @ nalu"

lemma unat_nalu_length: "n \<le> MAX_LENGTH \<Longrightarrow> unat (word_of_nat n :: u32) = n"
  by (simp add: unat_of_nat MAX_LENGTH_def)

lemma emit_avcc_nalu_ok: "ok_nalu nalu \<Longrightarrow> emit_avcc_nalu im nalu = Inr (avcc_nalu nalu)"
  by (simp add: emit_avcc_nalu_def emit_nalu_length_def ok_nalu_def avcc_nalu_def unat_nalu_length
      write_32_bytes)

lemma big_endian_4:
  "big_endian 0 [a, b, c, d] = push_bit 24 (ucast a) + push_bit 16 (ucast b) + push_bit 8 (ucast c) + ucast d"
proof -
  have "push_bit 24 (ucast a) + push_bit 16 (ucast b) + push_bit 8 (ucast c) + ucast d
      = push_bit 24 (ucast a) OR push_bit 16 (ucast b) OR push_bit 8 (ucast c) OR (ucast d :: u32)"
    by (subst disjunctive_add, force simp: bit_simps dest: bit_imp_le_length)+ (simp add: or.assoc)
  also have "\<dots> = big_endian 0 [a, b, c, d]"
    by (simp add: push_bit_or or.assoc)
  finally show ?thesis by simp
qed

lemma big_endian_write_32: "big_endian 0 (take 4 (write_32 v @ r)) = v"
  using join_32 [of v] by (simp only: write_32_bytes) (simp add: big_endian_4 del: big_endian.simps)

lemma list_4: "4 \<le> length bs \<Longrightarrow> \<exists>a b c d r. bs = a # b # c # d # r"
  by (auto simp: numeral_eq_Suc Suc_le_length_iff)

text \<open>What the framing accepts, in terms of the emitted form.\<close>

lemma nalu_parser_next_put:
  assumes "ok_nalu nalu"
  shows "nalu_parser_next im (avcc_nalu nalu @ rest) = Inr (Some \<lparr>b_start = 4, b_length = length nalu\<rparr>)"
proof -
  have l: "unat (word_of_nat (length nalu) :: u32) = length nalu"
    using assms by (simp add: ok_nalu_def unat_nalu_length)
  have "unat ((4 :: u32) + word_of_nat (length nalu)) = 4 + length nalu"
    using assms by (subst unat_add_lem [THEN iffD1]) (simp_all add: l ok_nalu_def MAX_LENGTH_def)
  moreover have "(word_of_nat (length nalu) :: u32) \<noteq> 0"
    using l assms by (metis ok_nalu_def length_0_conv unat_0)
  moreover have "big_endian 0 (take 4 (avcc_nalu nalu @ rest)) = word_of_nat (length nalu)"
    by (simp only: avcc_nalu_def append_assoc big_endian_write_32)
  moreover have "avcc_nalu nalu @ rest \<noteq> []" by (simp add: avcc_nalu_def write_32_def)
  moreover have "length (avcc_nalu nalu) = 4 + length nalu" by (simp add: avcc_nalu_def wire)
  ultimately show ?thesis
    using assms l
    by (simp add: nalu_parser_next_def next_avcc_bounds_def Let_def parse_avcc_nalu_length_def ok_nalu_def)
qed

lemma nalu_parser_next_found:
  assumes "nalu_parser_next im bs = Inr (Some b)"
  shows "b_start b = 4 \<and> 0 < b_length b \<and> b_length b \<le> MAX_LENGTH \<and> 4 + b_length b \<le> length bs \<and>
    take 4 bs = write_32 (word_of_nat (b_length b))"
proof -
  from assms have bs: "bs \<noteq> []" and l4: "4 \<le> length bs"
    by (auto simp: nalu_parser_next_def next_avcc_bounds_def Let_def parse_fail_def split: if_splits)
  let ?n = "big_endian 0 (take 4 bs)"
  from assms have n: "?n \<noteq> 0" "unat ?n \<le> MAX_LENGTH" "unat (4 + ?n) \<le> length bs"
    and b: "b = \<lparr>b_start = 4, b_length = unat ?n\<rparr>"
    by (auto simp: nalu_parser_next_def next_avcc_bounds_def Let_def parse_fail_def bind_res_Inr_iff
        parse_avcc_nalu_length_def not_less split: if_splits)
  have "unat (4 + ?n) = 4 + unat ?n"
    using n(2) by (subst unat_add_lem [THEN iffD1]) (simp_all add: MAX_LENGTH_def)
  moreover have "take 4 bs = write_32 ?n"
  proof -
    from list_4 [OF l4] obtain a1 a2 a3 a4 r where r: "bs = a1 # a2 # a3 # a4 # r" by blast
    have "write_32 (big_endian 0 [a1, a2, a3, a4]) = [a1, a2, a3, a4]"
      unfolding write_32_bytes
      by (simp only: list.inject; intro conjI bit_word_eqI) (auto simp: bit_simps dest: bit_imp_le_length)
    then show ?thesis by (simp add: r numeral_eq_Suc)
  qed
  moreover have "0 < unat ?n" using n(1) by (simp add: unat_gt_0)
  ultimately show ?thesis using n b by simp
qed

lemma nalu_parser_next_no_violation: "nalu_parser_next im bs \<noteq> Inl Range_Violation"
  by (auto simp: nalu_parser_next_def next_avcc_bounds_def Let_def parse_fail_def bind_res_Inl_iff
      parse_avcc_nalu_length_def cpp_assert_def)

interpretation nalus: total_format "nalu_parser_next im" "av_packet_nalu_parser_pack im" for im
proof
  fix bs b assume "nalu_parser_next im bs = Inr (Some b)"
  from nalu_parser_next_found [OF this] show "b_start b + b_length b \<le> length bs"
    and "0 < b_start b + b_length b" by auto
next
  fix bs :: "u8 list" assume "bs \<noteq> []"
  then show "nalu_parser_next im bs \<noteq> Inr None"
    by (auto simp: nalu_parser_next_def next_avcc_bounds_def Let_def parse_fail_def bind_res_Inr_iff)
qed

lemma nalu_shift_put:
  assumes "ok_nalu nalu" and "unread p = avcc_nalu nalu @ rest"
  shows "parser_shift im (nalu_parser_next im) (av_packet_nalu_parser_pack im) p
    = Inr (nalu, p\<lparr>p_pos := p_pos p + length (avcc_nalu nalu)\<rparr>)"
proof -
  have l: "length (avcc_nalu nalu) = 4 + length nalu" by (simp add: avcc_nalu_def wire)
  have hn: "has_next p" using assms(2) l by (auto simp: has_next_unread)
  have le: "p_pos p + 4 + length nalu \<le> length (p_buffer p)"
    using hn arg_cong [OF assms(2), of length] by (simp add: l bytes_left_def has_next_def)
  have "drop (p_pos p + 4) (p_buffer p) = drop 4 (unread p)" by (simp add: unread_def add.commute)
  then have pk: "take (length nalu) (drop (p_pos p + 4) (p_buffer p)) = nalu"
    using assms(2) by (simp add: avcc_nalu_def wire)
  show ?thesis
    using assms hn le pk
    by (simp add: parser_shift_def parser_next_def nalu_parser_next_put Let_def ok_nalu_def l
        av_packet_nalu_parser_pack_def)
qed

interpretation nalu_codec: packet_codec im "nalu_parser_next im" "av_packet_nalu_parser_pack im" ok_nalu avcc_nalu
  for im
proof
  fix nalu p rest
  assume "ok_nalu nalu" and "unread p = avcc_nalu nalu @ rest"
  then show "parser_shift im (nalu_parser_next im) (av_packet_nalu_parser_pack im) p
    = Inr (nalu, p\<lparr>p_pos := p_pos p + length (avcc_nalu nalu)\<rparr>)"
    by (rule nalu_shift_put)
qed (simp add: avcc_nalu_def write_32_def)

text \<open>
  C18: Parsing a packet made of length-prefixed NALUs hands exactly these NALUs, in order, to
  the loop's body.
\<close>

theorem nalu_stream_roundtrip:
  assumes "list_all ok_nalu nalus"
  shows "parse_each im (nalu_parser_next im) (av_packet_nalu_parser_pack im) body
    (concat (map avcc_nalu nalus)) st = Some (run_body body nalus st)"
  using assms by (rule nalu_codec.parse_each_put)

theorem nalu_stream_roundtrip_witness:
  "parse_each sample_impl
     (nalu_parser_next sample_impl)
     (av_packet_nalu_parser_pack sample_impl)
     (\<lambda>n ns. (ns @ [n], None)) (concat (map avcc_nalu [[9, 16], [6, 1, 0x80]])) []
   = Some ([[9, 16], [6, 1, 0x80]], None)"
  by (subst nalu_stream_roundtrip) (simp_all add: ok_nalu_def MAX_LENGTH_def)

text \<open>
  A cursor over NALUs never dereferences an empty result, and what it finds is what the emitter
  would have written there: the framing is canonical.
\<close>

lemma nalu_shift_canonical:
  assumes "parser_shift im (nalu_parser_next im) (av_packet_nalu_parser_pack im) p = Inr (nalu, p')"
  shows "unread p = avcc_nalu nalu @ unread p' \<and> nalu \<noteq> [] \<and> length nalu \<le> MAX_LENGTH \<and>
    p_buffer p' = p_buffer p"
proof -
  from assms obtain b where n: "nalu_parser_next im (unread p) = Inr (Some b)"
    and p': "p' = p\<lparr>p_pos := p_pos p + b_start b + b_length b\<rparr>"
    and nalu: "nalu = take (b_length b) (drop (p_pos p + b_start b) (p_buffer p))"
    by (auto simp: parser_shift_def parser_next_def bind_res_Inr_iff Let_def av_packet_nalu_parser_pack_def
        split: if_splits sum.splits option.splits)
  note f = nalu_parser_next_found [OF n]
  have d: "drop (p_pos p + 4) (p_buffer p) = drop 4 (unread p)" by (simp add: unread_def add.commute)
  have u': "unread p' = drop (b_length b) (drop 4 (unread p))"
    using f by (simp add: p' unread_def add.commute add.left_commute)
  have nl: "nalu = take (b_length b) (drop 4 (unread p))" using f nalu d by simp
  have ln: "length nalu = b_length b" using f nl by auto
  have "unread p = take 4 (unread p) @ nalu @ unread p'"
    by (simp only: nl u' append_take_drop_id)
  then show ?thesis using f ln by (simp add: avcc_nalu_def p') auto
qed

lemma parser_loop_canonical:
  "parser_loop n im (nalu_parser_next im) (av_packet_nalu_parser_pack im) (\<lambda>x xs. (xs @ [x], None)) p acc
     = Some (nalus, None) \<Longrightarrow>
   \<exists>new. nalus = acc @ new \<and> unread p = concat (map avcc_nalu new) \<and>
     list_all (\<lambda>x. x \<noteq> [] \<and> length x \<le> MAX_LENGTH) new"
proof (induction n arbitrary: p acc)
  case (Suc n)
  show ?case
  proof (cases "has_next p")
    case False
    with Suc.prems show ?thesis by (auto simp: has_next_unread)
  next
    case True
    with Suc.prems obtain x p' where s:
      "parser_shift im (nalu_parser_next im) (av_packet_nalu_parser_pack im) p = Inr (x, p')"
      "parser_loop n im (nalu_parser_next im) (av_packet_nalu_parser_pack im) (\<lambda>x xs. (xs @ [x], None)) p'
         (acc @ [x]) = Some (nalus, None)"
      by (auto split: sum.splits)
    from Suc.IH [OF s(2)] obtain new where "nalus = (acc @ [x]) @ new"
      "unread p' = concat (map avcc_nalu new)" "list_all (\<lambda>x. x \<noteq> [] \<and> length x \<le> MAX_LENGTH) new" by blast
    with nalu_shift_canonical [OF s(1)] show ?thesis by (intro exI [of _ "x # new"]) auto
  qed
qed simp

text \<open>
  C36: When the NALU loop ends without an error, the NALUs it found with their length prefixes
  are the packet, byte for byte.
\<close>

theorem nalu_parsing_is_lossless:
  assumes "parse_each im (nalu_parser_next im) (av_packet_nalu_parser_pack im)
    (\<lambda>x xs. (xs @ [x], None)) packet [] = Some (nalus, None)"
  shows "concat (map avcc_nalu nalus) = packet \<and> list_all (\<lambda>x. x \<noteq> [] \<and> length x \<le> MAX_LENGTH) nalus"
  using parser_loop_canonical [OF assms [unfolded parse_each_def]] by (simp add: unread_def)

theorem nalu_parsing_is_lossless_witness:
  "concat (map avcc_nalu [[9, 16], [6, 1, 0x80]]) = [0, 0, 0, 2, 9, 16, 0, 0, 0, 3, 6, 1, 0x80] \<and>
   list_all (\<lambda>x. x \<noteq> [] \<and> length x \<le> MAX_LENGTH) [[9, 16], [6, 1, 0x80 :: u8]]"
proof -
  have e: "[0, 0, 0, 2, 9, 16, 0, 0, 0, 3, 6, 1, 0x80] = concat (map avcc_nalu [[9, 16], [6, 1, 0x80]])"
    by code_simp
  have ok: "list_all ok_nalu [[9, 16], [6, 1, 0x80]]" by (simp add: ok_nalu_def MAX_LENGTH_def)
  have "parse_each sample_impl (nalu_parser_next sample_impl) (av_packet_nalu_parser_pack sample_impl) (\<lambda>x xs. (xs @ [x], None))
      [0, 0, 0, 2, 9, 16, 0, 0, 0, 3, 6, 1, 0x80] [] = Some ([[9, 16], [6, 1, 0x80]], None)"
    unfolding e nalu_codec.parse_each_put [OF ok] by simp
  then show ?thesis by (rule nalu_parsing_is_lossless)
qed

text \<open>
  Whatever the bytes of a packet, the NALU loop ends, and no step of it reads outside of the
  packet.
\<close>

theorem nalu_loop_ends_in_range:
  "parse_each im (nalu_parser_next im) (av_packet_nalu_parser_pack im) body packet st \<noteq> None \<and>
   (has_next p \<longrightarrow> parser_shift im (nalu_parser_next im) (av_packet_nalu_parser_pack im) p \<noteq> Inl Range_Violation)"
proof (intro conjI impI)
  show "parse_each im (nalu_parser_next im) (av_packet_nalu_parser_pack im) body packet st \<noteq> None"
    by (rule nalus.parse_each_ends)
  assume "has_next p"
  then show "parser_shift im (nalu_parser_next im) (av_packet_nalu_parser_pack im) p \<noteq> Inl Range_Violation"
    by (rule nalus.parser_shift_in_range)
      (auto simp: nalu_parser_next_no_violation av_packet_nalu_parser_pack_def bind_res_Inl_iff cpp_assert_def)
qed

theorem nalu_loop_ends_in_range_witness:
  "parser_shift sample_impl
     (nalu_parser_next sample_impl)
     (av_packet_nalu_parser_pack sample_impl)
     (parser_create [0, 0]) \<noteq> Inl Range_Violation"
  using nalu_loop_ends_in_range [of sample_impl
      "\<lambda>x s. (s, None)" "[]" "()" "parser_create [0, 0]"] by (simp add: has_next_def)

text \<open>The emitter asserts a strict bound where the parser accepts the bound itself.\<close>

text \<open>
  A NALU of the maximal length that the parser accepts trips the assertion of the emitter.
\<close>

theorem longest_nalu_not_emitted:
  assumes "length nalu = MAX_LENGTH" and "asserts_on im"
  shows "emit_avcc_nalu im nalu = Inl Assertion_Failed"
  using assms by (simp add: emit_avcc_nalu_def emit_nalu_length_def cpp_assert_def unat_nalu_length)

theorem longest_nalu_not_emitted_witness:
  "emit_avcc_nalu sample_impl
     (replicate MAX_LENGTH 0) = Inl Assertion_Failed"
  by (rule longest_nalu_not_emitted) (simp_all add: sample_impl_def)

end
