(* ===== verification/Sei.thy ===== *)
theory Sei
  imports Ebsp Nalu
begin

text \<open>
  SEI payloads: \<^verbatim>\<open>src/h264/sei_payload.h\<close>, the parser of \<^verbatim>\<open>sei_parser.h\<close> and
  \<^verbatim>\<open>sei_parser.cpp\<close>, the emitter of \<^verbatim>\<open>emitter.h\<close>, and the two fixed payloads
  of \<^verbatim>\<open>stdseis.cpp\<close>.  Payload types are kept as the numbers of the open enumeration.
\<close>

section \<open>Payloads\<close>

record sei_payload =
  sei_type :: u32
  sei_data :: "u8 list"

definition SEI_BUFFERING_PERIOD :: u32 where "SEI_BUFFERING_PERIOD = 0"
definition SEI_PIC_TIMING :: u32 where "SEI_PIC_TIMING = 1"
definition SEI_FILLER_PAYLOAD :: u32 where "SEI_FILLER_PAYLOAD = 3"
definition SEI_USER_DATA_REGISTERED :: u32 where "SEI_USER_DATA_REGISTERED = 4"
definition SEI_USER_DATA_UNREGISTERED :: u32 where "SEI_USER_DATA_UNREGISTERED = 5"
definition SEI_RECOVERY_POINT :: u32 where "SEI_RECOVERY_POINT = 6"
definition SEI_FRAME_PACKING :: u32 where "SEI_FRAME_PACKING = 45"
definition SEI_DISPLAY_ORIENTATION :: u32 where "SEI_DISPLAY_ORIENTATION = 47"
definition SEI_GREEN_METADATA :: u32 where "SEI_GREEN_METADATA = 56"
definition SEI_ALTERNATIVE_TRANSFER :: u32 where "SEI_ALTERNATIVE_TRANSFER = 147"
definition SEI_UNDEFINED :: u32 where "SEI_UNDEFINED = 0xFFFFFFFF"

lemmas sei_type_consts = SEI_BUFFERING_PERIOD_def SEI_PIC_TIMING_def SEI_FILLER_PAYLOAD_def
  SEI_USER_DATA_REGISTERED_def SEI_USER_DATA_UNREGISTERED_def SEI_RECOVERY_POINT_def
  SEI_FRAME_PACKING_def SEI_DISPLAY_ORIENTATION_def SEI_GREEN_METADATA_def
  SEI_ALTERNATIVE_TRANSFER_def SEI_UNDEFINED_def

text \<open>Decimal output of an unsigned number.\<close>

fun decimal :: "nat \<Rightarrow> string" where
  "decimal n = (if n < 10 then [char_of (48 + n)] else decimal (n div 10) @ [char_of (48 + n mod 10)])"

declare decimal.simps [simp del]

definition sei_type_string :: "u32 \<Rightarrow> string" where
  "sei_type_string ty =
     (if ty = SEI_BUFFERING_PERIOD then ''BUFFERING_PERIOD''
      else if ty = SEI_PIC_TIMING then ''PIC_TIMING''
      else if ty = SEI_FILLER_PAYLOAD then ''FILLER_PAYLOAD''
      else if ty = SEI_USER_DATA_REGISTERED then ''USER_DATA_REGISTERED''
      else if ty = SEI_USER_DATA_UNREGISTERED then ''USER_DATA_UNREGISTERED''
      else if ty = SEI_RECOVERY_POINT then ''RECOVERY_POINT''
      else if ty = SEI_FRAME_PACKING then ''FRAME_PACKING''
      else if ty = SEI_DISPLAY_ORIENTATION then ''DISPLAY_ORIENTATION''
      else if ty = SEI_GREEN_METADATA then ''GREEN_METADATA''
      else if ty = SEI_ALTERNATIVE_TRANSFER then ''ALTERNATIVE_TRANSFER''
      else if ty = SEI_UNDEFINED then ''UNDEFINED''
      else ''UNSPECIFIED'' @ decimal (unat ty))"

definition default_sei_payload :: sei_payload where
  "default_sei_payload = \<lparr>sei_type = SEI_UNDEFINED, sei_data = []\<rparr>"

section \<open>The parser\<close>

text \<open>The byte is read before the end is tested: at the end of the data this leaves the range.\<close>

fun parse_variadic_length_int :: "u32 \<Rightarrow> u32 reader" where
  "parse_variadic_length_int x [] = Inl Range_Violation"
| "parse_variadic_length_int x (b # bs) =
     (if b = 0xFF then
        (if bs = [] then parse_fail Malformed_Sei else parse_variadic_length_int (x + 255) bs)
      else Inr (x + ucast b, bs))"

record sei_bounds = bounds +
  sb_payload_type :: u32

definition sei_parser_next :: "u8 list \<Rightarrow> sei_bounds option result" where
  "sei_parser_next bs =
     (if bs = [] then Inr None
      else bind_res (parse_variadic_length_int 0 bs) (\<lambda>(payload_type, r).
        bind_res (parse_variadic_length_int 0 r) (\<lambda>(payload_size, r).
        if unat payload_size > length r then parse_fail Malformed_Sei
        else Inr (Some \<lparr>b_start = length bs - length r, b_length = unat payload_size,
          sb_payload_type = payload_type\<rparr>))))"

definition sei_parser_pack :: "cpp_impl \<Rightarrow> u8 list \<Rightarrow> sei_bounds \<Rightarrow> sei_payload result" where
  "sei_parser_pack im buf b =
     bind_res (cpp_assert im (b_length b > 0)) (\<lambda>_.
     Inr \<lparr>sei_type = sb_payload_type b, sei_data = take (b_length b) (drop (b_start b) buf)\<rparr>)"

section \<open>The emitter\<close>

definition variadic_length_int_size :: "u32 \<Rightarrow> u32" where
  "variadic_length_int_size num = num div 255 + 1"

function emit_variadic_length_int :: "u32 \<Rightarrow> u8 list" where
  "emit_variadic_length_int num =
     (if num \<ge> 255 then 0xFF # emit_variadic_length_int (num div 255) else [ucast (num mod 255)])"
  by pat_completeness auto
termination
proof (relation "measure unat")
  fix num :: u32 assume "255 \<le> num"
  then show "(num div 255, num) \<in> measure unat"
    by (simp add: unat_div word_le_nat_alt)
qed simp

declare emit_variadic_length_int.simps [simp del]

definition sei_payload_size_hint :: "sei_payload \<Rightarrow> u32" where
  "sei_payload_size_hint sei =
     word_of_nat (length (sei_data sei)) + count_emulation_prevention_bytes (sei_data sei) + 1 +
     variadic_length_int_size (word_of_nat (length (sei_data sei))) +
     variadic_length_int_size (sei_type sei)"

definition emit_sei_payload :: "sei_payload \<Rightarrow> u8 list" where
  "emit_sei_payload sei =
     emit_variadic_length_int (sei_type sei) @
     emit_variadic_length_int (word_of_nat (length (sei_data sei))) @
     copy_sodb_to_ebsp (sei_data sei)"

definition SEI_NALU_TYPE_BYTE :: u8 where
  "SEI_NALU_TYPE_BYTE = word_of_nat (nalu_type_code Nalu_SEI)"

definition emit_sei_payloads_to_avcc_nalu :: "cpp_impl \<Rightarrow> sei_payload list \<Rightarrow> u8 list result" where
  "emit_sei_payloads_to_avcc_nalu im seis =
     bind_res (emit_nalu_length im (foldl (\<lambda>x sei. x + sei_payload_size_hint sei) 1 seis)) (\<lambda>l.
     Inr (l @ [SEI_NALU_TYPE_BYTE] @ concat (map emit_sei_payload seis)))"

section \<open>The fixed payloads\<close>

definition EMPTY_SEI :: sei_payload where
  "EMPTY_SEI = \<lparr>sei_type = SEI_USER_DATA_REGISTERED, sei_data =
     [181, 0, 49, 0x47, 0x41, 0x39, 0x34, 3,
      0x40 OR 4, 0x00,
      0xFC, 0x80, 0x80,
      0xFD, 0x01, 0x85,
      0xFA, 0x00, 0x00,
      0xFA, 0x00, 0x00,
      0xFF]\<rparr>"

definition RESET_SEI :: sei_payload where
  "RESET_SEI = \<lparr>sei_type = SEI_USER_DATA_REGISTERED, sei_data =
     [181, 0, 49, 0x47, 0x41, 0x39, 0x34, 3,
      0x40 OR 18, 0x00,
      0xFC, 0x94, 0x2C, 0xFC, 0x94, 0xAE, 0xFC, 0x94, 0x2F,
      0xFC, 0x1C, 0x2C, 0xFC, 0x1C, 0xAE, 0xFC, 0x1C, 0x2F,
      0xFD, 0x94, 0x2C, 0xFD, 0x94, 0xAE, 0xFD, 0x94, 0x2F,
      0xFD, 0x1C, 0x2C, 0xFD, 0x1C, 0xAE, 0xFD, 0x1C, 0x2F,
      0xFF, 0x02, 0x21, 0xFE, 0x8F, 0x00, 0xFF, 0x02, 0x41, 0xFE, 0x8F, 0x00,
      0xFA, 0x00, 0x00, 0xFA, 0x00, 0x00,
      0xFF]\<rparr>"

section \<open>Reading\<close>

lemma parse_variadic_shrinks: "parse_variadic_length_int x bs = Inr (y, r) \<Longrightarrow> length r < length bs"
  by (induction x bs rule: parse_variadic_length_int.induct) (auto simp: parse_fail_def split: if_splits)

interpretation sei_messages: packet_format sei_parser_next "sei_parser_pack im" for im
proof
  fix bs b assume "sei_parser_next bs = Inr (Some b)"
  then show "b_start b + b_length b \<le> length bs" and "0 < b_start b + b_length b"
    by (auto simp: sei_parser_next_def bind_res_Inr_iff parse_fail_def split: if_splits
        dest!: parse_variadic_shrinks)
qed

text \<open>The variable length numbers as the H.264 standard writes them.\<close>

definition h264_variadic :: "nat \<Rightarrow> u8 list" where
  "h264_variadic n = replicate (n div 255) 0xFF @ [word_of_nat (n mod 255)]"

lemma parse_variadic_ff:
  "r \<noteq> [] \<Longrightarrow> parse_variadic_length_int x (replicate k 0xFF @ r)
     = parse_variadic_length_int (x + word_of_nat (k * 255)) r"
  by (induction k arbitrary: x) (simp_all add: algebra_simps)

lemma parse_variadic_standard:
  "parse_variadic_length_int 0 (h264_variadic n @ r) = Inr (word_of_nat n, r)"
proof -
  have l: "n mod 255 < 255" by simp
  have u8: "unat (word_of_nat (n mod 255) :: u8) = n mod 255"
    and u32: "unat (word_of_nat (n mod 255) :: u32) = n mod 255"
    using l by (simp_all add: unat_of_nat del: mod_less_divisor)
  have b: "(word_of_nat (n mod 255) :: u8) \<noteq> 0xFF"
    using u8 l by (auto simp: word_unat_eq_iff)
  have u: "(ucast (word_of_nat (n mod 255) :: u8) :: u32) = word_of_nat (n mod 255)"
    using u8 u32 l by (simp add: word_unat_eq_iff unsigned_ucast_eq take_bit_nat_eq_self_iff)
  have "word_of_nat (n div 255) * 255 + word_of_nat (n mod 255) = (word_of_nat (n div 255 * 255 + n mod 255) :: u32)"
    by (simp only: of_nat_add of_nat_mult of_nat_numeral)
  then have "word_of_nat (n div 255) * 255 + word_of_nat (n mod 255) = (word_of_nat n :: u32)"
    by simp
  then show ?thesis using b u
    by (simp add: h264_variadic_def parse_variadic_ff)
qed

definition sei_message :: "sei_payload \<Rightarrow> u8 list" where
  "sei_message sei = h264_variadic (unat (sei_type sei)) @ h264_variadic (length (sei_data sei)) @ sei_data sei"

definition ok_sei :: "sei_payload \<Rightarrow> bool" where
  "ok_sei sei \<longleftrightarrow> sei_data sei \<noteq> [] \<and> length (sei_data sei) < 2 ^ 32"

lemma h264_variadic_nonempty: "h264_variadic n \<noteq> []"
  by (simp add: h264_variadic_def)

lemma sei_parser_next_message:
  assumes "ok_sei sei"
  shows "sei_parser_next (sei_message sei @ rest) = Inr (Some
    \<lparr>b_start = length (h264_variadic (unat (sei_type sei)) @ h264_variadic (length (sei_data sei))),
     b_length = length (sei_data sei), sb_payload_type = sei_type sei\<rparr>)"
  using assms
  by (simp add: sei_parser_next_def sei_message_def h264_variadic_nonempty parse_variadic_standard
      ok_sei_def unat_of_nat)

interpretation sei_codec: packet_codec im sei_parser_next "sei_parser_pack im" ok_sei sei_message
  for im
proof
  fix sei p rest
  assume ok: "ok_sei sei" and u: "unread p = sei_message sei @ rest"
  let ?h = "h264_variadic (unat (sei_type sei)) @ h264_variadic (length (sei_data sei))"
  have m: "sei_message sei = ?h @ sei_data sei" by (simp add: sei_message_def)
  have hn: "has_next p" using u by (simp add: has_next_unread m h264_variadic_nonempty)
  have le: "p_pos p + length ?h + length (sei_data sei) \<le> length (p_buffer p)"
    using hn arg_cong [OF u, of length] by (simp add: m bytes_left_def has_next_def)
  have "drop (p_pos p + length ?h) (p_buffer p) = drop (length ?h) (unread p)"
    by (simp add: unread_def add.commute)
  also have "\<dots> = sei_data sei @ rest" by (simp add: u m)
  finally have d: "drop (p_pos p + length ?h) (p_buffer p) = sei_data sei @ rest" .
  have nx: "sei_parser_next (unread p) = Inr (Some
    \<lparr>b_start = length ?h, b_length = length (sei_data sei), sb_payload_type = sei_type sei\<rparr>)"
    unfolding u by (rule sei_parser_next_message [OF ok])
  show "parser_shift im sei_parser_next (sei_parser_pack im) p
    = Inr (sei, p\<lparr>p_pos := p_pos p + length (sei_message sei)\<rparr>)"
    using ok hn le d
    by (simp add: parser_shift_def parser_next_def nx Let_def sei_parser_pack_def ok_sei_def m
        del: length_append) simp
qed (simp add: sei_message_def h264_variadic_nonempty)

text \<open>
  Payloads written the way the standard says are handed to the loop's body in order.
\<close>

theorem sei_messages_are_read:
  assumes "list_all ok_sei seis"
  shows "parse_each im sei_parser_next (sei_parser_pack im) body (concat (map sei_message seis)) st
    = Some (run_body body seis st)"
  using assms by (rule sei_codec.parse_each_put)

theorem sei_messages_are_read_witness:
  "parse_each sample_impl sei_parser_next (sei_parser_pack sample_impl) (\<lambda>x xs. (xs @ [x], None))
     (concat (map sei_message [RESET_SEI, EMPTY_SEI])) [] = Some ([RESET_SEI, EMPTY_SEI], None)"
  by (subst sei_messages_are_read) (simp_all add: ok_sei_def RESET_SEI_def EMPTY_SEI_def)

section \<open>The emitted numbers\<close>

text \<open>What the parser makes of an emitted number.\<close>

function variadic_value :: "u32 \<Rightarrow> u32" where
  "variadic_value num = (if num \<ge> 255 then 255 + variadic_value (num div 255) else num)"
  by pat_completeness auto
termination
proof (relation "measure unat")
  fix num :: u32 assume "255 \<le> num"
  then show "(num div 255, num) \<in> measure unat"
    by (simp add: unat_div word_le_nat_alt)
qed simp

declare variadic_value.simps [simp del]

lemma emit_variadic_nonempty: "emit_variadic_length_int num \<noteq> []"
  by (subst emit_variadic_length_int.simps) simp

lemma unat_ucast_byte: "unat (ucast n :: u8) = take_bit 8 (unat n)" for n :: u32
  by (simp only: unsigned_ucast_eq unsigned_take_bit_eq len_num0 len_num1 len_bit0 len_bit1) simp

lemma parse_emitted_variadic:
  "parse_variadic_length_int x (emit_variadic_length_int num @ r) = Inr (x + variadic_value num, r)"
proof (induction num arbitrary: x rule: emit_variadic_length_int.induct)
  case (1 num)
  show ?case
  proof (cases "255 \<le> num")
    case True
    have "parse_variadic_length_int x (emit_variadic_length_int num @ r)
        = parse_variadic_length_int (x + 255) (emit_variadic_length_int (num div 255) @ r)"
      using True by (subst emit_variadic_length_int.simps) (simp add: emit_variadic_nonempty)
    also have "\<dots> = Inr (x + 255 + variadic_value (num div 255), r)" by (rule 1) (rule True)
    also have "x + 255 + variadic_value (num div 255) = x + variadic_value num"
      using True by (simp add: variadic_value.simps [of num])
    finally show ?thesis .
  next
    case False
    then have n: "unat num < 255" by (simp add: word_le_nat_alt)
    then have m: "num mod 255 = num" by (simp add: word_unat_eq_iff unat_mod)
    have u: "unat (ucast num :: u8) = unat num"
      using n unat_ucast_byte [of num] by (simp add: take_bit_nat_eq_self_iff)
    then have "ucast num \<noteq> (0xFF :: u8)" using n by (auto simp: word_unat_eq_iff)
    moreover have "ucast (ucast num :: u8) = num"
    proof -
      have "unat (ucast b :: u32) = unat b" for b :: u8
      proof -
        have "unat b < 2 ^ LENGTH(8)" by (rule unsigned_less)
        then show ?thesis by (simp add: unsigned_ucast_eq take_bit_nat_eq_self_iff)
      qed
      then have "unat (ucast (ucast num :: u8) :: u32) = unat (ucast num :: u8)" .
      with u show ?thesis by (simp only: word_unat_eq_iff)
    qed
    ultimately show ?thesis
      using False m by (simp add: emit_variadic_length_int.simps [of num] variadic_value.simps [of num])
  qed
qed

lemma variadic_value_1: "variadic_value 1 = 1"
  by (subst variadic_value.simps) (simp add: word_le_nat_alt)

lemma variadic_value_bound:
  "unat (variadic_value num) \<le> unat num + 1 \<and> (257 \<le> unat num \<longrightarrow> unat (variadic_value num) < unat num)"
proof (induction num rule: variadic_value.induct)
  case (1 num)
  show ?case
  proof (cases "255 \<le> num")
    case False
    then show ?thesis by (simp add: variadic_value.simps [of num] word_le_nat_alt)
  next
    case True
    let ?q = "unat num div 255"
    have n: "255 \<le> unat num" using True by (simp add: word_le_nat_alt)
    have ih: "unat (variadic_value (num div 255)) \<le> ?q + 1" using 1 [OF True] by (simp add: unat_div)
    have "unat num < 2 ^ 32" using unsigned_less [of num] by simp
    then have "255 + (?q + 1) < 2 ^ 32" by simp
    with ih have e: "unat (variadic_value num) = 255 + unat (variadic_value (num div 255))"
      using True by (subst variadic_value.simps) (simp add: unat_add_lem [THEN iffD1])
    consider "unat num = 255" | "unat num = 256" | "257 \<le> unat num" using n by linarith
    then show ?thesis
    proof cases
      case 1
      then have "num div 255 = 1" by (simp add: word_unat_eq_iff unat_div)
      with e 1 show ?thesis by (simp add: variadic_value_1)
    next
      case 2
      then have "num div 255 = 1" by (simp add: word_unat_eq_iff unat_div)
      with e 2 show ?thesis by (simp add: variadic_value_1)
    next
      case 3
      have "255 + ?q + 1 < unat num \<or> ?q = 1 \<and> num div 255 = 1"
      proof (cases "?q = 1")
        case True
        then show ?thesis by (simp add: word_unat_eq_iff unat_div)
      next
        case False
        have "1 \<le> ?q" using div_le_mono [OF n, of 255] by simp
        with False have "2 \<le> ?q" by linarith
        moreover have "255 * ?q \<le> unat num" by simp
        ultimately show ?thesis by linarith
      qed
      then show ?thesis
      proof
        assume "255 + ?q + 1 < unat num"
        with e ih show ?thesis by linarith
      next
        assume "?q = 1 \<and> num div 255 = 1"
        with e 3 show ?thesis by (simp add: variadic_value_1)
      qed
    qed
  qed
qed

text \<open>
  A payload type or size is read back as it was emitted exactly when it is below 255 or is 256:
  the emitter divides where it has to subtract.
\<close>

theorem emitted_number_roundtrip_iff:
  "parse_variadic_length_int 0 (emit_variadic_length_int num @ r) = Inr (num, r) \<longleftrightarrow> num < 255 \<or> num = 256"
proof -
  have "variadic_value num = num \<longleftrightarrow> num < 255 \<or> num = 256"
  proof (cases "num < 255")
    case True
    then show ?thesis by (simp add: variadic_value.simps [of num] not_le [symmetric])
  next
    case False
    have v255: "variadic_value 255 = 256" "variadic_value 256 = 256" by code_simp+
    consider "num = 255" | "num = 256" | "257 \<le> unat num"
      using False by (simp add: word_less_nat_alt word_unat_eq_iff) linarith
    then show ?thesis
    proof cases
      case 3
      then have "unat (variadic_value num) \<noteq> unat num" using variadic_value_bound [of num] by simp
      moreover have "num \<noteq> 256" using 3 by auto
      ultimately show ?thesis using False by auto
    qed (simp_all add: v255)
  qed
  then show ?thesis by (simp add: parse_emitted_variadic)
qed

lemma emit_variadic_standard:
  assumes "num < 255 \<or> num = 256"
  shows "emit_variadic_length_int num = h264_variadic (unat num)"
    and "variadic_length_int_size num = word_of_nat (length (emit_variadic_length_int num))"
    and "num < 255 \<and> emit_variadic_length_int num = [ucast num] \<or>
      num = 256 \<and> emit_variadic_length_int num = [0xFF, 1]"
proof -
  have "emit_variadic_length_int num = h264_variadic (unat num) \<and>
    variadic_length_int_size num = word_of_nat (length (emit_variadic_length_int num)) \<and>
    (num < 255 \<and> emit_variadic_length_int num = [ucast num] \<or>
      num = 256 \<and> emit_variadic_length_int num = [0xFF, 1])"
    using assms
  proof
    assume l: "num < 255"
    then have n: "unat num < 255" by (simp add: word_less_nat_alt)
    have m: "num mod 255 = num" "num div 255 = 0" using n by (simp_all add: word_unat_eq_iff unat_mod unat_div)
    have "(ucast num :: u8) = word_of_nat (unat num)" by simp
    then show ?thesis
      using l n m by (simp add: emit_variadic_length_int.simps [of num] h264_variadic_def
          variadic_length_int_size_def not_le [symmetric])
  next
    assume "num = 256"
    moreover have "emit_variadic_length_int 256 = [0xFF, 1]" by code_simp
    moreover have "h264_variadic 256 = [0xFF, 1]" by code_simp
    ultimately show ?thesis by (simp add: variadic_length_int_size_def)
  qed
  then show "emit_variadic_length_int num = h264_variadic (unat num)"
    and "variadic_length_int_size num = word_of_nat (length (emit_variadic_length_int num))"
    and "num < 255 \<and> emit_variadic_length_int num = [ucast num] \<or>
      num = 256 \<and> emit_variadic_length_int num = [0xFF, 1]" by blast+
qed

section \<open>One payload in a NALU\<close>

text \<open>The payloads whose NALU has the right length and reads back.\<close>

definition wire_sei :: "sei_payload \<Rightarrow> bool" where
  "wire_sei sei \<longleftrightarrow> sei_data sei \<noteq> [] \<and> start_code_free (sei_data sei) \<and>
     (length (sei_data sei) < 255 \<or> length (sei_data sei) = 256) \<and> (sei_type sei < 255 \<or> sei_type sei = 256)"

lemma wire_sei_length:
  assumes "wire_sei sei"
  shows "unat (word_of_nat (length (sei_data sei)) :: u32) = length (sei_data sei)"
    and "(word_of_nat (length (sei_data sei)) :: u32) < 255 \<or> word_of_nat (length (sei_data sei)) = (256 :: u32)"
    and "(word_of_nat (length (sei_data sei)) :: u32) \<noteq> 0"
proof -
  show u: "unat (word_of_nat (length (sei_data sei)) :: u32) = length (sei_data sei)"
    using assms by (auto simp: wire_sei_def unat_of_nat)
  then show "(word_of_nat (length (sei_data sei)) :: u32) < 255 \<or> word_of_nat (length (sei_data sei)) = (256 :: u32)"
    using assms by (auto simp: wire_sei_def word_less_nat_alt)
  show "(word_of_nat (length (sei_data sei)) :: u32) \<noteq> 0"
    using u assms by (metis length_0_conv unat_0 wire_sei_def)
qed

lemma unescape_after_nonzero:
  "z \<noteq> 0 \<Longrightarrow> unescape y z (copy_rbsp_to_ebsp bs) = unescape y z bs \<or> length bs > 2"
  by (cases "length bs > 2") (auto simp: ebsp_defs)

lemma unescape_payload:
  assumes "z \<noteq> 0" and "\<not> zero_run bs" and "bs \<noteq> []"
  shows "copy_sodb_to_ebsp bs = butlast (copy_sodb_to_ebsp bs) @ [0x80]"
    and "unescape y z (butlast (copy_sodb_to_ebsp bs)) = bs"
proof -
  have "copy_sodb_to_ebsp bs = butlast (copy_sodb_to_ebsp bs) @ [0x80] \<and>
    unescape y z (butlast (copy_sodb_to_ebsp bs)) = bs"
  proof (cases bs)
    case (Cons a t)
    then show ?thesis
    proof (cases t)
      case Nil
      with Cons assms show ?thesis by (simp add: copy_to_shapes)
    next
      case t: (Cons b xs)
      have "unescape a b (escape a b xs) = xs" using unescape_escape [of a b xs] assms(2) Cons t by simp
      moreover have "copy_sodb_to_ebsp bs = (a # b # escape a b xs) @ [0x80]"
        unfolding Cons t copy_to_shapes by simp
      ultimately show ?thesis using assms(1) Cons t by (simp add: butlast_append)
    qed
  qed (simp add: assms)
  then show "copy_sodb_to_ebsp bs = butlast (copy_sodb_to_ebsp bs) @ [0x80]"
    and "unescape y z (butlast (copy_sodb_to_ebsp bs)) = bs" by blast+
qed

lemma ucast_nonzero: "0 < n \<Longrightarrow> n < 255 \<Longrightarrow> (ucast n :: u8) \<noteq> 0" for n :: u32
proof
  assume a: "0 < n" "n < 255" "(ucast n :: u8) = 0"
  then have "unat n < 255" "0 < unat n" by (simp_all add: word_less_nat_alt)
  moreover have "take_bit 8 (unat n) = 0"
    using a(3) unat_ucast_byte [of n] by simp
  ultimately show False by (simp add: take_bit_nat_eq_self)
qed

lemma sodb_of_sei_nalu:
  assumes "wire_sei sei"
  shows "copy_ebsp_to_sodb (6 # emit_sei_payload sei) = Inr (6 # sei_message sei)"
proof -
  let ?T = "emit_variadic_length_int (sei_type sei)"
  let ?S = "emit_variadic_length_int (word_of_nat (length (sei_data sei)))"
  let ?E = "butlast (copy_sodb_to_ebsp (sei_data sei))"
  have nz: "\<not> zero_run (sei_data sei)" "sei_data sei \<noteq> []"
    using assms start_code_free_no_run by (auto simp: wire_sei_def)
  note l = wire_sei_length [OF assms]
  have t: "sei_type sei < 255 \<or> sei_type sei = 256" using assms by (simp add: wire_sei_def)
  have e: "6 # emit_sei_payload sei = 6 # ?T @ ?S @ ?E @ [0x80]"
    using unescape_payload(1) [OF _ nz, of 1] by (simp add: emit_sei_payload_def)
  have m: "sei_message sei = ?T @ ?S @ sei_data sei"
    by (simp add: sei_message_def emit_variadic_standard(1) t l)
  obtain t0 T' where T: "?T = t0 # T'" using emit_variadic_nonempty by (cases ?T) auto
  have "copy_ebsp_to_sodb ((6 # t0 # (T' @ ?S @ ?E) @ [0x80]) @ replicate 0 0)
      = Inr (6 # t0 # unescape 6 t0 (T' @ ?S @ ?E))"
    by (rule copy_from_shapes(3))
  moreover have "unescape 6 t0 (T' @ ?S @ ?E) = T' @ ?S @ sei_data sei"
    using emit_variadic_standard(3) [OF t] emit_variadic_standard(3) [OF l(2)] l(3) T
      unescape_payload(2) [OF _ nz] ucast_nonzero [of "word_of_nat (length (sei_data sei))"]
    by (auto simp: word_gt_0)
  ultimately show ?thesis by (simp add: e m T)
qed

lemma length_sei_nalu:
  assumes "wire_sei sei"
  shows "1 + sei_payload_size_hint sei = word_of_nat (length (6 # emit_sei_payload sei))"
    and "length (6 # emit_sei_payload sei) < 800"
proof -
  let ?d = "sei_data sei"
  note l = wire_sei_length [OF assms]
  have t: "sei_type sei < 255 \<or> sei_type sei = 256" using assms by (simp add: wire_sei_def)
  have d: "?d \<noteq> []" "length ?d < 2 ^ 32" "start_code_free ?d" "length ?d \<le> 256"
    using assms by (auto simp: wire_sei_def)
  have e: "length (copy_sodb_to_ebsp ?d) = length ?d + unat (count_emulation_prevention_bytes ?d) + 1"
    using length_copy_sodb_iff [OF d(1,2)] d(3) by simp
  then have w: "(word_of_nat (length (copy_sodb_to_ebsp ?d)) :: u32)
      = word_of_nat (length ?d) + count_emulation_prevention_bytes ?d + 1"
    by simp
  show "1 + sei_payload_size_hint sei = word_of_nat (length (6 # emit_sei_payload sei))"
    by (simp add: sei_payload_size_hint_def emit_sei_payload_def w emit_variadic_standard(2) t l algebra_simps)
  have "unat (count_emulation_prevention_bytes ?d) \<le> length ?d"
  proof (cases "length ?d \<le> 2")
    case True
    then show ?thesis by (simp add: count_emulation_prevention_bytes_def)
  next
    case False
    have "length (drop 2 ?d) < 2 ^ 32" using d(2) by simp
    then have "unat (count_window (?d ! 0) (?d ! 1) (drop 2 ?d)) \<le> length (drop 2 ?d)"
      using count_window_inserted by blast
    then have "unat (count_window (?d ! 0) (?d ! 1) (drop 2 ?d)) \<le> length ?d"
      using length_drop [of 2 ?d] by linarith
    with False show ?thesis by (simp add: count_emulation_prevention_bytes_def)
  qed
  moreover have "length (emit_variadic_length_int (sei_type sei)) \<le> 2"
    and "length (emit_variadic_length_int (word_of_nat (length ?d))) \<le> 2"
    using emit_variadic_standard(3) [OF t] emit_variadic_standard(3) [OF l(2)] by auto
  ultimately show "length (6 # emit_sei_payload sei) < 800"
    using d(4) by (simp add: emit_sei_payload_def e)
qed

lemma sei_nalu_type_byte: "SEI_NALU_TYPE_BYTE = 6"
  by code_simp

lemma emit_single_sei:
  assumes "wire_sei sei"
  shows "emit_sei_payloads_to_avcc_nalu im [sei] = Inr (avcc_nalu (6 # emit_sei_payload sei))"
proof -
  have "length (6 # emit_sei_payload sei) \<le> MAX_LENGTH"
    using length_sei_nalu(2) [OF assms] by (simp add: MAX_LENGTH_def)
  then have "unat (1 + sei_payload_size_hint sei) < MAX_LENGTH"
    using length_sei_nalu [OF assms] by (simp only: unat_nalu_length) (simp add: MAX_LENGTH_def)
  then show ?thesis
    by (simp add: emit_sei_payloads_to_avcc_nalu_def emit_nalu_length_def length_sei_nalu(1) [OF assms]
        avcc_nalu_def write_32_bytes sei_nalu_type_byte del: of_nat_Suc list.size)
qed

text \<open>
  A NALU emitted for one payload without escape sequences and of a supported length is well
  framed, is a SEI NALU, and reads back as this payload.
\<close>

theorem single_sei_nalu_roundtrip:
  assumes "wire_sei sei"
  shows "emit_sei_payloads_to_avcc_nalu im [sei] = Inr (avcc_nalu (6 # emit_sei_payload sei)) \<and>
    ok_nalu (6 # emit_sei_payload sei) \<and>
    nalu_get_type im (6 # emit_sei_payload sei) = Inr Nalu_SEI \<and>
    copy_ebsp_to_sodb (6 # emit_sei_payload sei) = Inr (6 # sei_message sei) \<and>
    parse_each im sei_parser_next (sei_parser_pack im) (\<lambda>x xs. (xs @ [x], None)) (sei_message sei) []
      = Some ([sei], None)"
proof (intro conjI)
  show "emit_sei_payloads_to_avcc_nalu im [sei] = Inr (avcc_nalu (6 # emit_sei_payload sei))"
    by (rule emit_single_sei [OF assms])
  show "ok_nalu (6 # emit_sei_payload sei)"
    using length_sei_nalu(2) [OF assms] by (simp add: ok_nalu_def MAX_LENGTH_def)
  have "nalu_type_of 6 = Nalu_SEI" by code_simp
  then show "nalu_get_type im (6 # emit_sei_payload sei) = Inr Nalu_SEI"
    by (simp add: nalu_get_type_def slice_front_def slice_index_def)
  show "copy_ebsp_to_sodb (6 # emit_sei_payload sei) = Inr (6 # sei_message sei)"
    by (rule sodb_of_sei_nalu [OF assms])
  have "list_all ok_sei [sei]" using assms by (auto simp: ok_sei_def wire_sei_def)
  from sei_codec.parse_each_put [OF this, of im "\<lambda>x xs. (xs @ [x], None)" "[]"]
  show "parse_each im sei_parser_next (sei_parser_pack im) (\<lambda>x xs. (xs @ [x], None)) (sei_message sei) []
      = Some ([sei], None)" by simp
qed

theorem single_sei_nalu_roundtrip_witness:
  "copy_ebsp_to_sodb (6 # emit_sei_payload RESET_SEI) = Inr (6 # sei_message RESET_SEI)"
proof -
  have "wire_sei RESET_SEI" by code_simp
  from single_sei_nalu_roundtrip [OF this, of sample_impl] show ?thesis by blast
qed

text \<open>
  Two payloads in one NALU: every payload is closed with its own stop byte, and the parser takes
  the first of them for the type of the next payload.
\<close>

lemma two_empty_hint: "foldl (\<lambda>x sei. x + sei_payload_size_hint sei) 1 [EMPTY_SEI, EMPTY_SEI] = 53"
  by code_simp

lemma two_empty_bytes:
  "emit_sei_payload EMPTY_SEI = 4 # 23 # sei_data EMPTY_SEI @ [0x80]" "length (sei_data EMPTY_SEI) = 23"
  by code_simp+

lemma two_empty_sodb:
  "copy_ebsp_to_sodb (6 # emit_sei_payload EMPTY_SEI @ emit_sei_payload EMPTY_SEI)
   = Inr (6 # (4 # 23 # sei_data EMPTY_SEI) @ [0x80] @ (4 # 23 # sei_data EMPTY_SEI))"
  by code_simp

text \<open>
  Two payloads in one emitted NALU do not read back: the stop byte behind the first one is taken
  for the type of the second one, and the parser fails.
\<close>

theorem two_sei_payloads_not_read_back:
  "emit_sei_payloads_to_avcc_nalu sample_impl [EMPTY_SEI, EMPTY_SEI]
     = Inr (avcc_nalu (6 # emit_sei_payload EMPTY_SEI @ emit_sei_payload EMPTY_SEI)) \<and>
   copy_ebsp_to_sodb (6 # emit_sei_payload EMPTY_SEI @ emit_sei_payload EMPTY_SEI)
     = Inr (6 # (4 # 23 # sei_data EMPTY_SEI) @ [0x80] @ (4 # 23 # sei_data EMPTY_SEI)) \<and>
   map_option (\<lambda>(seis, e). (map sei_type seis, e))
     (parse_each sample_impl sei_parser_next (sei_parser_pack sample_impl)
       (\<lambda>x xs. (xs @ [x], None)) ((4 # 23 # sei_data EMPTY_SEI) @ [0x80] @ (4 # 23 # sei_data EMPTY_SEI)) [])
   = Some ([4, 128], Some (Parse_Error Malformed_Sei 31 20))"
proof (intro conjI)
  show "emit_sei_payloads_to_avcc_nalu sample_impl [EMPTY_SEI, EMPTY_SEI]
     = Inr (avcc_nalu (6 # emit_sei_payload EMPTY_SEI @ emit_sei_payload EMPTY_SEI))"
    unfolding emit_sei_payloads_to_avcc_nalu_def two_empty_hint
    by (simp add: emit_nalu_length_def avcc_nalu_def write_32_bytes sei_nalu_type_byte two_empty_bytes MAX_LENGTH_def)
  show "map_option (\<lambda>(seis, e). (map sei_type seis, e))
     (parse_each sample_impl sei_parser_next (sei_parser_pack sample_impl)
       (\<lambda>x xs. (xs @ [x], None)) ((4 # 23 # sei_data EMPTY_SEI) @ [0x80] @ (4 # 23 # sei_data EMPTY_SEI)) [])
   = Some ([4, 128], Some (Parse_Error Malformed_Sei 31 20))"
    by code_simp
qed (rule two_empty_sodb)

text \<open>The size hint counts a stop byte for an empty payload; the emitter writes none.\<close>

text \<open>
  For a payload without data one byte more is announced than is emitted.
\<close>

theorem empty_sei_payload_size_announced_long:
  assumes "sei_data sei = []" and "sei_type sei < 255"
  shows "sei_payload_size_hint sei = word_of_nat (length (emit_sei_payload sei)) + 1"
proof -
  have t: "sei_type sei < 255 \<or> sei_type sei = 256" using assms by simp
  show ?thesis
    using assms emit_variadic_standard(2) [OF t] emit_variadic_standard(2) [of 0]
    by (simp add: sei_payload_size_hint_def emit_sei_payload_def copy_to_shapes
        count_emulation_prevention_bytes_def)
qed

theorem empty_sei_payload_size_announced_long_witness:
  "sei_payload_size_hint \<lparr>sei_type = 4, sei_data = []\<rparr>
     = word_of_nat (length (emit_sei_payload \<lparr>sei_type = 4, sei_data = []\<rparr>)) + 1"
  by (rule empty_sei_payload_size_announced_long) simp_all

end
