(* ===== verification/Metadata.thy ===== *)
theory Metadata
  imports Sei Scte35_Data "HOL-Library.Product_Lexorder"
begin

text \<open>
  Metadata entries: \<^verbatim>\<open>src/metadata.h\<close>, the kinds of \<^verbatim>\<open>metadata_kind.h\<close>, and
  the entries that \<^verbatim>\<open>h264/stdseis.cpp\<close> builds.  Timestamps are integers; they stand for
  \<^verbatim>\<open>int64_t\<close> values.
\<close>

type_synonym ts = int
type_synonym input_id = u32

text \<open>
  The kinds are empty classes in the code; \<open>MetadataKindPack\<close> lists the two that carry metadata
  and \<open>StreamClassPack\<close> all three, in the order the packs visit them.
\<close>

datatype kind = Sei_Kind | Scte_Kind | Time_Source_Kind

definition kind_name :: "kind \<Rightarrow> string" where
  "kind_name k = (case k of Scte_Kind \<Rightarrow> ''SCTE35'' | Sei_Kind \<Rightarrow> ''SEICC'' | Time_Source_Kind \<Rightarrow> ''TS'')"

definition kind_description :: "kind \<Rightarrow> string" where
  "kind_description k = (case k of Scte_Kind \<Rightarrow> ''SCTE-35''
     | Sei_Kind \<Rightarrow> ''H.264 with 608/708 SEI'' | Time_Source_Kind \<Rightarrow> ''System Time Source'')"

definition api_name :: "kind \<Rightarrow> string" where
  "api_name k = (case k of Scte_Kind \<Rightarrow> ''adMarker''
     | Sei_Kind \<Rightarrow> ''closedCaption'' | Time_Source_Kind \<Rightarrow> ''timeSource'')"

definition MetadataKindPack :: "kind list" where
  "MetadataKindPack = [Sei_Kind, Scte_Kind]"

definition StreamClassPack :: "kind list" where
  "StreamClassPack = [Time_Source_Kind, Sei_Kind, Scte_Kind]"

record 'v metadata =
  md_input_id :: input_id
  md_pts :: ts
  md_dts :: ts
  md_order :: int
  md_val :: 'v

definition INT_MAX :: int where "INT_MAX = 2 ^ 31 - 1"
definition INT_MIN :: int where "INT_MIN = - (2 ^ 31)"

definition build_empty_metadata :: "input_id \<Rightarrow> ts \<Rightarrow> sei_payload metadata" where
  "build_empty_metadata i t = \<lparr>md_input_id = i, md_pts = t, md_dts = t, md_order = INT_MAX, md_val = EMPTY_SEI\<rparr>"

definition build_cc_reset_metadata :: "input_id \<Rightarrow> ts \<Rightarrow> sei_payload metadata" where
  "build_cc_reset_metadata i t = \<lparr>md_input_id = i, md_pts = t, md_dts = t, md_order = INT_MIN, md_val = RESET_SEI\<rparr>"

text \<open>The order of the queue: timestamp, then input, then the order within the input.\<close>

definition meta_key :: "'v metadata \<Rightarrow> int \<times> u32 \<times> int" where
  "meta_key m = (md_pts m, md_input_id m, md_order m)"

definition comparator :: "'v metadata \<Rightarrow> 'v metadata \<Rightarrow> bool" where
  "comparator lhs rhs =
     (if md_pts lhs = md_pts rhs then
        (if md_input_id lhs = md_input_id rhs then md_order lhs > md_order rhs
         else md_input_id lhs > md_input_id rhs)
      else md_pts lhs > md_pts rhs)"

lemma comparator_key: "comparator a b \<longleftrightarrow> meta_key b < meta_key a"
  by (auto simp: comparator_def meta_key_def)

lemma meta_key_le_pts: "meta_key a \<le> meta_key b \<Longrightarrow> md_pts a \<le> md_pts b"
  by (auto simp: meta_key_def)

text \<open>
  The two fixed payloads are well formed caption data: the count in the user data structure is
  the number of three-byte packets that follow, and the end marker comes right after them.
\<close>

definition cc_count :: "u8 list \<Rightarrow> nat" where
  "cc_count d = unat (d ! 8 AND 0x1F)"

lemma fixed_sei_shape:
  "length (sei_data EMPTY_SEI) = 10 + 3 * cc_count (sei_data EMPTY_SEI) + 1"
  "length (sei_data RESET_SEI) = 10 + 3 * cc_count (sei_data RESET_SEI) + 1"
  "last (sei_data EMPTY_SEI) = 0xFF" "last (sei_data RESET_SEI) = 0xFF"
  by code_simp+

end
