(* ===== verification/Scte35_Equality.thy ===== *)
theory Scte35_Equality
  imports Scte35_Data Metadata
begin

text \<open>
  The comparison operators of \<^verbatim>\<open>src/scte35/scte35.h\<close> and \<^verbatim>\<open>metadata.h\<close>, written out
  field by field as the code does.  The rest of the library compares with the equality of the
  records; this theory shows that the operators forget no field.
\<close>

section \<open>The library's operators\<close>

text \<open>Optionals and vectors compare with the operator of their values.\<close>

definition optional_eq :: "('a \<Rightarrow> 'a \<Rightarrow> bool) \<Rightarrow> 'a option \<Rightarrow> 'a option \<Rightarrow> bool" where
  "optional_eq eq x y = (case (x, y) of (Some a, Some b) \<Rightarrow> eq a b | (None, None) \<Rightarrow> True | _ \<Rightarrow> False)"

definition vector_eq :: "('a \<Rightarrow> 'a \<Rightarrow> bool) \<Rightarrow> 'a list \<Rightarrow> 'a list \<Rightarrow> bool" where
  "vector_eq eq xs ys = (length xs = length ys \<and> list_all (\<lambda>(x, y). eq x y) (zip xs ys))"

text \<open>\<^verbatim>\<open>operator!=\<close> of every struct.\<close>

definition differs :: "('a \<Rightarrow> 'a \<Rightarrow> bool) \<Rightarrow> 'a \<Rightarrow> 'a \<Rightarrow> bool" where
  "differs eq this rhs = (\<not> eq rhs this)"

locale equality =
  fixes eq :: "'a \<Rightarrow> 'a \<Rightarrow> bool"
  assumes eq_iff: "eq x y \<longleftrightarrow> x = y"
begin

lemma optional: "optional_eq eq x y \<longleftrightarrow> x = y"
  by (simp add: optional_eq_def eq_iff split: option.split)

lemma vector: "vector_eq eq xs ys \<longleftrightarrow> xs = ys"
  by (auto simp: vector_eq_def eq_iff list_all_iff list_eq_iff_zip_eq)

lemma unequal: "differs eq x y \<longleftrightarrow> x \<noteq> y"
  by (auto simp: differs_def eq_iff)

end

interpretation plain: equality "(=)" by unfold_locales simp

named_theorems comparisons \<open>operators that are equality\<close>

lemmas [comparisons] = plain.optional plain.vector

section \<open>The operators of the structs\<close>

definition splice_time_eq :: "splice_time \<Rightarrow> splice_time \<Rightarrow> bool" where
  "splice_time_eq s t = (
     optional_eq (=) (pts_time s) (pts_time t))"

interpretation splice_time: equality splice_time_eq
  by unfold_locales (auto simp: splice_time_eq_def comparisons intro: splice_time.equality)

lemmas [comparisons] = splice_time.eq_iff splice_time.optional splice_time.vector

definition break_duration_eq :: "break_duration \<Rightarrow> break_duration \<Rightarrow> bool" where
  "break_duration_eq s t = (
     bd_auto_return s = bd_auto_return t \<and>
     bd_duration s = bd_duration t)"

interpretation break_duration: equality break_duration_eq
  by unfold_locales (auto simp: break_duration_eq_def comparisons intro: break_duration.equality)

lemmas [comparisons] = break_duration.eq_iff break_duration.optional break_duration.vector

definition ss_component_eq :: "ss_component \<Rightarrow> ss_component \<Rightarrow> bool" where
  "ss_component_eq s t = (
     ssc_component_tag s = ssc_component_tag t \<and>
     ssc_utc_splice_time s = ssc_utc_splice_time t)"

interpretation ss_component: equality ss_component_eq
  by unfold_locales (auto simp: ss_component_eq_def comparisons intro: ss_component.equality)

lemmas [comparisons] = ss_component.eq_iff ss_component.optional ss_component.vector

text \<open>Variants: the same alternative with equal values.\<close>

definition program_splice_on_eq :: "u32 \<Rightarrow> u32 \<Rightarrow> bool" where
  "program_splice_on_eq s t = (s = t)"

definition program_splice_off_eq :: "ss_component list \<Rightarrow> ss_component list \<Rightarrow> bool" where
  "program_splice_off_eq s t = vector_eq ss_component_eq s t"

lemma program_splice_eqs [comparisons]:
  "program_splice_on_eq s t \<longleftrightarrow> s = t" "program_splice_off_eq cs ds \<longleftrightarrow> cs = ds"
  by (simp_all add: program_splice_on_eq_def program_splice_off_eq_def comparisons)

definition program_splice_eq :: "program_splice \<Rightarrow> program_splice \<Rightarrow> bool" where
  "program_splice_eq s t = (case (s, t) of
      (Program_Splice_On a, Program_Splice_On b) \<Rightarrow> program_splice_on_eq a b
    | (Program_Splice_Off a, Program_Splice_Off b) \<Rightarrow> program_splice_off_eq a b
    | _ \<Rightarrow> False)"

interpretation program_splice: equality program_splice_eq
  by unfold_locales (simp add: program_splice_eq_def comparisons split: program_splice.split)

lemmas [comparisons] = program_splice.eq_iff program_splice.vector

definition ss_cancel_off_eq :: "ss_cancel_off \<Rightarrow> ss_cancel_off \<Rightarrow> bool" where
  "ss_cancel_off_eq s t = (
     ss_out_of_network s = ss_out_of_network t \<and>
     program_splice_eq (ss_splice s) (ss_splice t) \<and>
     optional_eq break_duration_eq (ss_break_duration s) (ss_break_duration t) \<and>
     ss_unique_program_id s = ss_unique_program_id t \<and>
     ss_avail_num s = ss_avail_num t \<and>
     ss_avails_expected s = ss_avails_expected t)"

interpretation ss_cancel_off: equality ss_cancel_off_eq
  by unfold_locales (auto simp: ss_cancel_off_eq_def comparisons intro: ss_cancel_off.equality)

lemmas [comparisons] = ss_cancel_off.eq_iff ss_cancel_off.optional ss_cancel_off.vector

definition ss_event_eq :: "ss_event \<Rightarrow> ss_event \<Rightarrow> bool" where
  "ss_event_eq s t = (
     sse_id s = sse_id t \<and>
     optional_eq ss_cancel_off_eq (sse_more s) (sse_more t))"

interpretation ss_event: equality ss_event_eq
  by unfold_locales (auto simp: ss_event_eq_def comparisons intro: ss_event.equality)

lemmas [comparisons] = ss_event.eq_iff ss_event.optional ss_event.vector

definition splice_schedule_eq :: "splice_schedule \<Rightarrow> splice_schedule \<Rightarrow> bool" where
  "splice_schedule_eq s t = (
     vector_eq ss_event_eq (ss_events s) (ss_events t))"

interpretation splice_schedule: equality splice_schedule_eq
  by unfold_locales (auto simp: splice_schedule_eq_def comparisons intro: splice_schedule.equality)

lemmas [comparisons] = splice_schedule.eq_iff splice_schedule.optional splice_schedule.vector

definition si_component_eq :: "si_component \<Rightarrow> si_component \<Rightarrow> bool" where
  "si_component_eq s t = (
     sic_component_tag s = sic_component_tag t \<and>
     optional_eq splice_time_eq (sic_splice_time s) (sic_splice_time t))"

interpretation si_component: equality si_component_eq
  by unfold_locales (auto simp: si_component_eq_def comparisons intro: si_component.equality)

lemmas [comparisons] = si_component.eq_iff si_component.optional si_component.vector

definition si_cancel_off_eq :: "si_cancel_off \<Rightarrow> si_cancel_off \<Rightarrow> bool" where
  "si_cancel_off_eq s t = (
     si_out_of_network s = si_out_of_network t \<and>
     si_program_splice s = si_program_splice t \<and>
     si_splice_immediate s = si_splice_immediate t \<and>
     optional_eq splice_time_eq (si_splice_time s) (si_splice_time t) \<and>
     optional_eq (vector_eq si_component_eq) (si_components s) (si_components t) \<and>
     optional_eq break_duration_eq (si_break_duration s) (si_break_duration t) \<and>
     si_unique_program_id s = si_unique_program_id t \<and>
     si_avail_num s = si_avail_num t \<and>
     si_avails_expected s = si_avails_expected t)"

interpretation si_components: equality "vector_eq si_component_eq"
  by unfold_locales (simp add: comparisons)

lemmas [comparisons] = si_components.optional

interpretation si_cancel_off: equality si_cancel_off_eq
  by unfold_locales (auto simp: si_cancel_off_eq_def comparisons intro: si_cancel_off.equality)

lemmas [comparisons] = si_cancel_off.eq_iff si_cancel_off.optional si_cancel_off.vector

definition splice_insert_eq :: "splice_insert \<Rightarrow> splice_insert \<Rightarrow> bool" where
  "splice_insert_eq s t = (
     si_id s = si_id t \<and>
     optional_eq si_cancel_off_eq (si_more s) (si_more t))"

interpretation splice_insert: equality splice_insert_eq
  by unfold_locales (auto simp: splice_insert_eq_def comparisons intro: splice_insert.equality)

lemmas [comparisons] = splice_insert.eq_iff splice_insert.optional splice_insert.vector

definition time_signal_eq :: "time_signal \<Rightarrow> time_signal \<Rightarrow> bool" where
  "time_signal_eq s t = (
     splice_time_eq (tsig_splice_time s) (tsig_splice_time t))"

interpretation time_signal: equality time_signal_eq
  by unfold_locales (auto simp: time_signal_eq_def comparisons intro: time_signal.equality)

lemmas [comparisons] = time_signal.eq_iff time_signal.optional time_signal.vector

definition private_command_eq :: "private_command \<Rightarrow> private_command \<Rightarrow> bool" where
  "private_command_eq s t = (
     pc_identifier s = pc_identifier t \<and>
     vector_eq (=) (pc_bytes s) (pc_bytes t))"

interpretation private_command: equality private_command_eq
  by unfold_locales (auto simp: private_command_eq_def comparisons intro: private_command.equality)

lemmas [comparisons] = private_command.eq_iff private_command.optional private_command.vector

text \<open>The structs without fields.\<close>

definition splice_null_eq :: bool where
  "splice_null_eq = True"

definition bandwidth_reservation_eq :: bool where
  "bandwidth_reservation_eq = True"

lemmas [comparisons] = splice_null_eq_def bandwidth_reservation_eq_def

definition command_eq :: "command \<Rightarrow> command \<Rightarrow> bool" where
  "command_eq s t = (case (s, t) of
      (Splice_Null, Splice_Null) \<Rightarrow> splice_null_eq
    | (Splice_Schedule a, Splice_Schedule b) \<Rightarrow> splice_schedule_eq a b
    | (Splice_Insert a, Splice_Insert b) \<Rightarrow> splice_insert_eq a b
    | (Time_Signal a, Time_Signal b) \<Rightarrow> time_signal_eq a b
    | (Bandwidth_Reservation, Bandwidth_Reservation) \<Rightarrow> bandwidth_reservation_eq
    | (Private_Command a, Private_Command b) \<Rightarrow> private_command_eq a b
    | _ \<Rightarrow> False)"

interpretation command: equality command_eq
  by unfold_locales (simp add: command_eq_def comparisons split: command.split)

lemmas [comparisons] = command.eq_iff command.vector

definition avail_descriptor_eq :: "avail_descriptor \<Rightarrow> avail_descriptor \<Rightarrow> bool" where
  "avail_descriptor_eq s t = (
     provider_avail_id s = provider_avail_id t)"

interpretation avail_descriptor: equality avail_descriptor_eq
  by unfold_locales (auto simp: avail_descriptor_eq_def comparisons intro: avail_descriptor.equality)

lemmas [comparisons] = avail_descriptor.eq_iff avail_descriptor.optional avail_descriptor.vector

definition dtmf_descriptor_eq :: "dtmf_descriptor \<Rightarrow> dtmf_descriptor \<Rightarrow> bool" where
  "dtmf_descriptor_eq s t = (
     dtmf_preroll s = dtmf_preroll t \<and>
     vector_eq (=) (dtmf_chars s) (dtmf_chars t))"

interpretation dtmf_descriptor: equality dtmf_descriptor_eq
  by unfold_locales (auto simp: dtmf_descriptor_eq_def comparisons intro: dtmf_descriptor.equality)

lemmas [comparisons] = dtmf_descriptor.eq_iff dtmf_descriptor.optional dtmf_descriptor.vector

definition segmentation_descriptor_eq :: "segmentation_descriptor \<Rightarrow> segmentation_descriptor \<Rightarrow> bool" where
  "segmentation_descriptor_eq s t = (
     vector_eq (=) (seg_data s) (seg_data t))"

interpretation segmentation_descriptor: equality segmentation_descriptor_eq
  by unfold_locales (auto simp: segmentation_descriptor_eq_def comparisons intro: segmentation_descriptor.equality)

lemmas [comparisons] = segmentation_descriptor.eq_iff segmentation_descriptor.optional segmentation_descriptor.vector

definition time_descriptor_eq :: "time_descriptor \<Rightarrow> time_descriptor \<Rightarrow> bool" where
  "time_descriptor_eq s t = (
     tai_seconds s = tai_seconds t \<and>
     tai_nanoseconds s = tai_nanoseconds t \<and>
     utc_offset s = utc_offset t)"

interpretation time_descriptor: equality time_descriptor_eq
  by unfold_locales (auto simp: time_descriptor_eq_def comparisons intro: time_descriptor.equality)

lemmas [comparisons] = time_descriptor.eq_iff time_descriptor.optional time_descriptor.vector

definition descriptor_eq :: "descriptor \<Rightarrow> descriptor \<Rightarrow> bool" where
  "descriptor_eq s t = (case (s, t) of
      (Avail_Descriptor a, Avail_Descriptor b) \<Rightarrow> avail_descriptor_eq a b
    | (Dtmf_Descriptor a, Dtmf_Descriptor b) \<Rightarrow> dtmf_descriptor_eq a b
    | (Segmentation_Descriptor a, Segmentation_Descriptor b) \<Rightarrow> segmentation_descriptor_eq a b
    | (Time_Descriptor a, Time_Descriptor b) \<Rightarrow> time_descriptor_eq a b
    | _ \<Rightarrow> False)"

interpretation descriptor: equality descriptor_eq
  by unfold_locales (simp add: descriptor_eq_def comparisons split: descriptor.split)

lemmas [comparisons] = descriptor.eq_iff descriptor.vector

definition splice_info_section_eq :: "splice_info_section \<Rightarrow> splice_info_section \<Rightarrow> bool" where
  "splice_info_section_eq s t = (
     encrypted_packet s = encrypted_packet t \<and>
     encryption_algorithm s = encryption_algorithm t \<and>
     pts_adjustment s = pts_adjustment t \<and>
     cw_index s = cw_index t \<and>
     tier s = tier t \<and>
     command_eq (command s) (command t) \<and>
     vector_eq descriptor_eq (descriptors s) (descriptors t))"

interpretation splice_info_section: equality splice_info_section_eq
  by unfold_locales (auto simp: splice_info_section_eq_def comparisons intro: splice_info_section.equality)

lemmas [comparisons] = splice_info_section.eq_iff splice_info_section.optional splice_info_section.vector

text \<open>An entry compares the values it points to, not the pointers.\<close>

definition metadata_eq :: "('v \<Rightarrow> 'v \<Rightarrow> bool) \<Rightarrow> 'v metadata \<Rightarrow> 'v metadata \<Rightarrow> bool" where
  "metadata_eq veq s t = (
     md_input_id s = md_input_id t \<and>
     md_pts s = md_pts t \<and>
     md_dts s = md_dts t \<and>
     md_order s = md_order t \<and>
     veq (md_val s) (md_val t))"

lemma metadata_equality: "equality veq \<Longrightarrow> equality (metadata_eq veq)"
  by (auto simp: equality_def metadata_eq_def intro: metadata.equality)

section \<open>They are equality\<close>

text \<open>
  The comparison operators of sections and of entries, which compare field by field, are
  equality and its negation.
\<close>

theorem comparison_is_equality:
  "(splice_info_section_eq s t \<longleftrightarrow> s = t) \<and> (differs splice_info_section_eq s t \<longleftrightarrow> s \<noteq> t) \<and>
   (metadata_eq splice_info_section_eq m n \<longleftrightarrow> m = n) \<and> (differs (metadata_eq splice_info_section_eq) m n \<longleftrightarrow> m \<noteq> n)"
  using equality.eq_iff [OF metadata_equality [OF splice_info_section.equality_axioms]]
    equality.unequal [OF metadata_equality [OF splice_info_section.equality_axioms]]
  by (simp add: comparisons splice_info_section.unequal)

end
