(* ===== verification/Std_Heap.thy ===== *)
theory Std_Heap
  imports Prelude "HOL-Library.Multiset"
begin

text \<open>
  The heap algorithms of the C++ standard library that \<^verbatim>\<open>src/metadata_queue.h\<close> calls:
  what the standard promises of them, as a locale, and the algorithms themselves in the form of
  the GNU library, which keep that promise.  The order is given by a key: \<open>cmp a b\<close> says that
  the key of \<open>b\<close> is below that of \<open>a\<close>, so the front of a heap has the smallest key.
\<close>

definition is_heap :: "('a \<Rightarrow> 'a \<Rightarrow> bool) \<Rightarrow> 'a list \<Rightarrow> bool" where
  "is_heap cmp v \<longleftrightarrow> list_all (\<lambda>i. \<not> cmp (v ! ((i - 1) div 2)) (v ! i)) [1..<length v]"

locale std_heap =
  fixes key :: "'a \<Rightarrow> 'k :: linorder"
    and cmp :: "'a \<Rightarrow> 'a \<Rightarrow> bool"
    and push_heap pop_heap make_heap :: "'a list \<Rightarrow> 'a list"
  assumes cmp_key: "cmp a b \<longleftrightarrow> key b < key a"
    and push_heap_heap: "is_heap cmp v \<Longrightarrow> is_heap cmp (push_heap (v @ [x]))"
    and push_heap_mset: "mset (push_heap v) = mset v"
    and pop_heap_last: "is_heap cmp v \<Longrightarrow> v \<noteq> [] \<Longrightarrow> last (pop_heap v) = hd v"
    and pop_heap_heap: "is_heap cmp v \<Longrightarrow> v \<noteq> [] \<Longrightarrow> is_heap cmp (butlast (pop_heap v))"
    and pop_heap_mset: "mset (pop_heap v) = mset v"
    and make_heap_heap: "is_heap cmp (make_heap v)"
    and make_heap_mset: "mset (make_heap v) = mset v"
begin

lemma is_heap_key:
  "is_heap cmp v \<longleftrightarrow> (\<forall>i. 0 < i \<and> i < length v \<longrightarrow> key (v ! ((i - 1) div 2)) \<le> key (v ! i))"
  by (auto simp: is_heap_def list_all_iff cmp_key not_less Suc_le_eq)

lemma front_least: "is_heap cmp v \<Longrightarrow> i < length v \<Longrightarrow> key (v ! 0) \<le> key (v ! i)"
proof (induction i rule: less_induct)
  case (less i)
  show ?case
  proof (cases "i = 0")
    case False
    then have "(i - 1) div 2 < i" by simp
    moreover from this have "(i - 1) div 2 < length v" using less.prems(2) by simp
    ultimately have "key (v ! 0) \<le> key (v ! ((i - 1) div 2))" using less by blast
    also have "\<dots> \<le> key (v ! i)" using less.prems False by (simp add: is_heap_key)
    finally show ?thesis .
  qed simp
qed

lemma front_least_mset: "is_heap cmp v \<Longrightarrow> x \<in># mset v \<Longrightarrow> key (hd v) \<le> key x"
  using front_least by (cases v) (force simp: in_set_conv_nth)+

lemma push_mset: "mset (push_heap (v @ [x])) = add_mset x (mset v)"
  by (simp add: push_heap_mset)

lemma pop_mset:
  assumes "is_heap cmp v" and "v \<noteq> []"
  shows "mset v = add_mset (hd v) (mset (butlast (pop_heap v)))"
proof -
  have "pop_heap v \<noteq> []" using pop_heap_mset [of v] assms(2) by (metis mset_zero_iff)
  then have "pop_heap v = butlast (pop_heap v) @ [hd v]"
    using pop_heap_last [OF assms] append_butlast_last_id by metis
  then have "mset (pop_heap v) = add_mset (hd v) (mset (butlast (pop_heap v)))"
    by (metis mset_append mset.simps union_mset_add_mset_right add_0_right)
  then show ?thesis by (simp add: pop_heap_mset)
qed

lemma pop_shorter: "v \<noteq> [] \<Longrightarrow> length (butlast (pop_heap v)) < length v"
  using pop_heap_mset [of v] by (metis length_butlast diff_less length_greater_0_conv mset_eq_length zero_less_one)

lemma empty_heap: "is_heap cmp []"
  by (simp add: is_heap_def)

end

section \<open>The algorithms\<close>

text \<open>\<^verbatim>\<open>__push_heap\<close>: the value moves up from the hole.\<close>

function sift_up :: "('a \<Rightarrow> 'a \<Rightarrow> bool) \<Rightarrow> nat \<Rightarrow> nat \<Rightarrow> 'a \<Rightarrow> 'a list \<Rightarrow> 'a list" where
  "sift_up cmp root hole x v =
     (if hole > root \<and> cmp (v ! ((hole - 1) div 2)) x
      then sift_up cmp root ((hole - 1) div 2) x (v[hole := v ! ((hole - 1) div 2)])
      else v[hole := x])"
  by pat_completeness auto
termination by (relation "measure (\<lambda>(cmp, root, hole, x, v). hole)") auto

declare sift_up.simps [simp del]

definition push_heap :: "('a \<Rightarrow> 'a \<Rightarrow> bool) \<Rightarrow> 'a list \<Rightarrow> 'a list" where
  "push_heap cmp v = (if v = [] then [] else sift_up cmp 0 (length v - 1) (last v) v)"

text \<open>\<^verbatim>\<open>__adjust_heap\<close>: the hole moves down along the better children, then the value moves up.\<close>

function adjust_heap :: "('a \<Rightarrow> 'a \<Rightarrow> bool) \<Rightarrow> nat \<Rightarrow> nat \<Rightarrow> 'a \<Rightarrow> 'a list \<Rightarrow> 'a list" where
  "adjust_heap cmp root hole x v =
     (if 2 * hole + 2 < length v then
        (let child = if cmp (v ! (2 * hole + 2)) (v ! (2 * hole + 1)) then 2 * hole + 1 else 2 * hole + 2
         in adjust_heap cmp root child x (v[hole := v ! child]))
      else if 2 * hole + 2 = length v then
        sift_up cmp root (2 * hole + 1) x (v[hole := v ! (2 * hole + 1)])
      else sift_up cmp root hole x v)"
  by pat_completeness auto
termination
  by (relation "measure (\<lambda>(cmp, root, hole, x, v). length v - hole)") (auto simp: Let_def)

declare adjust_heap.simps [simp del]

definition pop_heap :: "('a \<Rightarrow> 'a \<Rightarrow> bool) \<Rightarrow> 'a list \<Rightarrow> 'a list" where
  "pop_heap cmp v =
     (if length v > 1 then adjust_heap cmp 0 0 (last v) (butlast v) @ [hd v] else v)"

fun make_heap_from :: "('a \<Rightarrow> 'a \<Rightarrow> bool) \<Rightarrow> nat \<Rightarrow> 'a list \<Rightarrow> 'a list" where
  "make_heap_from cmp 0 v = v"
| "make_heap_from cmp (Suc p) v = make_heap_from cmp p (adjust_heap cmp p p (v ! p) v)"

definition make_heap :: "('a \<Rightarrow> 'a \<Rightarrow> bool) \<Rightarrow> 'a list \<Rightarrow> 'a list" where
  "make_heap cmp v = make_heap_from cmp (length v div 2) v"

section \<open>The algorithms keep the promise\<close>

text \<open>\<open>hole\<close> lies in the subtree of \<open>root\<close>.\<close>

inductive below :: "nat \<Rightarrow> nat \<Rightarrow> bool" for root where
  here: "below root root"
| down: "below root p \<Longrightarrow> (h - 1) div 2 = p \<Longrightarrow> 0 < h \<Longrightarrow> below root h"

lemma below_ge: "below t h \<Longrightarrow> t \<le> h"
  by (induction rule: below.induct) auto

lemma below_parent: "below t h \<Longrightarrow> t < h \<Longrightarrow> below t ((h - 1) div 2)"
  by (cases rule: below.cases) auto

text \<open>All edges from \<open>t\<close> on are in order.\<close>

definition heap_from :: "('a \<Rightarrow> 'k :: linorder) \<Rightarrow> nat \<Rightarrow> 'a list \<Rightarrow> bool" where
  "heap_from key t v \<longleftrightarrow>
     (\<forall>i. 0 < i \<and> i < length v \<and> t \<le> (i - 1) div 2 \<longrightarrow> key (v ! ((i - 1) div 2)) \<le> key (v ! i))"

text \<open>All but the edge into \<open>h\<close>, and across \<open>h\<close> as if it were not there.\<close>

definition heap_above :: "('a \<Rightarrow> 'k :: linorder) \<Rightarrow> nat \<Rightarrow> nat \<Rightarrow> 'a list \<Rightarrow> bool" where
  "heap_above key t h w \<longleftrightarrow>
     (\<forall>i. 0 < i \<and> i < length w \<and> t \<le> (i - 1) div 2 \<and> i \<noteq> h \<longrightarrow> key (w ! ((i - 1) div 2)) \<le> key (w ! i)) \<and>
     (t < h \<longrightarrow> (\<forall>c. 0 < c \<and> c < length w \<and> (c - 1) div 2 = h \<longrightarrow> key (w ! ((h - 1) div 2)) \<le> key (w ! c)))"

text \<open>All but the edges at the hole \<open>h\<close>, and across it.\<close>

definition heap_around :: "('a \<Rightarrow> 'k :: linorder) \<Rightarrow> nat \<Rightarrow> nat \<Rightarrow> 'a list \<Rightarrow> bool" where
  "heap_around key t h v \<longleftrightarrow>
     (\<forall>i. 0 < i \<and> i < length v \<and> t \<le> (i - 1) div 2 \<and> i \<noteq> h \<and> (i - 1) div 2 \<noteq> h
        \<longrightarrow> key (v ! ((i - 1) div 2)) \<le> key (v ! i)) \<and>
     (t < h \<longrightarrow> (\<forall>c. 0 < c \<and> c < length v \<and> (c - 1) div 2 = h \<longrightarrow> key (v ! ((h - 1) div 2)) \<le> key (v ! c)))"

lemma parent_less: "0 < i \<Longrightarrow> (i - 1) div 2 < (i :: nat)"
  by simp

lemma mset_move_hole:
  assumes "h < length v" and "s < length v"
  shows "mset ((v[h := v ! s])[s := x]) = mset (v[h := x])"
proof (cases "h = s")
  case False
  have "(v[h := v ! s])[s := x] = (v[h := x])[h := v[h := x] ! s, s := v[h := x] ! h]"
    using assms False by (simp add: list_update_swap)
  then show ?thesis using mset_swap [of s "v[h := x]" h] assms by simp
qed simp

lemma sift_up_heap:
  assumes cmp: "\<And>a b. cmp a b \<longleftrightarrow> key b < key a"
  shows "h < length v \<Longrightarrow> below t h \<Longrightarrow> heap_above key t h (v[h := x]) \<Longrightarrow>
    heap_from key t (sift_up cmp t h x v) \<and> mset (sift_up cmp t h x v) = mset (v[h := x])"
proof (induction h arbitrary: v rule: less_induct)
  case (less h)
  let ?p = "(h - 1) div 2"
  let ?w = "v[h := x]"
  have th: "t \<le> h" using less.prems(2) by (rule below_ge)
  show ?case
  proof (cases "t < h \<and> cmp (v ! ?p) x")
    case False
    have "heap_from key t ?w"
      unfolding heap_from_def
    proof (intro allI impI)
      fix i assume i: "0 < i \<and> i < length ?w \<and> t \<le> (i - 1) div 2"
      show "key (?w ! ((i - 1) div 2)) \<le> key (?w ! i)"
      proof (cases "i = h")
        case True
        then have "t < h" using i parent_less [of i] by linarith
        then have "\<not> cmp (v ! ?p) x" using False by simp
        moreover have "?p \<noteq> h" using True i parent_less [of h] by linarith
        ultimately show ?thesis using True less.prems(1) by (simp add: cmp not_less)
      next
        case False
        then show ?thesis using less.prems(3) i by (simp add: heap_above_def)
      qed
    qed
    moreover have "sift_up cmp t h x v = ?w" using False by (subst sift_up.simps) auto
    ultimately show ?thesis by simp
  next
    case True
    then have h0: "0 < h" by simp
    then have ph: "?p < h" by (rule parent_less)
    let ?v = "v[h := v ! ?p]"
    let ?w' = "?v[?p := x]"
    have lt: "key x < key (v ! ?p)" using True by (simp add: cmp)
    have bp: "below t ?p" by (rule below_parent) (use less.prems(2) True in simp_all)
    have tp: "t \<le> ?p" using bp by (rule below_ge)
    have pl: "?p < length v" using ph less.prems(1) by simp
    note ha = less.prems(3) [unfolded heap_above_def]
    have h1: "key (?w ! ((i - 1) div 2)) \<le> key (?w ! i)"
      if "0 < i" "i < length v" "t \<le> (i - 1) div 2" "i \<noteq> h" for i
      using ha that by simp
    have h2: "key (v ! ?p) \<le> key (v ! c)" if "0 < c" "c < length v" "(c - 1) div 2 = h" for c
    proof -
      have "c \<noteq> h" using that parent_less [of c] by linarith
      moreover have "key (?w ! ?p) \<le> key (?w ! c)"
        by (rule ha [THEN conjunct2, rule_format]) (use that True in simp_all)
      ultimately show ?thesis using ph by simp
    qed
    have nw: "?w' ! i = (if i = ?p then x else if i = h then v ! ?p else v ! i)" if "i < length v" for i
      using that pl ph less.prems(1) by (auto simp: nth_list_update)
    have "heap_above key t ?p ?w'"
      unfolding heap_above_def
    proof (intro conjI impI allI)
      fix i assume i: "0 < i \<and> i < length ?w' \<and> t \<le> (i - 1) div 2 \<and> i \<noteq> ?p"
      then have il: "i < length v" and pil: "(i - 1) div 2 < length v"
        using parent_less [of i] by auto
      show "key (?w' ! ((i - 1) div 2)) \<le> key (?w' ! i)"
      proof (cases "i = h")
        case True
        then show ?thesis using nw il pil lt ph by auto
      next
        case ih: False
        have base: "key (?w ! ((i - 1) div 2)) \<le> key (?w ! i)" using h1 i il ih by simp
        show ?thesis
        proof (cases "(i - 1) div 2 = ?p")
          case True
          have "key (v ! ?p) \<le> key (v ! i)" using base True ih ph by simp
          then show ?thesis using nw [OF il] nw [OF pil] True lt ih i by auto
        next
          case pp: False
          show ?thesis
          proof (cases "(i - 1) div 2 = h")
            case True
            have "key (v ! ?p) \<le> key (v ! i)" using h2 i il True by simp
            then show ?thesis using nw [OF il] nw [OF pil] True ih i ph by auto
          next
            case False
            then show ?thesis using base nw [OF il] nw [OF pil] pp ih i by auto
          qed
        qed
      qed
    next
      fix c assume tp': "t < ?p" and c: "0 < c \<and> c < length ?w' \<and> (c - 1) div 2 = ?p"
      let ?g = "(?p - 1) div 2"
      have cl: "c < length v" using c by simp
      have gp: "?g < ?p" using tp' by (intro parent_less) simp
      have gt: "t \<le> ?g" using below_parent [OF bp tp'] by (rule below_ge)
      have e: "key (v ! ?g) \<le> key (v ! ?p)" using h1 [of ?p] gp gt pl ph by simp
      have cp: "c \<noteq> ?p" using c by (metis nat_neq_iff parent_less)
      have gw: "?w' ! ?g = v ! ?g" using nw [of ?g] gp pl ph by auto
      show "key (?w' ! ?g) \<le> key (?w' ! c)"
      proof (cases "c = h")
        case True
        then show ?thesis using e gw nw [OF cl] cp by simp
      next
        case False
        have "key (v ! ?p) \<le> key (v ! c)" using h1 [of c] c cl False tp ph by simp
        then show ?thesis using e gw nw [OF cl] cp False by simp
      qed
    qed
    then have "heap_from key t (sift_up cmp t ?p x ?v) \<and> mset (sift_up cmp t ?p x ?v) = mset ?w'"
      using less.IH [OF ph, of ?v] pl bp by simp
    moreover have "sift_up cmp t h x v = sift_up cmp t ?p x ?v"
      using True by (subst sift_up.simps) simp
    ultimately show ?thesis using mset_move_hole [OF less.prems(1) pl] by simp
  qed
qed

lemma length_sift_up [simp]: "length (sift_up cmp t h x v) = length v"
  by (induction cmp t h x v rule: sift_up.induct) (subst sift_up.simps, simp)

lemma heap_around_leaf:
  assumes "heap_around key t h v" and nochild: "\<And>c. \<not> (0 < c \<and> c < length v \<and> (c - 1) div 2 = h)"
    and "h < length v"
  shows "heap_above key t h (v[h := x])"
  unfolding heap_above_def
proof (intro conjI impI allI)
  fix i assume i: "0 < i \<and> i < length (v[h := x]) \<and> t \<le> (i - 1) div 2 \<and> i \<noteq> h"
  then have "(i - 1) div 2 \<noteq> h" using nochild [of i] by simp
  then show "key (v[h := x] ! ((i - 1) div 2)) \<le> key (v[h := x] ! i)"
    using i assms(1) [unfolded heap_around_def, THEN conjunct1] by simp
next
  fix c assume "0 < c \<and> c < length (v[h := x]) \<and> (c - 1) div 2 = h"
  then show "key (v[h := x] ! ((h - 1) div 2)) \<le> key (v[h := x] ! c)" using nochild [of c] by simp
qed

lemma adjust_heap_heap:
  assumes cmp: "\<And>a b. cmp a b \<longleftrightarrow> key b < key a"
  shows "h < length v \<Longrightarrow> below t h \<Longrightarrow> heap_around key t h v \<Longrightarrow>
    heap_from key t (adjust_heap cmp t h x v) \<and> mset (adjust_heap cmp t h x v) = mset (v[h := x])"
proof (induction "length v - h" arbitrary: h v rule: less_induct)
  case less
  have th: "t \<le> h" using less.prems(2) by (rule below_ge)
  note ar = less.prems(3) [unfolded heap_around_def]
  have ar2: "key (v ! ((h - 1) div 2)) \<le> key (v ! c)"
    if "t < h" "0 < c" "c < length v" "(c - 1) div 2 = h" for c
    using ar [THEN conjunct2] that by simp
  have ar1: "key (v ! ((i - 1) div 2)) \<le> key (v ! i)"
    if "0 < i" "i < length v" "t \<le> (i - 1) div 2" "i \<noteq> h" "(i - 1) div 2 \<noteq> h" for i
    using ar [THEN conjunct1] that by simp
  have step: "heap_around key t s (v[h := v ! s]) \<and> below t s \<and> s < length v \<and> h < s \<and>
      mset ((v[h := v ! s])[s := x]) = mset (v[h := x])"
    if s: "0 < s" "s < length v" "(s - 1) div 2 = h"
      and least: "\<And>c. 0 < c \<Longrightarrow> c < length v \<Longrightarrow> (c - 1) div 2 = h \<Longrightarrow> key (v ! s) \<le> key (v ! c)" for s
  proof -
    let ?v = "v[h := v ! s]"
    have hs: "h < s" using s parent_less by metis
    have nv: "?v ! i = (if i = h then v ! s else v ! i)" if "i < length v" for i
      using that by (simp add: nth_list_update)
    have "heap_around key t s ?v"
      unfolding heap_around_def
    proof (intro conjI impI allI)
      fix i assume i: "0 < i \<and> i < length ?v \<and> t \<le> (i - 1) div 2 \<and> i \<noteq> s \<and> (i - 1) div 2 \<noteq> s"
      then have il: "i < length v" and pil: "(i - 1) div 2 < length v" and pi: "(i - 1) div 2 \<noteq> i"
        using parent_less [of i] by auto
      show "key (?v ! ((i - 1) div 2)) \<le> key (?v ! i)"
      proof (cases "i = h")
        case True
        then have "t < h" using i parent_less [of i] by linarith
        then have "key (v ! ((h - 1) div 2)) \<le> key (v ! s)" using ar2 s by simp
        moreover have "?v ! i = v ! s" and "?v ! ((i - 1) div 2) = v ! ((h - 1) div 2)"
          using nv [OF il] nv [OF pil] True pi by auto
        ultimately show ?thesis by simp
      next
        case ih: False
        show ?thesis
        proof (cases "(i - 1) div 2 = h")
          case True
          then show ?thesis using least i il nv [OF il] nv [OF pil] ih by simp
        next
          case False
          then show ?thesis using ar1 [of i] i il ih nv [OF il] nv [OF pil] by simp
        qed
      qed
    next
      fix c assume c: "0 < c \<and> c < length ?v \<and> (c - 1) div 2 = s"
      have "c \<noteq> h" "c \<noteq> s" using c hs parent_less [of c] by auto
      then have "key (v ! s) \<le> key (v ! c)" using ar1 [of c] c hs th by simp
      then show "key (?v ! ((s - 1) div 2)) \<le> key (?v ! c)" using s c nv \<open>c \<noteq> h\<close> less.prems(1) by simp
    qed
    moreover have "below t s" using less.prems(2) s by (blast intro: below.down)
    ultimately show ?thesis using s hs mset_move_hole [OF less.prems(1) s(2)] by simp
  qed
  consider (two) "2 * h + 2 < length v" | (one) "2 * h + 2 = length v" | (leaf) "length v < 2 * h + 2"
    by linarith
  then show ?case
  proof cases
    case two
    define s where "s = (if cmp (v ! (2 * h + 2)) (v ! (2 * h + 1)) then 2 * h + 1 else 2 * h + 2)"
    have sp: "0 < s" "s < length v" "(s - 1) div 2 = h" using two by (auto simp: s_def)
    have "key (v ! s) \<le> key (v ! c)" if "0 < c" "(c - 1) div 2 = h" for c
    proof -
      have "c = 2 * h + 1 \<or> c = 2 * h + 2" using that by linarith
      then show ?thesis by (auto simp: s_def cmp)
    qed
    with step [OF sp] have st: "heap_around key t s (v[h := v ! s])" "below t s" "h < s"
      "mset ((v[h := v ! s])[s := x]) = mset (v[h := x])" by blast+
    have "adjust_heap cmp t h x v = adjust_heap cmp t s x (v[h := v ! s])"
      using two by (subst adjust_heap.simps) (simp add: s_def Let_def)
    moreover have "length (v[h := v ! s]) - s < length v - h" using st(3) sp(2) by simp
    ultimately show ?thesis using less.hyps [of "v[h := v ! s]" s] st sp(2) by simp
  next
    case one
    let ?s = "2 * h + 1"
    have sp: "0 < ?s" "?s < length v" "(?s - 1) div 2 = h" using one by auto
    have "key (v ! ?s) \<le> key (v ! c)" if "0 < c" "c < length v" "(c - 1) div 2 = h" for c
    proof -
      have "c = ?s" using that one by linarith
      then show ?thesis by simp
    qed
    with step [OF sp] have st: "heap_around key t ?s (v[h := v ! ?s])" "below t ?s"
      "mset ((v[h := v ! ?s])[?s := x]) = mset (v[h := x])" by blast+
    let ?v = "v[h := v ! ?s]"
    have nochild: "\<not> (0 < c \<and> c < length v \<and> (c - 1) div 2 = ?s)" for c using one by arith
    have "heap_above key t ?s (?v[?s := x])"
      by (rule heap_around_leaf [OF st(1)]) (use nochild sp(2) in simp_all)
    then have "heap_from key t (sift_up cmp t ?s x ?v) \<and> mset (sift_up cmp t ?s x ?v) = mset (?v[?s := x])"
      using sift_up_heap [OF cmp, where h = ?s and v = ?v and t = t and x = x] sp st by simp
    moreover have "adjust_heap cmp t h x v = sift_up cmp t ?s x ?v"
      using one by (subst adjust_heap.simps) simp
    ultimately show ?thesis using st(3) by simp
  next
    case leaf
    have nochild: "\<not> (0 < c \<and> c < length v \<and> (c - 1) div 2 = h)" for c using leaf by arith
    have "heap_above key t h (v[h := x])"
      by (rule heap_around_leaf [OF less.prems(3)]) (use nochild less.prems(1) in simp_all)
    then have "heap_from key t (sift_up cmp t h x v) \<and> mset (sift_up cmp t h x v) = mset (v[h := x])"
      using sift_up_heap [OF cmp, where h = h and v = v and t = t and x = x] less.prems by simp
    moreover have "adjust_heap cmp t h x v = sift_up cmp t h x v"
      using leaf by (subst adjust_heap.simps) simp
    ultimately show ?thesis by simp
  qed
qed

lemma below_0: "below 0 n"
proof (induction n rule: less_induct)
  case (less n)
  show ?case
  proof (cases "n = 0")
    case True
    then show ?thesis by (simp add: below.here)
  next
    case False
    then have "below 0 ((n - 1) div 2)" using less by simp
    then show ?thesis using False by (blast intro: below.down)
  qed
qed

lemma is_heap_from: "is_heap (\<lambda>a b. key b < key a) v \<longleftrightarrow> heap_from key 0 v"
  by (auto simp: is_heap_def heap_from_def list_all_iff not_less Suc_le_eq)

lemma push_heap_correct:
  fixes key :: "'a \<Rightarrow> 'k :: linorder"
  assumes "heap_from key 0 v"
  shows "heap_from key 0 (push_heap (\<lambda>a b. key b < key a) (v @ [x]))"
proof -
  have "heap_above key 0 (length v) ((v @ [x])[length v := x])"
    unfolding heap_above_def
  proof (intro conjI impI allI)
    fix i assume i: "0 < i \<and> i < length ((v @ [x])[length v := x]) \<and> 0 \<le> (i - 1) div 2 \<and> i \<noteq> length v"
    then have "i < length v" by simp
    moreover from this have "(i - 1) div 2 < length v" by simp
    ultimately show "key ((v @ [x])[length v := x] ! ((i - 1) div 2)) \<le> key ((v @ [x])[length v := x] ! i)"
      using assms i by (simp add: heap_from_def nth_append)
  next
    fix c assume "0 < c \<and> c < length ((v @ [x])[length v := x]) \<and> (c - 1) div 2 = length v"
    moreover from this have "(c - 1) div 2 < c" by (intro parent_less) simp
    ultimately have False by simp
    then show "key ((v @ [x])[length v := x] ! ((length v - 1) div 2)) \<le> key ((v @ [x])[length v := x] ! c)" ..
  qed
  then have "heap_from key 0 (sift_up (\<lambda>a b. key b < key a) 0 (length v) x (v @ [x]))"
    by (intro sift_up_heap [THEN conjunct1]) (simp_all add: below_0)
  then show ?thesis by (simp add: push_heap_def)
qed

lemma sift_up_mset: "h < length v \<Longrightarrow> mset (sift_up cmp t h x v) = mset (v[h := x])"
proof (induction cmp t h x v rule: sift_up.induct)
  case (1 cmp t h x v)
  show ?case
  proof (cases "t < h \<and> cmp (v ! ((h - 1) div 2)) x")
    case True
    then have l: "(h - 1) div 2 < length v" using 1(2) parent_less [of h] by simp
    have "mset (sift_up cmp t h x v) = mset (sift_up cmp t ((h - 1) div 2) x (v[h := v ! ((h - 1) div 2)]))"
      using True by (subst sift_up.simps) simp
    also have "\<dots> = mset ((v[h := v ! ((h - 1) div 2)])[(h - 1) div 2 := x])"
      using 1(1) True l by simp
    finally show ?thesis using mset_move_hole [OF 1(2) l] by simp
  next
    case False
    then show ?thesis by (subst sift_up.simps) auto
  qed
qed

lemma adjust_heap_mset: "h < length v \<Longrightarrow> mset (adjust_heap cmp t h x v) = mset (v[h := x])"
proof (induction cmp t h x v rule: adjust_heap.induct)
  case (1 cmp t h x v)
  consider (two) "2 * h + 2 < length v" | (one) "2 * h + 2 = length v" | (leaf) "length v < 2 * h + 2"
    by linarith
  then show ?case
  proof cases
    case two
    define s where "s = (if cmp (v ! (2 * h + 2)) (v ! (2 * h + 1)) then 2 * h + 1 else 2 * h + 2)"
    have l: "s < length v" using two by (auto simp: s_def)
    have "adjust_heap cmp t h x v = adjust_heap cmp t s x (v[h := v ! s])"
      using two by (subst adjust_heap.simps) (simp add: s_def Let_def)
    with 1(1) [OF two s_def] l mset_move_hole [OF 1(2) l] show ?thesis by simp
  next
    case one
    then have l: "2 * h + 1 < length v" by simp
    have "adjust_heap cmp t h x v = sift_up cmp t (2 * h + 1) x (v[h := v ! (2 * h + 1)])"
      using one by (subst adjust_heap.simps) simp
    then show ?thesis using l mset_move_hole [OF 1(2) l] by (simp add: sift_up_mset)
  next
    case leaf
    then have "adjust_heap cmp t h x v = sift_up cmp t h x v" by (subst adjust_heap.simps) simp
    then show ?thesis using 1(2) by (simp add: sift_up_mset)
  qed
qed

lemma push_heap_mset: "mset (push_heap cmp v) = mset v"
proof (cases v rule: rev_cases)
  case (snoc ys y)
  then show ?thesis by (simp add: push_heap_def sift_up_mset)
qed (simp add: push_heap_def)

text \<open>A value that comes before all others moves to the front, whether or not they are a heap.\<close>

lemma sift_up_front:
  "h < length v \<Longrightarrow> (\<And>k. k < h \<Longrightarrow> cmp (v ! k) x) \<Longrightarrow> hd (sift_up cmp 0 h x v) = x"
proof (induction cmp "0 :: nat" h x v rule: sift_up.induct)
  case (1 cmp h x v)
  show ?case
  proof (cases "0 < h")
    case True
    then have p: "(h - 1) div 2 < h" by (rule parent_less)
    with 1(3) have c: "cmp (v ! ((h - 1) div 2)) x" by simp
    have "hd (sift_up cmp 0 ((h - 1) div 2) x (v[h := v ! ((h - 1) div 2)])) = x"
      using 1(1) [OF conjI [OF True c]] 1(2,3) p by simp
    with True c show ?thesis by (subst sift_up.simps) simp
  next
    case False
    with 1(2) show ?thesis by (subst sift_up.simps) (cases v; simp)
  qed
qed

lemma push_heap_front: "(\<And>y. y \<in> set v \<Longrightarrow> cmp y x) \<Longrightarrow> hd (push_heap cmp (v @ [x])) = x"
  by (simp add: push_heap_def sift_up_front nth_append)

lemma pop_heap_shape:
  assumes "length v > 1"
  shows "pop_heap cmp v = adjust_heap cmp 0 0 (last v) (butlast v) @ [hd v]"
    and "mset (adjust_heap cmp 0 0 (last v) (butlast v)) + {#hd v#} = mset v"
proof -
  show "pop_heap cmp v = adjust_heap cmp 0 0 (last v) (butlast v) @ [hd v]"
    using assms by (simp add: pop_heap_def)
  obtain a b ws where w: "v = a # b # ws"
    using assms by (cases v rule: remdups_adj.cases) auto
  have "mset (butlast (b # ws)) + {#last (b # ws)#} = mset (b # ws)"
    by (metis append_butlast_last_id list.simps(3) mset_append mset_single_iff_right mset.simps(1) mset.simps(2) add_mset_add_single)
  then show "mset (adjust_heap cmp 0 0 (last v) (butlast v)) + {#hd v#} = mset v"
    using w by (simp add: adjust_heap_mset add.commute)
qed

lemma pop_heap_mset: "mset (pop_heap cmp v) = mset v"
  using pop_heap_shape [of v cmp] by (cases "length v > 1") (simp_all add: pop_heap_def)

lemma pop_heap_correct:
  fixes key :: "'a \<Rightarrow> 'k :: linorder"
  assumes "heap_from key 0 v" and "v \<noteq> []"
  shows "heap_from key 0 (butlast (pop_heap (\<lambda>a b. key b < key a) v))"
    and "last (pop_heap (\<lambda>a b. key b < key a) v) = hd v"
proof -
  let ?c = "\<lambda>a b. key b < key a"
  have "heap_from key 0 (butlast (pop_heap ?c v)) \<and> last (pop_heap ?c v) = hd v"
  proof (cases "length v > 1")
    case True
    have "heap_around key 0 0 (butlast v)"
      unfolding heap_around_def
    proof (intro conjI impI allI)
      fix i assume i: "0 < i \<and> i < length (butlast v) \<and> 0 \<le> (i - 1) div 2 \<and> i \<noteq> 0 \<and> (i - 1) div 2 \<noteq> 0"
      then have "(i - 1) div 2 < length (butlast v)" using parent_less [of i] by linarith
      moreover have "i < length v" using i by auto
      ultimately show "key (butlast v ! ((i - 1) div 2)) \<le> key (butlast v ! i)"
        using i assms(1) by (simp add: heap_from_def nth_butlast)
    qed simp
    moreover have "0 < length (butlast v)" using True by simp
    ultimately have "heap_from key 0 (adjust_heap ?c 0 0 (last v) (butlast v))"
      by (intro adjust_heap_heap [THEN conjunct1]) (simp_all add: below_0)
    then show ?thesis by (simp add: pop_heap_shape(1) [OF True])
  next
    case False
    then obtain x where "v = [x]" using assms(2) by (cases v) auto
    then show ?thesis by (simp add: pop_heap_def heap_from_def)
  qed
  then show "heap_from key 0 (butlast (pop_heap ?c v))" and "last (pop_heap ?c v) = hd v" by blast+
qed

lemma make_heap_from_correct:
  fixes key :: "'a \<Rightarrow> 'k :: linorder"
  shows "p \<le> length v \<Longrightarrow> heap_from key p v \<Longrightarrow>
    heap_from key 0 (make_heap_from (\<lambda>a b. key b < key a) p v) \<and>
    mset (make_heap_from (\<lambda>a b. key b < key a) p v) = mset v"
proof (induction p arbitrary: v)
  case (Suc p)
  let ?c = "\<lambda>a b. key b < key a"
  have "heap_around key p p v"
    using Suc.prems(2) by (auto simp: heap_around_def heap_from_def)
  then have "heap_from key p (adjust_heap ?c p p (v ! p) v) \<and> mset (adjust_heap ?c p p (v ! p) v) = mset (v[p := v ! p])"
    using Suc.prems(1) by (intro adjust_heap_heap) (simp_all add: below.here)
  then have a: "heap_from key p (adjust_heap ?c p p (v ! p) v)" "mset (adjust_heap ?c p p (v ! p) v) = mset v"
    by simp_all
  have "p \<le> length (adjust_heap ?c p p (v ! p) v)"
    using Suc.prems(1) mset_eq_length [OF a(2)] by simp
  from Suc.IH [OF this a(1)] a(2) show ?case by simp
qed simp

lemma std_heap_key:
  fixes key :: "'a \<Rightarrow> 'k :: linorder"
  assumes "\<And>a b. cmp a b \<longleftrightarrow> key b < key a"
  shows "std_heap key cmp (push_heap cmp) (pop_heap cmp) (make_heap cmp)"
proof -
  have c: "cmp = (\<lambda>a b. key b < key a)" using assms by (simp add: fun_eq_iff)
  have m: "heap_from key (length v div 2) v" for v :: "'a list"
    by (auto simp: heap_from_def)
  show ?thesis
    unfolding c
    by unfold_locales
      (simp_all add: is_heap_from push_heap_correct push_heap_mset pop_heap_correct pop_heap_mset
        make_heap_def make_heap_from_correct m)
qed

end
