(* ===== verification/Metadata_Queue.thy ===== *)
theory Metadata_Queue
  imports Metadata Std_Heap
begin

text \<open>
  The metadata queues of \<^verbatim>\<open>src/metadata_queue.h\<close>: a vector kept as a heap by the
  standard algorithms, the queries that pop a time frame, and the group with one queue per kind.
  Every operation runs under the queue's mutex and is one step here.
\<close>

type_synonym 'v mqueue = "'v metadata list"

section \<open>Operations\<close>

definition mq_from :: "'v metadata list \<Rightarrow> 'v mqueue" where
  "mq_from xs = make_heap comparator xs"

definition mq_empty :: "'v mqueue \<Rightarrow> bool" where
  "mq_empty q \<longleftrightarrow> q = []"

definition mq_size :: "'v mqueue \<Rightarrow> nat" where
  "mq_size q = length q"

definition mq_top :: "'v mqueue \<Rightarrow> 'v metadata result" where
  "mq_top q = (if q = [] then Inl Range_Violation else Inr (hd q))"

definition mq_push :: "'v metadata \<Rightarrow> 'v mqueue \<Rightarrow> 'v mqueue" where
  "mq_push v q = push_heap comparator (q @ [v])"

definition pop_any_impl :: "'v mqueue \<Rightarrow> 'v metadata \<times> 'v mqueue" where
  "pop_any_impl q = (let q = pop_heap comparator q in (last q, butlast q))"

lemma pop_any_shorter [termination_simp]: "q \<noteq> [] \<Longrightarrow> length (snd (pop_any_impl q)) < length q"
  using mset_eq_length [OF pop_heap_mset [of comparator q]]
  by (simp add: pop_any_impl_def Let_def)

text \<open>The inner loop of \<^verbatim>\<open>pop_impl\<close>: entries at the popped timestamp are dropped.\<close>

function drop_colliding :: "cpp_impl \<Rightarrow> 'v metadata \<Rightarrow> 'v mqueue \<Rightarrow> 'v mqueue result" where
  "drop_colliding im v q =
     (if q \<noteq> [] \<and> md_pts (hd q) = md_pts v then
        bind_res (cpp_assert im (md_input_id (hd q) \<noteq> md_input_id v)) (\<lambda>_.
        drop_colliding im v (snd (pop_any_impl q)))
      else Inr q)"
  by pat_completeness auto
termination by (relation "measure (\<lambda>(im, v, q). length q)") (auto simp: pop_any_shorter)

declare drop_colliding.simps [simp del]

function pop_impl ::
  "cpp_impl \<Rightarrow> input_id \<Rightarrow> ts \<Rightarrow> ts \<Rightarrow> 'v mqueue \<Rightarrow> ('v metadata option \<times> 'v mqueue) result" where
  "pop_impl im i since until q =
     (if q = [] then Inr (None, q)
      else if md_pts (hd q) \<ge> until then Inr (None, q)
      else let value = fst (pop_any_impl q); q' = snd (pop_any_impl q) in
        if md_pts value \<ge> since \<and> md_input_id value = i then
          bind_res (drop_colliding im value q') (\<lambda>q''.
          bind_res (cpp_assert im (md_pts value \<ge> since \<and> md_pts value < until \<and> md_input_id value = i)) (\<lambda>_.
          Inr (Some value, q'')))
        else pop_impl im i since until q')"
  by pat_completeness auto
termination by (relation "measure (\<lambda>(im, i, s, u, q). length q)") (auto simp: pop_any_shorter)

declare pop_impl.simps [simp del]

definition mq_pop ::
  "cpp_impl \<Rightarrow> input_id \<Rightarrow> ts \<Rightarrow> ts \<Rightarrow> 'v mqueue \<Rightarrow> ('v metadata option \<times> 'v mqueue) result" where
  "mq_pop im i since until q = pop_impl im i since until q"

lemma drop_colliding_shorter: "drop_colliding im v q = Inr q' \<Longrightarrow> length q' \<le> length q"
proof (induction im v q rule: drop_colliding.induct)
  case (1 im v q)
  show ?case
  proof (cases "q \<noteq> [] \<and> md_pts (hd q) = md_pts v")
    case True
    with 1 have "length q' \<le> length (snd (pop_any_impl q))"
      by (simp add: drop_colliding.simps [of im v q] bind_res_Inr_iff)
    also have "\<dots> < length q" using True by (simp add: pop_any_shorter)
    finally show ?thesis by simp
  next
    case False
    with 1(2) show ?thesis by (simp add: drop_colliding.simps [of im v q])
  qed
qed

lemma pop_impl_shorter [termination_simp]:
  "pop_impl im i since until q = Inr (Some v, q') \<Longrightarrow> length q' < length q"
proof (induction im i since until q rule: pop_impl.induct)
  case (1 im i since until q)
  from 1(2) have ne: "q \<noteq> []" "\<not> md_pts (hd q) \<ge> until"
    by (auto simp: pop_impl.simps [of im i since until q] split: if_splits)
  let ?v = "fst (pop_any_impl q)" and ?q = "snd (pop_any_impl q)"
  have s: "length ?q < length q" using ne(1) by (rule pop_any_shorter)
  show ?case
  proof (cases "md_pts ?v \<ge> since \<and> md_input_id ?v = i")
    case True
    with 1(2) ne have "drop_colliding im ?v ?q = Inr q'"
      by (auto simp: pop_impl.simps [of im i since until q] Let_def bind_res_Inr_iff)
    from drop_colliding_shorter [OF this] s show ?thesis by simp
  next
    case False
    with 1(2) ne have "pop_impl im i since until ?q = Inr (Some v, q')"
      by (simp add: pop_impl.simps [of im i since until q] Let_def split: if_splits)
    from 1(1) [OF ne refl refl False this] s show ?thesis by simp
  qed
qed

text \<open>\<^verbatim>\<open>pop_all\<close>; the output iterator appends to \<open>out\<close>.\<close>

function pop_all ::
  "cpp_impl \<Rightarrow> input_id \<Rightarrow> ts \<Rightarrow> ts \<Rightarrow> 'v metadata list \<Rightarrow> 'v mqueue
    \<Rightarrow> ('v metadata list \<times> 'v mqueue) result" where
  "pop_all im i since until out q =
     (case pop_impl im i since until q of
        Inl e \<Rightarrow> Inl e
      | Inr (None, q') \<Rightarrow> Inr (out, q')
      | Inr (Some v, q') \<Rightarrow> pop_all im i since until (out @ [v]) q')"
  by pat_completeness auto
termination by (relation "measure (\<lambda>(im, i, s, u, out, q). length q)") (auto simp: pop_impl_shorter)

declare pop_all.simps [simp del]

text \<open>\<^verbatim>\<open>remove_if\<close> and \<^verbatim>\<open>erase\<close>; the vector is not made a heap again.\<close>

definition mq_drop_id :: "input_id \<Rightarrow> 'v mqueue \<Rightarrow> nat \<times> 'v mqueue" where
  "mq_drop_id i q =
     (let q' = filter (\<lambda>t. md_input_id t \<noteq> i) q in (length q - length q', q'))"

section \<open>The group\<close>

record meta_queues =
  g_sei :: "sei_payload mqueue"
  g_scte :: "splice_info_section mqueue"

definition empty_queues :: meta_queues where
  "empty_queues = \<lparr>g_sei = [], g_scte = []\<rparr>"

definition group_push_sei :: "sei_payload metadata \<Rightarrow> meta_queues \<Rightarrow> meta_queues" where
  "group_push_sei v g = g\<lparr>g_sei := mq_push v (g_sei g)\<rparr>"

definition group_push_scte :: "splice_info_section metadata \<Rightarrow> meta_queues \<Rightarrow> meta_queues" where
  "group_push_scte v g = g\<lparr>g_scte := mq_push v (g_scte g)\<rparr>"

definition group_pop_all_sei ::
  "cpp_impl \<Rightarrow> input_id \<Rightarrow> ts \<Rightarrow> ts \<Rightarrow> meta_queues \<Rightarrow> (sei_payload metadata list \<times> meta_queues) result" where
  "group_pop_all_sei im i since until g =
     bind_res (pop_all im i since until [] (g_sei g)) (\<lambda>(out, q). Inr (out, g\<lparr>g_sei := q\<rparr>))"

definition group_pop_all_scte ::
  "cpp_impl \<Rightarrow> input_id \<Rightarrow> ts \<Rightarrow> ts \<Rightarrow> meta_queues \<Rightarrow> (splice_info_section metadata list \<times> meta_queues) result" where
  "group_pop_all_scte im i since until g =
     bind_res (pop_all im i since until [] (g_scte g)) (\<lambda>(out, q). Inr (out, g\<lparr>g_scte := q\<rparr>))"

definition group_drop_id :: "input_id \<Rightarrow> meta_queues \<Rightarrow> nat \<times> meta_queues" where
  "group_drop_id i g =
     (let (n, s) = mq_drop_id i (g_sei g); (m, t) = mq_drop_id i (g_scte g)
      in (n + m, \<lparr>g_sei = s, g_scte = t\<rparr>))"

section \<open>The heap behind the queue\<close>

interpretation mq: std_heap meta_key comparator "push_heap comparator" "pop_heap comparator" "make_heap comparator"
  by (rule std_heap_key) (rule comparator_key)

abbreviation heap_queue :: "'v mqueue \<Rightarrow> bool" where
  "heap_queue q \<equiv> is_heap comparator q"

lemma pop_any_spec:
  assumes "heap_queue q" and "q \<noteq> []"
  shows "fst (pop_any_impl q) = hd q" and "heap_queue (snd (pop_any_impl q))"
    and "mset q = add_mset (hd q) (mset (snd (pop_any_impl q)))"
    and "x \<in># mset (snd (pop_any_impl q)) \<Longrightarrow> meta_key (hd q) \<le> meta_key x"
proof -
  show "fst (pop_any_impl q) = hd q" "heap_queue (snd (pop_any_impl q))"
    and m: "mset q = add_mset (hd q) (mset (snd (pop_any_impl q)))"
    using mq.pop_heap_last [OF assms] mq.pop_heap_heap [OF assms] mq.pop_mset [OF assms]
    by (simp_all add: pop_any_impl_def Let_def)
  show "meta_key (hd q) \<le> meta_key x" if "x \<in># mset (snd (pop_any_impl q))"
    using mq.front_least_mset [OF assms(1)] m that by simp
qed

lemma drop_colliding_spec:
  assumes "heap_queue q" and "\<And>x. x \<in># mset q \<Longrightarrow> md_pts v \<le> md_pts x"
    and "drop_colliding im v q = Inr q'"
  shows "heap_queue q' \<and> mset q' = filter_mset (\<lambda>x. md_pts x \<noteq> md_pts v) (mset q)"
  using assms
proof (induction im v q rule: drop_colliding.induct)
  case (1 im v q)
  show ?case
  proof (cases "q \<noteq> [] \<and> md_pts (hd q) = md_pts v")
    case True
    note p = pop_any_spec [OF 1(2), OF conjunct1 [OF True]]
    have "drop_colliding im v (snd (pop_any_impl q)) = Inr q'"
      using 1(4) True by (simp add: drop_colliding.simps [of im v q] bind_res_Inr_iff)
    moreover have "\<And>x. x \<in># mset (snd (pop_any_impl q)) \<Longrightarrow> md_pts v \<le> md_pts x"
      using 1(3) p(3) by simp
    moreover obtain u where "cpp_assert im (md_input_id (hd q) \<noteq> md_input_id v) = Inr u"
      using 1(4) True by (auto simp: drop_colliding.simps [of im v q] bind_res_Inr_iff)
    ultimately show ?thesis using 1(1) [OF True _ p(2)] p(3) True by simp
  next
    case False
    have "md_pts x \<noteq> md_pts v" if "x \<in># mset q" for x
    proof -
      have "q \<noteq> []" using that by auto
      then have "md_pts (hd q) \<noteq> md_pts v" using False by simp
      moreover have "md_pts v \<le> md_pts (hd q)" using 1(3) \<open>q \<noteq> []\<close> by simp
      moreover have "md_pts (hd q) \<le> md_pts x"
        using mq.front_least_mset [OF 1(2) that] by (rule meta_key_le_pts)
      ultimately show ?thesis by simp
    qed
    then have "filter_mset (\<lambda>x. md_pts x \<noteq> md_pts v) (mset q) = mset q"
      by (auto intro: filter_mset_cong [THEN trans])
    moreover have "q' = q" using 1(4) False by (simp add: drop_colliding.simps [of im v q])
    ultimately show ?thesis using 1(2) by simp
  qed
qed

definition matches :: "input_id \<Rightarrow> ts \<Rightarrow> ts \<Rightarrow> 'v metadata \<Rightarrow> bool" where
  "matches i since until x \<longleftrightarrow> md_input_id x = i \<and> since \<le> md_pts x \<and> md_pts x < until"

lemma filter_mset_id: "(\<And>x. x \<in># M \<Longrightarrow> P x) \<Longrightarrow> filter_mset P M = M"
  by (induction M) auto

text \<open>
  The specification of one pop: the matching entry that comes first, and everything up to its
  timestamp gone; or no matching entry, and everything before the end of the frame gone.
\<close>

lemma pop_impl_spec:
  assumes "heap_queue q" and "pop_impl im i since until q = Inr (r, q')"
  shows "heap_queue q' \<and>
    (case r of
       Some v \<Rightarrow> v \<in># mset q \<and> matches i since until v \<and>
         (\<forall>x \<in># mset q. matches i since until x \<longrightarrow> meta_key v \<le> meta_key x) \<and>
         mset q' = filter_mset (\<lambda>x. md_pts v < md_pts x) (mset q)
     | None \<Rightarrow> (\<forall>x \<in># mset q. \<not> matches i since until x) \<and>
         mset q' = filter_mset (\<lambda>x. until \<le> md_pts x) (mset q))"
  using assms
proof (induction im i since until q rule: pop_impl.induct)
  case (1 im i since until q)
  note eq = pop_impl.simps [of im i since until q]
  show ?case
  proof (cases "q = []")
    case True
    then have "r = None" "q' = q" using 1(3) [unfolded eq] by auto
    then show ?thesis using True by (simp add: mq.empty_heap)
  next
    case ne: False
    note p = pop_any_spec [OF 1(2) ne]
    have least: "md_pts (hd q) \<le> md_pts x" if "x \<in># mset q" for x
      using mq.front_least_mset [OF 1(2) that] by (rule meta_key_le_pts)
    show ?thesis
    proof (cases "md_pts (hd q) \<ge> until")
      case True
      then have "r = None" "q' = q" using 1(3) ne by (simp_all add: eq)
      moreover have "until \<le> md_pts x" if "x \<in># mset q" for x using least [OF that] True by simp
      moreover from this have "filter_mset (\<lambda>x. until \<le> md_pts x) (mset q) = mset q" by (rule filter_mset_id)
      ultimately show ?thesis using 1(2) by (fastforce simp: matches_def)
    next
      case before: False
      let ?q = "snd (pop_any_impl q)"
      show ?thesis
      proof (cases "md_pts (hd q) \<ge> since \<and> md_input_id (hd q) = i")
        case True
        have r: "r = Some (hd q)" and d: "drop_colliding im (hd q) ?q = Inr q'"
          using 1(3) ne before True by (auto simp: eq Let_def p(1) bind_res_Inr_iff)
        have l: "md_pts (hd q) \<le> md_pts x" if "x \<in># mset ?q" for x using least p(3) that by simp
        have f: "filter_mset (\<lambda>x. md_pts x \<noteq> md_pts (hd q)) (mset ?q)
            = filter_mset (\<lambda>x. md_pts (hd q) < md_pts x) (mset ?q)"
          by (rule filter_mset_cong) (use l in force)+
        from drop_colliding_spec [OF p(2) l d] have "heap_queue q'"
          and "mset q' = filter_mset (\<lambda>x. md_pts (hd q) < md_pts x) (mset q)"
          by (simp_all add: p(3) f)
        moreover have "matches i since until (hd q)" using True before by (simp add: matches_def)
        moreover have "hd q \<in># mset q" using ne by simp
        ultimately show ?thesis using mq.front_least_mset [OF 1(2)] by (simp add: r)
      next
        case False
        then have nm: "\<not> matches i since until (hd q)" by (auto simp: matches_def)
        have "pop_impl im i since until ?q = Inr (r, q')"
          using 1(3) ne before False by (auto simp: eq Let_def p(1))
        from 1(1) [OF ne before refl refl _ p(2) this] False
        have ih: "heap_queue q' \<and> (case r of
            Some v \<Rightarrow> v \<in># mset ?q \<and> matches i since until v \<and>
              (\<forall>x \<in># mset ?q. matches i since until x \<longrightarrow> meta_key v \<le> meta_key x) \<and>
              mset q' = filter_mset (\<lambda>x. md_pts v < md_pts x) (mset ?q)
          | None \<Rightarrow> (\<forall>x \<in># mset ?q. \<not> matches i since until x) \<and>
              mset q' = filter_mset (\<lambda>x. until \<le> md_pts x) (mset ?q))"
          by (simp add: p(1))
        show ?thesis
        proof (cases r)
          case None
          with ih nm before show ?thesis by (simp add: p(3))
        next
          case (Some v)
          have "md_pts (hd q) \<le> md_pts v" using ih Some least p(3) by simp
          with ih nm Some show ?thesis by (auto simp: p(3))
        qed
      qed
    qed
  qed
qed

text \<open>Without assertions a pop always has a result; with them it aborts on a collision only.\<close>

lemma drop_colliding_release: "\<not> asserts_on im \<Longrightarrow> drop_colliding im v q \<noteq> Inl e"
proof (induction im v q rule: drop_colliding.induct)
  case (1 im v q)
  then show ?case
    by (simp add: drop_colliding.simps [of im v q] cpp_assert_off)
qed

lemma pop_impl_release: "\<not> asserts_on im \<Longrightarrow> pop_impl im i since until q \<noteq> Inl e"
proof (induction im i since until q rule: pop_impl.induct)
  case (1 im i since until q)
  then show ?case
    by (auto simp: pop_impl.simps [of im i since until q] cpp_assert_off Let_def bind_res_Inl_iff
        drop_colliding_release)
qed

lemma pop_all_release: "\<not> asserts_on im \<Longrightarrow> pop_all im i since until out q \<noteq> Inl e"
proof (induction im i since until out q rule: pop_all.induct)
  case (1 im i since until out q)
  then show ?case
    using pop_impl_release [of im i since until q]
    by (auto simp: pop_all.simps [of im i since until out q] split: sum.splits option.splits)
qed

text \<open>
  What \<open>pop_all\<close> returns: matching entries only, one for each timestamp a matching entry has, the
  first of those at that timestamp, in the order of time; what stays are the entries from the end
  of the frame on.
\<close>

lemma pop_all_spec:
  assumes "heap_queue q" and "pop_all im i since until out q = Inr (out', q')"
  shows "\<exists>new. out' = out @ new \<and> heap_queue q' \<and>
    mset q' = filter_mset (\<lambda>x. until \<le> md_pts x) (mset q) \<and>
    sorted_wrt (\<lambda>a b. md_pts a < md_pts b) new \<and>
    (\<forall>v \<in> set new. v \<in># mset q \<and> matches i since until v) \<and>
    (\<forall>x \<in># mset q. matches i since until x \<longrightarrow>
       (\<exists>v \<in> set new. md_pts v = md_pts x \<and> md_order v \<le> md_order x))"
  using assms
proof (induction im i since until out q rule: pop_all.induct)
  case (1 im i since until out q)
  note eq = pop_all.simps [of im i since until out q]
  obtain r q1 where p: "pop_impl im i since until q = Inr (r, q1)"
    using 1(3) by (auto simp: eq split: sum.splits)
  note sp = pop_impl_spec [OF 1(2) p]
  show ?case
  proof (cases r)
    case None
    with p 1(3) have "out' = out" "q' = q1" by (simp_all add: eq)
    with sp None show ?thesis by (intro exI [of _ "[]"]) simp
  next
    case (Some v)
    from sp Some have h: "heap_queue q1" and v: "v \<in># mset q" "matches i since until v"
      and least: "\<forall>x \<in># mset q. matches i since until x \<longrightarrow> meta_key v \<le> meta_key x"
      and m1: "mset q1 = filter_mset (\<lambda>x. md_pts v < md_pts x) (mset q)" by simp_all
    have "pop_all im i since until (out @ [v]) q1 = Inr (out', q')"
      using 1(3) p Some by (simp add: eq)
    from 1(1) [OF p [unfolded Some] refl refl h this] p Some
    obtain new where new: "out' = (out @ [v]) @ new" "heap_queue q'"
      "mset q' = filter_mset (\<lambda>x. until \<le> md_pts x) (mset q1)"
      "sorted_wrt (\<lambda>a b. md_pts a < md_pts b) new"
      "\<forall>u \<in> set new. u \<in># mset q1 \<and> matches i since until u"
      "\<forall>x \<in># mset q1. matches i since until x \<longrightarrow> (\<exists>u \<in> set new. md_pts u = md_pts x \<and> md_order u \<le> md_order x)"
      by blast
    have "md_pts v < until" using v(2) by (simp add: matches_def)
    then have "filter_mset (\<lambda>x. until \<le> md_pts x) (mset q1) = filter_mset (\<lambda>x. until \<le> md_pts x) (mset q)"
      unfolding m1 filter_filter_mset by (intro filter_mset_cong) auto
    moreover have "\<exists>u \<in> set (v # new). md_pts u = md_pts x \<and> md_order u \<le> md_order x"
      if x: "x \<in># mset q" "matches i since until x" for x
    proof (cases "md_pts v < md_pts x")
      case True
      then have "x \<in># mset q1" using x(1) by (simp add: m1)
      with new(6) x(2) show ?thesis by auto
    next
      case False
      have "meta_key v \<le> meta_key x" using least x by blast
      then have "md_pts v = md_pts x \<and> md_order v \<le> md_order x"
        using False v(2) x(2) by (auto simp: meta_key_def matches_def)
      then show ?thesis by auto
    qed
    moreover have "\<forall>u \<in> set (v # new). u \<in># mset q \<and> matches i since until u"
      using v new(5) m1 by auto
    moreover have "sorted_wrt (\<lambda>a b. md_pts a < md_pts b) (v # new)"
      using new(4,5) m1 by auto
    ultimately show ?thesis using new(1-3) by (intro exI [of _ "v # new"]) simp
  qed
qed

text \<open>What holds of any vector, heap or not: a pop takes the front and only takes entries out.\<close>

lemma pop_any_front: "q \<noteq> [] \<Longrightarrow> fst (pop_any_impl q) = hd q"
  using pop_heap_shape(1) [of q comparator]
  by (cases "length q > 1") (auto simp: pop_any_impl_def Let_def pop_heap_def length_Suc_conv not_less le_Suc_eq)

lemma pop_any_subset: "mset (snd (pop_any_impl q)) \<subseteq># mset q"
proof (cases "pop_heap comparator q" rule: rev_cases)
  case (snoc ys y)
  have "mset q = add_mset y (mset ys)" using pop_heap_mset [of comparator q] snoc by simp
  with snoc show ?thesis by (simp add: pop_any_impl_def)
qed (simp add: pop_any_impl_def)

lemma drop_colliding_subset: "drop_colliding im v q = Inr q' \<Longrightarrow> mset q' \<subseteq># mset q"
proof (induction im v q rule: drop_colliding.induct)
  case (1 im v q)
  then show ?case
    using subset_mset.order_trans [OF _ pop_any_subset, of "mset q'" q]
    by (auto simp: drop_colliding.simps [of im v q] bind_res_Inr_iff split: if_splits)
qed

lemma pop_impl_subset: "pop_impl im i since until q = Inr (r, q') \<Longrightarrow> mset q' \<subseteq># mset q"
proof (induction im i since until q rule: pop_impl.induct)
  case (1 im i since until q)
  then show ?case
    using subset_mset.order_trans [OF _ pop_any_subset, of "mset q'" q] drop_colliding_subset
    by (auto simp: pop_impl.simps [of im i since until q] Let_def bind_res_Inr_iff split: if_splits)
qed

lemma pop_all_subset:
  "pop_all im i since until out q = Inr (out', q') \<Longrightarrow> mset q' \<subseteq># mset q \<and> (\<exists>new. out' = out @ new)"
proof (induction im i since until out q rule: pop_all.induct)
  case (1 im i since until out q)
  obtain r q1 where p: "pop_impl im i since until q = Inr (r, q1)"
    using 1(2) by (auto simp: pop_all.simps [of im i since until out q] split: sum.splits)
  show ?case
  proof (cases r)
    case None
    with p 1(2) pop_impl_subset [OF p] show ?thesis by (simp add: pop_all.simps [of im i since until out q])
  next
    case (Some v)
    with p 1(2) have "pop_all im i since until (out @ [v]) q1 = Inr (out', q')"
      by (simp add: pop_all.simps [of im i since until out q])
    from 1(1) [OF p [unfolded Some] refl refl this] p Some pop_impl_subset [OF p]
    show ?thesis by (auto intro: subset_mset.order_trans)
  qed
qed

lemma pop_all_front:
  assumes "q \<noteq> []" and "matches i since until (hd q)" and "pop_all im i since until [] q = Inr (out, q')"
  shows "hd q \<in> set out"
proof -
  obtain r q1 where p: "pop_impl im i since until q = Inr (r, q1)"
    using assms(3) by (auto simp: pop_all.simps [of im i since until "[]" q] split: sum.splits)
  with assms(1,2) have r: "r = Some (hd q)"
    by (auto simp: pop_impl.simps [of im i since until q] matches_def pop_any_front Let_def bind_res_Inr_iff)
  with p assms(3) have "pop_all im i since until [hd q] q1 = Inr (out, q')"
    by (simp add: pop_all.simps [of im i since until "[]" q])
  from pop_all_subset [OF this] show ?thesis by auto
qed

section \<open>Properties\<close>

text \<open>
  C21: Construction, push, pop and pop_all keep the vector of the queue a heap, and construction
  and push keep and add exactly the entries given.
\<close>

theorem queue_stays_heap:
  "heap_queue (mq_from xs) \<and> mset (mq_from xs) = mset xs \<and>
   (heap_queue q \<longrightarrow> heap_queue (mq_push v q) \<and> mset (mq_push v q) = add_mset v (mset q) \<and>
      (mq_pop im i since until q = Inr (r, q') \<longrightarrow> heap_queue q') \<and>
      (pop_all im i since until [] q = Inr (out, q'') \<longrightarrow> heap_queue q''))"
  using pop_impl_spec [of q im i since until r q'] pop_all_spec [of q im i since until "[]" out q'']
  by (auto simp: mq_from_def mq_push_def mq_pop_def mq.make_heap_heap mq.make_heap_mset
      mq.push_heap_heap mq.push_mset)

definition sample_entry :: "input_id \<Rightarrow> ts \<Rightarrow> int \<Rightarrow> sei_payload metadata" where
  "sample_entry i t n = \<lparr>md_input_id = i, md_pts = t, md_dts = t, md_order = n, md_val = EMPTY_SEI\<rparr>"

theorem queue_stays_heap_witness:
  "heap_queue (mq_push (sample_entry 1 5 0) []) \<and> mset (mq_push (sample_entry 1 5 0) []) = {#sample_entry 1 5 0#}"
proof -
  have "heap_queue ([] :: sei_payload mqueue)" by (simp add: is_heap_def)
  then show ?thesis
    using queue_stays_heap [of "[]" "[]" "sample_entry 1 5 0" sample_impl 1 0 1 None "[]" "[]" "[]"] by auto
qed

text \<open>
  C19: A pop on a heap returns the first entry, in the order of timestamp, input and order,
  among those of the input within the frame, and drops everything up to its timestamp; without
  such an entry it drops everything before the end of the frame.
\<close>

theorem pop_returns_earliest:
  assumes "heap_queue q" and "mq_pop im i since until q = Inr (r, q')"
  shows "(case r of
       Some v \<Rightarrow> v \<in># mset q \<and> matches i since until v \<and>
         (\<forall>x \<in># mset q. matches i since until x \<longrightarrow> meta_key v \<le> meta_key x) \<and>
         mset q' = filter_mset (\<lambda>x. md_pts v < md_pts x) (mset q)
     | None \<Rightarrow> (\<forall>x \<in># mset q. \<not> matches i since until x) \<and>
         mset q' = filter_mset (\<lambda>x. until \<le> md_pts x) (mset q))"
  using pop_impl_spec [OF assms(1) assms(2) [unfolded mq_pop_def]] by blast

lemma sample_pop:
  "mq_pop sample_impl 1 0 10 [sample_entry 1 5 0, sample_entry 2 6 0] = Inr (Some (sample_entry 1 5 0), [sample_entry 2 6 0])"
  by code_simp

theorem pop_returns_earliest_witness:
  "matches 1 0 10 (sample_entry 1 5 0) \<and>
   mset [sample_entry 2 6 0] = filter_mset (\<lambda>x. 5 < md_pts x) (mset [sample_entry 1 5 0, sample_entry 2 6 0])"
proof -
  have "heap_queue [sample_entry 1 5 0, sample_entry 2 6 0]" by code_simp
  from pop_returns_earliest [OF this sample_pop] show ?thesis by (simp add: sample_entry_def)
qed


lemma sample_pop_all:
  "pop_all sample_impl 1 0 10 [] [sample_entry 1 5 0, sample_entry 1 6 0, sample_entry 2 5 0]
     = Inr ([sample_entry 1 5 0, sample_entry 1 6 0], [])"
  by code_simp


lemma sorted_distinct_pts: "sorted_wrt (\<lambda>a b. md_pts a < md_pts b) xs \<Longrightarrow> distinct (map md_pts xs)"
  by (induction xs) auto

text \<open>
  Popping a frame returns all entries of the input in the frame exactly when no two of them have
  the same timestamp.
\<close>

theorem pop_all_complete_iff:
  assumes "heap_queue q" and "\<not> asserts_on im"
  shows "(\<exists>out q'. pop_all im i since until [] q = Inr (out, q') \<and>
      mset out = filter_mset (matches i since until) (mset q))
    \<longleftrightarrow> distinct (map md_pts (filter (matches i since until) q))"
proof -
  obtain out q' where p: "pop_all im i since until [] q = Inr (out, q')"
    using pop_all_release [OF assms(2)] by (metis obj_sumE surj_pair)
  from pop_all_spec [OF assms(1) p] have sp: "sorted_wrt (\<lambda>a b. md_pts a < md_pts b) out"
    "\<forall>v \<in> set out. v \<in> set q \<and> matches i since until v"
    "\<forall>x \<in> set q. matches i since until x \<longrightarrow> (\<exists>v \<in> set out. md_pts v = md_pts x)" by auto
  note d = sorted_distinct_pts [OF sp(1)]
  let ?m = "filter (matches i since until) q"
  have "mset out = mset ?m \<longleftrightarrow> distinct (map md_pts ?m)"
  proof
    assume e: "mset out = mset ?m"
    then have "mset (map md_pts out) = mset (map md_pts ?m)" by simp
    with d show "distinct (map md_pts ?m)" by (metis mset_eq_imp_distinct_iff)
  next
    assume m: "distinct (map md_pts ?m)"
    have "set out = set ?m"
    proof
      show "set out \<subseteq> set ?m" using sp(2) by auto
      show "set ?m \<subseteq> set out"
      proof
        fix x assume x: "x \<in> set ?m"
        then obtain v where v: "v \<in> set out" "md_pts v = md_pts x" using sp(3) by auto
        then have "v \<in> set ?m" using sp(2) by auto
        with x v(2) m have "v = x" by (metis distinct_map inj_on_eq_iff)
        with v(1) show "x \<in> set out" by simp
      qed
    qed
    with d m show "mset out = mset ?m" by (metis distinct_map set_eq_iff_mset_eq_distinct)
  qed
  then show ?thesis using p by (simp add: mset_filter)
qed

definition release_impl :: cpp_impl where
  "release_impl = sample_impl\<lparr>asserts_on := False\<rparr>"

theorem pop_all_complete_iff_witness:
  "\<not> (\<exists>out q'. pop_all release_impl 1 0 10 [] [sample_entry 1 5 0, sample_entry 1 5 1] = Inr (out, q') \<and>
      mset out = filter_mset (matches 1 0 10) (mset [sample_entry 1 5 0, sample_entry 1 5 1]))"
proof -
  have "heap_queue [sample_entry 1 5 0, sample_entry 1 5 1]" by code_simp
  moreover have "\<not> asserts_on release_impl" by (simp add: release_impl_def)
  moreover have "\<not> distinct (map md_pts (filter (matches 1 0 10) [sample_entry 1 5 0, sample_entry 1 5 1]))"
    by (simp add: matches_def sample_entry_def)
  ultimately show ?thesis using pop_all_complete_iff by blast
qed

text \<open>Two entries of one input at one timestamp, as an extractor pushes them for one frame.\<close>

text \<open>
  Of two entries that one input queued for one timestamp only the first is ever popped, and a
  build with assertions aborts.
\<close>

theorem second_entry_of_frame_lost:
  "pop_all sample_impl 1 0 10 [] (mq_push (sample_entry 1 5 1) (mq_push (sample_entry 1 5 0) []))
     = Inl Assertion_Failed \<and>
   pop_all release_impl 1 0 10 [] (mq_push (sample_entry 1 5 1) (mq_push (sample_entry 1 5 0) []))
     = Inr ([sample_entry 1 5 0], [])"
  by (rule conjI; code_simp)

text \<open>
  Removing the entries of an input leaves a vector that need not be a heap: the earliest entry of
  another input can sit behind a later one, where a query for its time frame does not find it.
\<close>

text \<open>
  Dropping the entries of one input can leave a vector that is no heap, on which a pop misses an
  entry of another input that is in the frame.
\<close>

theorem drop_id_loses_heap:
  "let q = mq_from [sample_entry 1 0 0, sample_entry 2 10 0, sample_entry 1 1 0,
         sample_entry 2 11 0, sample_entry 2 12 0, sample_entry 2 2 0];
       q' = snd (mq_drop_id 1 q)
   in heap_queue q \<and> \<not> heap_queue q' \<and>
      mq_pop release_impl 2 0 5 q = Inr (Some (sample_entry 2 2 0),
        snd (pop_any_impl (snd (pop_any_impl (snd (pop_any_impl q)))))) \<and>
      sample_entry 2 2 0 \<in> set q' \<and> mq_pop release_impl 2 0 5 q' = Inr (None, q')"
  by code_simp

text \<open>
  Dropping an input's entries removes exactly these and returns their number.
\<close>

theorem drop_id_counts:
  "mq_drop_id i q = (n, q') \<Longrightarrow> n = length (filter (\<lambda>x. md_input_id x = i) q) \<and>
     mset q' = filter_mset (\<lambda>x. md_input_id x \<noteq> i) (mset q)"
  using sum_length_filter_compl [of "\<lambda>x. md_input_id x = i" q]
  by (auto simp: mq_drop_id_def Let_def)

theorem drop_id_counts_witness:
  "1 = length (filter (\<lambda>x. md_input_id x = 1) [sample_entry 1 5 0, sample_entry 2 6 0]) \<and>
   mset [sample_entry 2 6 0] = filter_mset (\<lambda>x. md_input_id x \<noteq> 1) (mset [sample_entry 1 5 0, sample_entry 2 6 0])"
  by (rule drop_id_counts) (simp add: mq_drop_id_def sample_entry_def)

end
