(* ===== verification/Clock.thy ===== *)
theory Clock
  imports Metadata
begin

text \<open>
  Time: \<^verbatim>\<open>src/clock_types.h\<close>, \<^verbatim>\<open>clock.h\<close> and \<^verbatim>\<open>clock.cpp\<close>.
  A timestamp is the integer value of an \<^verbatim>\<open>int64_t\<close>; the atomic counter of the clock wraps,
  the other sums are signed arithmetic that must not overflow and are plain sums here.
  FFmpeg's \<^verbatim>\<open>av_rescale_q\<close> is the argument \<open>rescale\<close> of every definition that uses it.
\<close>

type_synonym time_base = "int \<times> int"
type_synonym rescaling = "ts \<Rightarrow> time_base \<Rightarrow> time_base \<Rightarrow> ts"

definition SYS_CLOCK_RATE :: int where
  "SYS_CLOCK_RATE = 90000"

definition wrap64 :: "int \<Rightarrow> int" where
  "wrap64 x = signed_take_bit 63 x"

definition in_ts :: "int \<Rightarrow> bool" where
  "in_ts x \<longleftrightarrow> - (2 ^ 63) \<le> x \<and> x < 2 ^ 63"

record clock =
  c_val :: ts
  c_time_base :: time_base

definition default_clock :: clock where
  "default_clock = \<lparr>c_val = 0, c_time_base = (1, SYS_CLOCK_RATE)\<rparr>"

definition clock_now :: "clock \<Rightarrow> ts" where
  "clock_now c = c_val c"

definition clock_increment :: "ts \<Rightarrow> clock \<Rightarrow> clock" where
  "clock_increment delta c = (if delta \<ge> 0 then c\<lparr>c_val := wrap64 (c_val c + delta)\<rparr> else c)"

text \<open>The ticker turns the timestamps of a stream into clock increments.\<close>

record ts_ticker =
  tt_last :: "ts option"

definition new_ticker :: ts_ticker where
  "new_ticker = \<lparr>tt_last = None\<rparr>"

definition tick :: "ts \<Rightarrow> ts_ticker \<times> clock \<Rightarrow> ts_ticker \<times> clock" where
  "tick t s = (let (tk, c) = s in
     case tt_last tk of
       None \<Rightarrow> (tk\<lparr>tt_last := Some t\<rparr>, clock_increment t c)
     | Some l \<Rightarrow> (tk\<lparr>tt_last := Some t\<rparr>, clock_increment (t - l) c))"

text \<open>The rescaler maps stream time to clock time, from its first timestamp on.\<close>

record ts_rescaler =
  tr_local :: time_base
  tr_base :: ts
  tr_zero :: "ts option"

definition clock_relative :: "clock \<Rightarrow> time_base \<Rightarrow> ts_rescaler" where
  "clock_relative c tb = \<lparr>tr_local = tb, tr_base = clock_now c, tr_zero = None\<rparr>"

definition rescale_to_clock ::
  "rescaling \<Rightarrow> time_base \<Rightarrow> ts \<Rightarrow> ts_rescaler \<Rightarrow> ts \<times> ts_rescaler" where
  "rescale_to_clock rescale clock_tb t r =
     (let zero = (case tr_zero r of None \<Rightarrow> t | Some z \<Rightarrow> z);
          r = r\<lparr>tr_zero := Some zero\<rparr>
      in (tr_base r + rescale (t - zero) (tr_local r) clock_tb, r))"

section \<open>Monotone time\<close>

text \<open>
  The clock only moves forward (until the counter wraps): over a run of ticks it gains the sum of
  the positive steps, and steps back are lost.
\<close>

fun positive_steps :: "ts \<Rightarrow> ts list \<Rightarrow> int" where
  "positive_steps l [] = 0"
| "positive_steps l (t # ts) = max 0 (t - l) + positive_steps t ts"

lemma positive_steps_nonneg: "0 \<le> positive_steps l xs"
  by (induction xs arbitrary: l) (simp_all add: add_nonneg_nonneg)

lemma wrap64_id: "in_ts x \<Longrightarrow> wrap64 x = x"
  by (simp add: wrap64_def in_ts_def signed_take_bit_int_eq_self)

lemma tick_known:
  "tick t (tk\<lparr>tt_last := Some l\<rparr>, c) = (tk\<lparr>tt_last := Some t\<rparr>, clock_increment (t - l) c)"
  by (simp add: tick_def)

lemma ticks_known:
  assumes "in_ts (c_val c)" and "in_ts (c_val c + positive_steps l xs)"
  shows "c_val (snd (fold tick xs (tk\<lparr>tt_last := Some l\<rparr>, c))) = c_val c + positive_steps l xs"
  using assms
proof (induction xs arbitrary: l c)
  case Nil
  then show ?case by simp
next
  case (Cons t xs)
  have n: "0 \<le> positive_steps t xs" by (rule positive_steps_nonneg)
  have i: "in_ts (c_val c + max 0 (t - l))"
    using Cons.prems n by (auto simp: in_ts_def)
  then have v: "c_val (clock_increment (t - l) c) = c_val c + max 0 (t - l)"
    by (auto simp: clock_increment_def wrap64_id max_def)
  have "c_val (snd (fold tick xs (tk\<lparr>tt_last := Some t\<rparr>, clock_increment (t - l) c)))
      = c_val (clock_increment (t - l) c) + positive_steps t xs"
    by (rule Cons.IH) (use Cons.prems i v in \<open>simp_all add: add.assoc\<close>)
  then show ?case by (simp add: tick_known v)
qed

lemma tick_new: "tick t (new_ticker, c) = (new_ticker\<lparr>tt_last := Some t\<rparr>, clock_increment t c)"
  by (simp add: tick_def new_ticker_def)

text \<open>
  Over a run of ticks the clock gains the sum of the positive steps of the timestamps; steps
  back are ignored, as long as the counter stays in its range.
\<close>

theorem ticks_add_positive_steps:
  assumes "in_ts (c_val c)" and "in_ts (c_val c + max 0 t + positive_steps t xs)"
  shows "c_val (snd (fold tick (t # xs) (new_ticker, c))) = c_val c + max 0 t + positive_steps t xs"
proof -
  have n: "0 \<le> positive_steps t xs" by (rule positive_steps_nonneg)
  have i: "in_ts (c_val c + max 0 t)" using assms n by (auto simp: in_ts_def)
  then have v: "c_val (clock_increment t c) = c_val c + max 0 t"
    by (auto simp: clock_increment_def wrap64_id max_def)
  have "c_val (snd (fold tick xs (new_ticker\<lparr>tt_last := Some t\<rparr>, clock_increment t c)))
      = c_val (clock_increment t c) + positive_steps t xs"
    by (rule ticks_known) (use assms i v in simp_all)
  then show ?thesis by (simp add: tick_new v)
qed

theorem ticks_add_positive_steps_witness:
  "c_val (snd (fold tick [100, 110, 105, 120] (new_ticker, default_clock))) = 125"
  using ticks_add_positive_steps [of default_clock 100 "[110, 105, 120]"]
  by (simp add: default_clock_def in_ts_def)

text \<open>For a stream whose timestamps never go back the clock ends at the last one.\<close>

lemma positive_steps_sorted: "sorted (l # xs) \<Longrightarrow> l + positive_steps l xs = last (l # xs)"
  by (induction xs arbitrary: l) (auto simp: max_def)

text \<open>
  Fed with a stream that never goes back a fresh clock ends at the last timestamp.
\<close>

theorem clock_follows_monotone_stream:
  assumes "sorted (t # xs)" and "0 \<le> t" and "in_ts (last (t # xs))"
  shows "c_val (snd (fold tick (t # xs) (new_ticker, default_clock))) = last (t # xs)"
proof -
  have p: "t + positive_steps t xs = last (t # xs)" using assms(1) by (rule positive_steps_sorted)
  have v: "c_val (clock_increment t default_clock) = t"
  proof -
    have "t \<le> last (t # xs)" using p positive_steps_nonneg [of t xs] by linarith
    then have "in_ts t" using assms(2,3) by (auto simp: in_ts_def)
    then show ?thesis using assms(2) by (simp add: clock_increment_def default_clock_def wrap64_id)
  qed
  have "c_val (snd (fold tick xs (new_ticker\<lparr>tt_last := Some t\<rparr>, clock_increment t default_clock)))
      = c_val (clock_increment t default_clock) + positive_steps t xs"
  proof (rule ticks_known)
    have "t \<le> last (t # xs)" using p positive_steps_nonneg [of t xs] by linarith
    then show "in_ts (c_val (clock_increment t default_clock))" using v assms(2,3) by (auto simp: in_ts_def)
    show "in_ts (c_val (clock_increment t default_clock) + positive_steps t xs)" using v p assms(3) by simp
  qed
  then show ?thesis using v p by (simp add: tick_new)
qed

theorem clock_follows_monotone_stream_witness:
  "c_val (snd (fold tick [0, 3000, 6000] (new_ticker, default_clock))) = 6000"
  using clock_follows_monotone_stream [of 0 "[3000, 6000]"] by (simp add: in_ts_def)

section \<open>The clock ticker of the injector\<close>

text \<open>
  \<^verbatim>\<open>ClockTicker\<close> of \<^verbatim>\<open>src/proc/injector.cpp\<close>: a rescaler relative to the clock
  and a ticker on the same clock.
\<close>

record clock_ticker =
  ct_ticker :: ts_ticker
  ct_rescaler :: ts_rescaler

definition new_clock_ticker :: "clock \<Rightarrow> time_base \<Rightarrow> clock_ticker" where
  "new_clock_ticker c tb = \<lparr>ct_ticker = new_ticker, ct_rescaler = clock_relative c tb\<rparr>"

definition clock_ticker_process :: "rescaling \<Rightarrow> ts \<Rightarrow> clock_ticker \<times> clock \<Rightarrow> clock_ticker \<times> clock" where
  "clock_ticker_process rescale pts s = (let (ct, c) = s;
     (t, r) = rescale_to_clock rescale (c_time_base c) pts (ct_rescaler ct);
     (tk, c) = tick t (ct_ticker ct, c)
   in (ct\<lparr>ct_ticker := tk, ct_rescaler := r\<rparr>, c))"

text \<open>
  The ticker adds the first timestamp it sees, and the rescaler has already based that timestamp
  on the clock: a ticker made when the clock stands at a value doubles it with its first packet.
\<close>

text \<open>
  The first packet that a ticker created on a running clock processes doubles the clock, because
  its timestamp has already been based on the clock.
\<close>

theorem new_ticker_doubles_clock:
  assumes "\<And>a b. rescale 0 a b = 0" and "0 \<le> c_val c" and "in_ts (2 * c_val c)"
  shows "c_val (snd (clock_ticker_process rescale pts (new_clock_ticker c tb, c))) = 2 * c_val c"
  using assms
  by (simp add: clock_ticker_process_def new_clock_ticker_def rescale_to_clock_def clock_relative_def
      clock_now_def tick_def new_ticker_def clock_increment_def wrap64_id)

theorem new_ticker_doubles_clock_witness:
  "c_val (snd (clock_ticker_process (\<lambda>t a b. t) 777
     (new_clock_ticker (default_clock\<lparr>c_val := 900000\<rparr>) (1, 90000), default_clock\<lparr>c_val := 900000\<rparr>))) = 1800000"
  using new_ticker_doubles_clock [of "\<lambda>t a b. t" "default_clock\<lparr>c_val := 900000\<rparr>" 777 "(1, 90000)"]
  by (simp add: in_ts_def)

section \<open>Rescaled time\<close>

text \<open>
  Over one rescaler, later stream times map to later clock times, and the first one to the clock's
  value at creation, for every rescaling that keeps zero and the order.
\<close>

fun rescale_all :: "rescaling \<Rightarrow> time_base \<Rightarrow> ts list \<Rightarrow> ts_rescaler \<Rightarrow> ts list" where
  "rescale_all f tb [] r = []"
| "rescale_all f tb (t # ts) r = (let (x, r') = rescale_to_clock f tb t r in x # rescale_all f tb ts r')"

lemma rescale_all_known:
  "tr_zero r = Some z \<Longrightarrow> rescale_all f tb xs r = map (\<lambda>t. tr_base r + f (t - z) (tr_local r) tb) xs"
  by (induction xs arbitrary: r) (simp_all add: rescale_to_clock_def)

lemma sorted_map_mono:
  fixes f :: "int \<Rightarrow> int"
  shows "sorted xs \<Longrightarrow> (\<And>s t. s \<le> t \<Longrightarrow> f s \<le> f t) \<Longrightarrow> sorted (map f xs)"
  by (induction xs) auto

text \<open>
  A rescaler maps the first timestamp to the time of the clock at its creation and later ones to
  later times.
\<close>

theorem rescaled_times_in_order:
  assumes "\<And>a b. rescale 0 a b = 0" and "\<And>s t a b. s \<le> t \<Longrightarrow> rescale s a b \<le> rescale t a b"
    and "sorted (t # xs)"
  shows "sorted (rescale_all rescale (c_time_base c) (t # xs) (clock_relative c tb)) \<and>
    hd (rescale_all rescale (c_time_base c) (t # xs) (clock_relative c tb)) = clock_now c"
proof -
  let ?f = "\<lambda>u. c_val c + rescale (u - t) tb (c_time_base c)"
  have e: "rescale_all rescale (c_time_base c) (t # xs) (clock_relative c tb) = map ?f (t # xs)"
    using assms(1) by (simp add: rescale_to_clock_def clock_relative_def rescale_all_known clock_now_def)
  have "sorted (map ?f (t # xs))" using assms(3) by (rule sorted_map_mono) (simp add: assms(2))
  then show ?thesis using e assms(1) by (simp add: clock_now_def)
qed

theorem rescaled_times_in_order_witness:
  "sorted (rescale_all (\<lambda>t a b. t * 3) (c_time_base default_clock) [7, 9, 20] (clock_relative default_clock (1, 30000))) \<and>
   hd (rescale_all (\<lambda>t a b. t * 3) (c_time_base default_clock) [7, 9, 20] (clock_relative default_clock (1, 30000)))
     = clock_now default_clock"
  by (rule rescaled_times_in_order) simp_all

end
