(* ===== verification/Inputs.thy ===== *)
theory Inputs
  imports Metadata_Queue Clock
begin

text \<open>
  The inputs: \<^verbatim>\<open>src/iospec.h\<close>, \<^verbatim>\<open>abstract_input.h\<close> and
  \<^verbatim>\<open>.cpp\<close>, \<^verbatim>\<open>clear_input.h\<close> and \<^verbatim>\<open>.cpp\<close>,
  \<^verbatim>\<open>user_defined_input.h\<close> and \<^verbatim>\<open>.cpp\<close>.  The two classes derived from
  \<^verbatim>\<open>AbstractInput\<close> are one record with the class as a field; a virtual call is a case
  distinction on it.
\<close>

section \<open>Specifications and capabilities\<close>

record input_spec =
  is_id :: input_id
  is_name :: string
  is_source :: string
  is_sink :: string
  is_source_format :: "string option"
  is_sink_format :: "string option"
  is_virtual :: bool

definition default_input_spec :: input_spec where
  "default_input_spec = \<lparr>is_id = 0, is_name = [], is_source = [], is_sink = [],
     is_source_format = None, is_sink_format = None, is_virtual = False\<rparr>"

record output_spec =
  os_source :: string
  os_sink :: string
  os_source_format :: "string option"
  os_sink_format :: "string option"
  os_ts_adjustment :: ts

record capabilities =
  cap_sei :: bool
  cap_scte :: bool

definition has_cap :: "kind \<Rightarrow> capabilities \<Rightarrow> bool" where
  "has_cap k c = (case k of Sei_Kind \<Rightarrow> cap_sei c | Scte_Kind \<Rightarrow> cap_scte c | Time_Source_Kind \<Rightarrow> False)"

definition set_cap :: "kind \<Rightarrow> bool \<Rightarrow> capabilities \<Rightarrow> capabilities" where
  "set_cap k v c = (case k of Sei_Kind \<Rightarrow> c\<lparr>cap_sei := v\<rparr> | Scte_Kind \<Rightarrow> c\<lparr>cap_scte := v\<rparr> | Time_Source_Kind \<Rightarrow> c)"

definition require_cap :: "kind \<Rightarrow> capabilities \<Rightarrow> unit result" where
  "require_cap k c =
     (if \<not> has_cap k c
      then Inl (Runtime_Error (''Required input capability has not been found: '' @ kind_description k))
      else Inr ())"

section \<open>Inputs\<close>

datatype input_class = Clear_Input | User_Defined_Input

record input =
  in_class :: input_class
  in_spec :: input_spec
  in_caps :: capabilities
  in_restart_scheduled :: bool

definition clear_input_name :: string where
  "clear_input_name = ''clear''"

definition clear_input :: "input_id \<Rightarrow> input" where
  "clear_input i = \<lparr>in_class = Clear_Input,
     in_spec = default_input_spec\<lparr>is_id := i, is_name := clear_input_name, is_virtual := True\<rparr>,
     in_caps = \<lparr>cap_sei = True, cap_scte = True\<rparr>, in_restart_scheduled = False\<rparr>"

definition user_defined_input :: "input_spec \<Rightarrow> input" where
  "user_defined_input s = \<lparr>in_class = User_Defined_Input, in_spec = s,
     in_caps = \<lparr>cap_sei = False, cap_scte = False\<rparr>, in_restart_scheduled = False\<rparr>"

definition input_schedule_restart :: "input \<Rightarrow> input" where
  "input_schedule_restart inp = (case in_class inp of
      Clear_Input \<Rightarrow> inp
    | User_Defined_Input \<Rightarrow> inp\<lparr>in_restart_scheduled := True\<rparr>)"

definition set_restart_scheduled :: "bool \<Rightarrow> input \<Rightarrow> input" where
  "set_restart_scheduled b inp = inp\<lparr>in_restart_scheduled := b\<rparr>"

text \<open>\<^verbatim>\<open>UserDefinedInput::push\<close>, for each kind: the capability is declared, the entry queued.\<close>

definition push_sei ::
  "ts \<Rightarrow> ts \<Rightarrow> int \<Rightarrow> sei_payload \<Rightarrow> input \<times> meta_queues \<Rightarrow> input \<times> meta_queues" where
  "push_sei pts dts order val s = (let (inp, g) = s in
     (inp\<lparr>in_caps := set_cap Sei_Kind True (in_caps inp)\<rparr>,
      group_push_sei \<lparr>md_input_id = is_id (in_spec inp), md_pts = pts, md_dts = dts,
        md_order = order, md_val = val\<rparr> g))"

definition push_scte ::
  "ts \<Rightarrow> ts \<Rightarrow> int \<Rightarrow> splice_info_section \<Rightarrow> input \<times> meta_queues \<Rightarrow> input \<times> meta_queues" where
  "push_scte pts dts order val s = (let (inp, g) = s in
     (inp\<lparr>in_caps := set_cap Scte_Kind True (in_caps inp)\<rparr>,
      group_push_scte \<lparr>md_input_id = is_id (in_spec inp), md_pts = pts, md_dts = dts,
        md_order = order, md_val = val\<rparr> g))"

section \<open>Queries\<close>

definition clear_query_sei :: "input \<Rightarrow> ts \<Rightarrow> ts \<Rightarrow> sei_payload metadata list option" where
  "clear_query_sei inp since until = Some [build_cc_reset_metadata (is_id (in_spec inp)) (max since (until - 1))]"

definition clear_query_scte :: "input \<Rightarrow> ts \<Rightarrow> ts \<Rightarrow> splice_info_section metadata list option" where
  "clear_query_scte inp since until = (let t = max since (until - 1) in
     Some [\<lparr>md_input_id = is_id (in_spec inp), md_pts = t, md_dts = t, md_order = 0,
       md_val = \<lparr>encrypted_packet = False, encryption_algorithm = 0, pts_adjustment = 0,
         cw_index = 0, tier = 0xFFF, command = Splice_Null, descriptors = []\<rparr>\<rparr>])"

definition user_query_sei ::
  "cpp_impl \<Rightarrow> input \<Rightarrow> ts \<Rightarrow> ts \<Rightarrow> meta_queues
    \<Rightarrow> (sei_payload metadata list option \<times> meta_queues) result" where
  "user_query_sei im inp since until g =
     bind_res (group_pop_all_sei im (is_id (in_spec inp)) since until g) (\<lambda>(v, g).
     Inr (if length v > 0 then Some v else None, g))"

text \<open>The base class; a user's input does not override the SCTE-35 query.\<close>

definition default_query_scte :: "input \<Rightarrow> ts \<Rightarrow> ts \<Rightarrow> splice_info_section metadata list option" where
  "default_query_scte inp since until = None"

definition run_query_sei ::
  "cpp_impl \<Rightarrow> input \<Rightarrow> ts \<Rightarrow> ts \<Rightarrow> meta_queues
    \<Rightarrow> (sei_payload metadata list option \<times> meta_queues) result" where
  "run_query_sei im inp since until g = (case in_class inp of
      Clear_Input \<Rightarrow> Inr (clear_query_sei inp since until, g)
    | User_Defined_Input \<Rightarrow> user_query_sei im inp since until g)"

definition run_query_scte ::
  "input \<Rightarrow> ts \<Rightarrow> ts \<Rightarrow> splice_info_section metadata list option" where
  "run_query_scte inp since until = (case in_class inp of
      Clear_Input \<Rightarrow> clear_query_scte inp since until
    | User_Defined_Input \<Rightarrow> default_query_scte inp since until)"

declare clear_query_sei_def [simp] clear_query_scte_def [simp] user_query_sei_def [simp] default_query_scte_def [simp]

definition build_empty_sei :: "input \<Rightarrow> ts \<Rightarrow> ts \<Rightarrow> sei_payload metadata list" where
  "build_empty_sei inp since until = [build_empty_metadata (is_id (in_spec inp)) (max since (until - 1))]"

definition build_empty_scte :: "input \<Rightarrow> ts \<Rightarrow> ts \<Rightarrow> splice_info_section metadata list result" where
  "build_empty_scte inp since until = Inl (Runtime_Error ''not implemented yet'')"

definition query_sei ::
  "cpp_impl \<Rightarrow> input \<Rightarrow> ts \<Rightarrow> ts \<Rightarrow> meta_queues \<Rightarrow> (sei_payload metadata list \<times> meta_queues) result" where
  "query_sei im inp since until g =
     bind_res (run_query_sei im inp since until g) (\<lambda>(r, g).
     case r of Some v \<Rightarrow> Inr (v, g) | None \<Rightarrow> Inr (build_empty_sei inp since until, g))"

definition query_scte ::
  "input \<Rightarrow> ts \<Rightarrow> ts \<Rightarrow> splice_info_section metadata list result" where
  "query_scte inp since until = (case run_query_scte inp since until of
      Some v \<Rightarrow> Inr v
    | None \<Rightarrow> build_empty_scte inp since until)"

section \<open>Properties\<close>

text \<open>
  A query always has an answer for the frame: at least one entry, all of them of the input asked
  and, when the frame is not empty, within the frame; entries queued for later stay.
\<close>

definition heap_group :: "meta_queues \<Rightarrow> bool" where
  "heap_group g \<longleftrightarrow> heap_queue (g_sei g) \<and> heap_queue (g_scte g)"

lemma query_sei_spec:
  assumes "heap_group g" and "since < until" and "query_sei im inp since until g = Inr (v, g')"
  shows "v \<noteq> [] \<and> list_all (matches (is_id (in_spec inp)) since until) v \<and> heap_group g' \<and>
    g_scte g' = g_scte g \<and>
    (\<forall>x \<in># mset (g_sei g). until \<le> md_pts x \<longrightarrow> x \<in># mset (g_sei g'))"
proof (cases "in_class inp")
  case Clear_Input
  with assms show ?thesis
    by (auto simp: query_sei_def run_query_sei_def build_cc_reset_metadata_def matches_def)
next
  case User_Defined_Input
  then obtain out q where p: "pop_all im (is_id (in_spec inp)) since until [] (g_sei g) = Inr (out, q)"
    and r: "v = (if length out > 0 then out else build_empty_sei inp since until)" "g' = g\<lparr>g_sei := q\<rparr>"
    using assms(3) by (auto simp: query_sei_def run_query_sei_def group_pop_all_sei_def bind_res_Inr_iff
        split: if_splits)
  have "heap_queue (g_sei g)" using assms(1) by (simp add: heap_group_def)
  from pop_all_spec [OF this p] have sp: "heap_queue q" "mset q = filter_mset (\<lambda>x. until \<le> md_pts x) (mset (g_sei g))"
    "\<forall>x \<in> set out. matches (is_id (in_spec inp)) since until x" by auto
  have "x \<in># mset q" if "x \<in># mset (g_sei g)" "until \<le> md_pts x" for x
    using that by (simp only: sp(2)) simp
  with sp(1,3) assms(1,2) show ?thesis
    by (auto simp: r list_all_iff heap_group_def build_empty_sei_def build_empty_metadata_def matches_def)
qed

text \<open>
  The answer to a query for a non-empty frame is never empty, all its entries are of the input
  asked and within the frame, and entries queued for later stay queued.
\<close>

theorem query_answers_every_frame:
  assumes "heap_group g" and "since < until" and "query_sei im inp since until g = Inr (v, g')"
  shows "v \<noteq> [] \<and> list_all (matches (is_id (in_spec inp)) since until) v \<and> heap_group g' \<and>
    g_scte g' = g_scte g \<and>
    (\<forall>x \<in># mset (g_sei g). until \<le> md_pts x \<longrightarrow> x \<in># mset (g_sei g'))"
  using assms by (rule query_sei_spec)

theorem query_answers_every_frame_witness:
  "[build_empty_metadata 3 (10 - 1)] \<noteq> [] \<and>
   list_all (matches 3 0 10) [build_empty_metadata 3 (10 - 1)]"
proof -
  let ?i = "user_defined_input (default_input_spec\<lparr>is_id := 3\<rparr>)"
  have "heap_group empty_queues" by (simp add: heap_group_def empty_queues_def is_heap_def)
  moreover have "query_sei sample_impl ?i 0 10 empty_queues = Inr ([build_empty_metadata 3 (10 - 1)], empty_queues)"
    by (simp add: query_sei_def run_query_sei_def user_defined_input_def group_pop_all_sei_def
        empty_queues_def pop_all.simps pop_impl.simps build_empty_sei_def)
  ultimately show ?thesis
    using query_answers_every_frame [of empty_queues 0 10 sample_impl ?i] by (simp add: user_defined_input_def)
qed

text \<open>
  A query for SCTE-35 metadata of a user defined input always throws.
\<close>

theorem scte_query_of_user_input_throws:
  assumes "in_class inp = User_Defined_Input"
  shows "query_scte inp since until = Inl (Runtime_Error ''not implemented yet'')"
  using assms by (simp add: query_scte_def run_query_scte_def build_empty_scte_def)

theorem scte_query_of_user_input_throws_witness:
  "query_scte (user_defined_input default_input_spec) 0 1 = Inl (Runtime_Error ''not implemented yet'')"
  by (rule scte_query_of_user_input_throws) (simp add: user_defined_input_def)

text \<open>
  A push declares the capability, keeps the queue a heap and adds exactly one entry, with the id
  of the input.
\<close>

theorem pushed_entry_is_found:
  assumes "heap_group g" and "push_sei pts dts order val (inp, g) = (inp', g')"
  shows "has_cap Sei_Kind (in_caps inp') \<and> in_spec inp' = in_spec inp \<and> heap_group g' \<and>
    mset (g_sei g') = add_mset \<lparr>md_input_id = is_id (in_spec inp), md_pts = pts, md_dts = dts,
      md_order = order, md_val = val\<rparr> (mset (g_sei g))"
  using assms
  by (auto simp: push_sei_def has_cap_def set_cap_def group_push_sei_def heap_group_def mq_push_def
      mq.push_heap_heap mq.push_mset)

theorem pushed_entry_is_found_witness:
  "has_cap Sei_Kind (in_caps (fst (push_sei 5 5 0 EMPTY_SEI (user_defined_input default_input_spec, empty_queues))))"
proof -
  have "heap_group empty_queues" by (simp add: heap_group_def empty_queues_def is_heap_def)
  moreover obtain inp' g' where "push_sei 5 5 0 EMPTY_SEI (user_defined_input default_input_spec, empty_queues) = (inp', g')"
    by fastforce
  ultimately show ?thesis using pushed_entry_is_found by auto
qed

end
