(* ===== verification/Streams.thy ===== *)
theory Streams
  imports Inputs
begin

text \<open>
  The streams of a container and their roles: \<^verbatim>\<open>src/io/stream_classification.h\<close>,
  \<^verbatim>\<open>io_handle.h\<close> and \<^verbatim>\<open>io_handle.cpp\<close>.  What libavformat knows of a
  stream is a record; its tables of formats and its choice of a best video stream are arguments.
\<close>

datatype codec_id = Codec_H264 | Codec_Scte_35 | Codec_Other
datatype media_type = Media_Video | Media_Audio | Media_Data | Media_Subtitle | Media_Other

record av_stream =
  st_codec_id :: codec_id
  st_codec_type :: media_type
  st_time_base :: time_base
  st_cur_dts :: ts

section \<open>The classification\<close>

record stream_classification =
  sc_time_source :: "nat option"
  sc_sei :: "nat option"
  sc_scte :: "nat option"

definition no_classification :: stream_classification where
  "no_classification = \<lparr>sc_time_source = None, sc_sei = None, sc_scte = None\<rparr>"

definition sc_index :: "kind \<Rightarrow> stream_classification \<Rightarrow> nat option" where
  "sc_index k sc = (case k of Time_Source_Kind \<Rightarrow> sc_time_source sc | Sei_Kind \<Rightarrow> sc_sei sc | Scte_Kind \<Rightarrow> sc_scte sc)"

definition sc_set :: "kind \<Rightarrow> nat \<Rightarrow> stream_classification \<Rightarrow> stream_classification" where
  "sc_set k i sc = (case k of
      Time_Source_Kind \<Rightarrow> sc\<lparr>sc_time_source := Some i\<rparr>
    | Sei_Kind \<Rightarrow> sc\<lparr>sc_sei := Some i\<rparr>
    | Scte_Kind \<Rightarrow> sc\<lparr>sc_scte := Some i\<rparr>)"

definition sc_has :: "kind \<Rightarrow> stream_classification \<Rightarrow> bool" where
  "sc_has k sc \<longleftrightarrow> sc_index k sc \<noteq> None"

definition sc_classify :: "kind \<Rightarrow> nat \<Rightarrow> stream_classification \<Rightarrow> stream_classification result" where
  "sc_classify k i sc =
     (if sc_has k sc then Inl (Runtime_Error (''Stream kind already registered: '' @ kind_description k))
      else Inr (sc_set k i sc))"

definition sc_require :: "kind \<Rightarrow> stream_classification \<Rightarrow> unit result" where
  "sc_require k sc =
     (if \<not> sc_has k sc then Inl (Runtime_Error (''Required stream kind has not been found: '' @ kind_description k))
      else Inr ())"

section \<open>Access to streams\<close>

definition get_stream :: "nat \<Rightarrow> av_stream list \<Rightarrow> av_stream result" where
  "get_stream i streams =
     (if i \<ge> length streams then Inl (Runtime_Error ''Out-of-range access to stream table.'')
      else Inr (streams ! i))"

definition get_stream_of :: "kind \<Rightarrow> stream_classification \<Rightarrow> av_stream list \<Rightarrow> av_stream result" where
  "get_stream_of k sc streams = (case sc_index k sc of
      Some i \<Rightarrow> get_stream i streams
    | None \<Rightarrow> Inl (Runtime_Error (''Getting unregistered stream class: '' @ kind_description k)))"

section \<open>Classifying\<close>

text \<open>A format is found by one of the names in its comma separated list.\<close>

fun find_format :: "string list \<Rightarrow> string \<Rightarrow> string option" where
  "find_format [] needle = None"
| "find_format (name # names) needle =
     (if needle \<in> set (split_on CHR '','' name) then Some name else find_format names needle)"

text \<open>The formats of the handle, as a source has one and a sink the other.\<close>

record format_context =
  fc_streams :: "av_stream list"
  fc_iformat :: "string option"
  fc_oformat :: "string option"

definition in_mpegts :: "string list \<Rightarrow> string list \<Rightarrow> format_context \<Rightarrow> bool" where
  "in_mpegts demuxers muxers ctx \<longleftrightarrow>
     (let ifmt = find_format demuxers ''mpegts''; ofmt = find_format muxers ''mpegts'' in
      (ifmt \<noteq> None \<and> fc_iformat ctx \<noteq> None \<and> fc_iformat ctx = ifmt) \<or>
      (ofmt \<noteq> None \<and> fc_oformat ctx \<noteq> None \<and> fc_oformat ctx = ofmt))"

fun classify_from ::
  "bool \<Rightarrow> nat \<Rightarrow> av_stream list \<Rightarrow> stream_classification \<Rightarrow> stream_classification result" where
  "classify_from mpegts i [] sc = Inr sc"
| "classify_from mpegts i (st # streams) sc =
     bind_res
       (if st_codec_id st = Codec_H264 then
          (if mpegts then Inr sc else sc_classify Sei_Kind i sc)
        else if st_codec_id st = Codec_Scte_35 then sc_classify Scte_Kind i sc
        else Inr sc)
       (classify_from mpegts (i + 1) streams)"

text \<open>\<open>best\<close> is the result of \<^verbatim>\<open>av_find_best_stream\<close>; it is negative when there is none.\<close>

definition classify_streams ::
  "string list \<Rightarrow> string list \<Rightarrow> int \<Rightarrow> format_context \<Rightarrow> stream_classification result" where
  "classify_streams demuxers muxers best ctx =
     bind_res (classify_from (in_mpegts demuxers muxers ctx) 0 (fc_streams ctx) no_classification) (\<lambda>sc.
     case sc_index Sei_Kind sc of
       Some i \<Rightarrow> sc_classify Time_Source_Kind i sc
     | None \<Rightarrow> if best \<ge> 0 then sc_classify Time_Source_Kind (nat best) sc else Inr sc)"

section \<open>What is classified\<close>

fun codec_indices :: "codec_id \<Rightarrow> nat \<Rightarrow> av_stream list \<Rightarrow> nat list" where
  "codec_indices c i [] = []"
| "codec_indices c i (st # streams) =
     (if st_codec_id st = c then i # codec_indices c (i + 1) streams else codec_indices c (i + 1) streams)"

definition sei_indices :: "bool \<Rightarrow> nat \<Rightarrow> av_stream list \<Rightarrow> nat list" where
  "sei_indices mpegts i streams = (if mpegts then [] else codec_indices Codec_H264 i streams)"

definition first_or :: "nat list \<Rightarrow> nat option \<Rightarrow> nat option" where
  "first_or is old = (case is of [] \<Rightarrow> old | i # _ \<Rightarrow> Some i)"

definition at_most_one :: "nat list \<Rightarrow> nat option \<Rightarrow> bool" where
  "at_most_one is old \<longleftrightarrow> length is + (if old = None then 0 else 1) \<le> 1"

lemmas classification_defs = sc_classify_def sc_has_def sc_index_def sc_set_def sei_indices_def first_or_def at_most_one_def

lemma classify_from_spec:
  "if at_most_one (sei_indices m i ss) (sc_sei sc) \<and> at_most_one (codec_indices Codec_Scte_35 i ss) (sc_scte sc)
   then classify_from m i ss sc = Inr (sc\<lparr>sc_sei := first_or (sei_indices m i ss) (sc_sei sc),
          sc_scte := first_or (codec_indices Codec_Scte_35 i ss) (sc_scte sc)\<rparr>)
   else is_error (classify_from m i ss sc)"
proof (induction ss arbitrary: i sc)
  case Nil
  then show ?case by (simp add: classification_defs)
next
  case (Cons st ss)
  show ?case
  proof (cases "st_codec_id st")
    case Codec_H264
    then show ?thesis
      using Cons.IH [of "i + 1" sc] Cons.IH [of "i + 1" "sc\<lparr>sc_sei := Some i\<rparr>"]
      by (auto simp: classification_defs split: if_splits list.splits)
  next
    case Codec_Scte_35
    then show ?thesis
      using Cons.IH [of "i + 1" sc] Cons.IH [of "i + 1" "sc\<lparr>sc_scte := Some i\<rparr>"]
      by (auto simp: classification_defs split: if_splits list.splits)
  next
    case Codec_Other
    then show ?thesis
      using Cons.IH [of "Suc i" sc, unfolded sei_indices_def] by (cases m; simp add: sei_indices_def split: if_splits; blast?)
  qed
qed

lemma codec_indices_spec:
  "x \<in> set (codec_indices c i ss) \<longleftrightarrow> i \<le> x \<and> x < i + length ss \<and> st_codec_id (ss ! (x - i)) = c"
proof (induction ss arbitrary: i)
  case (Cons st ss)
  have "(st # ss) ! (x - i) = (if x = i then st else ss ! (x - Suc i))" if "i \<le> x"
    using that by (auto simp: nth_Cons')
  then show ?case using Cons.IH [of "Suc i"] by (cases "x = i") auto
qed simp

lemma first_or_None: "first_or is None = Some x \<Longrightarrow> x \<in> set is"
  by (auto simp: first_or_def split: list.splits)

text \<open>
  Classification succeeds exactly when there is at most one H.264 stream outside MPEG-TS and at
  most one SCTE-35 stream; then these are the classified ones, the time source is the H.264
  stream or else the best video stream, and every index is within the stream table.
\<close>

theorem classification_spec:
  assumes "best < int (length (fc_streams ctx))" and "m = in_mpegts demuxers muxers ctx"
    and "seis = sei_indices m 0 (fc_streams ctx)" and "sctes = codec_indices Codec_Scte_35 0 (fc_streams ctx)"
  shows "case classify_streams demuxers muxers best ctx of
      Inl e \<Rightarrow> 1 < length seis \<or> 1 < length sctes
    | Inr sc \<Rightarrow> length seis \<le> 1 \<and> length sctes \<le> 1 \<and>
        sc_sei sc = first_or seis None \<and> sc_scte sc = first_or sctes None \<and>
        sc_time_source sc = (case sc_sei sc of Some i \<Rightarrow> Some i | None \<Rightarrow> if best \<ge> 0 then Some (nat best) else None) \<and>
        (\<forall>k i. sc_index k sc = Some i \<longrightarrow> (\<exists>st. get_stream i (fc_streams ctx) = Inr st))"
proof (cases "length seis \<le> 1 \<and> length sctes \<le> 1")
  case False
  then have "is_error (classify_from m 0 (fc_streams ctx) no_classification)"
    using classify_from_spec [of m 0 "fc_streams ctx" no_classification] assms(3,4)
    by (auto simp: at_most_one_def no_classification_def split: if_splits)
  with False show ?thesis by (auto simp: classify_streams_def is_error_iff assms(2))
next
  case True
  let ?sc = "\<lparr>sc_time_source = None, sc_sei = first_or seis None, sc_scte = first_or sctes None\<rparr>"
  have c: "classify_from m 0 (fc_streams ctx) no_classification = Inr ?sc"
    using classify_from_spec [of m 0 "fc_streams ctx" no_classification] assms(3,4) True
    by (simp add: at_most_one_def no_classification_def)
  have l: "i < length (fc_streams ctx)" if "first_or seis None = Some i \<or> first_or sctes None = Some i" for i
    using that codec_indices_spec [of i _ 0 "fc_streams ctx"]
    by (auto simp: assms(3,4) sei_indices_def dest!: first_or_None split: if_splits)
  have r: "\<exists>st. get_stream i (fc_streams ctx) = Inr st"
    if "first_or seis None = Some i \<or> first_or sctes None = Some i \<or> best \<ge> 0 \<and> i = nat best" for i
    using that assms(1) l [of i] by (auto simp: get_stream_def)
  show ?thesis
    using True r by (auto simp: classify_streams_def c [unfolded assms(2)] sc_index_def sc_classify_def sc_has_def sc_set_def
        split: option.splits kind.splits)
qed

definition sample_streams :: "av_stream list" where
  "sample_streams = [\<lparr>st_codec_id = Codec_Other, st_codec_type = Media_Audio, st_time_base = (1, 48000), st_cur_dts = 0\<rparr>,
     \<lparr>st_codec_id = Codec_H264, st_codec_type = Media_Video, st_time_base = (1, 90000), st_cur_dts = 0\<rparr>]"

definition sample_context :: format_context where
  "sample_context = \<lparr>fc_streams = sample_streams, fc_iformat = Some ''mov,mp4'', fc_oformat = None\<rparr>"

theorem classification_spec_witness:
  "classify_streams [''mov,mp4'', ''mpegts''] [''mpegts''] 1 sample_context
     = Inr \<lparr>sc_time_source = Some 1, sc_sei = Some 1, sc_scte = None\<rparr> \<and>
   first_or (sei_indices False 0 sample_streams) None = Some 1"
proof -
  have c: "classify_streams [''mov,mp4'', ''mpegts''] [''mpegts''] 1 sample_context
     = Inr \<lparr>sc_time_source = Some 1, sc_sei = Some 1, sc_scte = None\<rparr>" by code_simp
  have m: "\<not> in_mpegts [''mov,mp4'', ''mpegts''] [''mpegts''] sample_context" by code_simp
  from classification_spec [of 1 sample_context _ "[''mov,mp4'', ''mpegts'']" "[''mpegts'']", OF _ refl refl refl] m c
  show ?thesis by (simp add: sample_context_def sample_streams_def)
qed

end
