(* ===== verification/Clock_Types.thy ===== *)
theory Clock_Types
  imports Clock "HOL-Library.Signed_Division"
begin

text \<open>
  Timestamps as the machine has them: the strong types that \<^verbatim>\<open>src/clock_types.h\<close>
  generates around \<^verbatim>\<open>int64_t\<close>, and \<^verbatim>\<open>clock.h\<close> and
  \<^verbatim>\<open>clock.cpp\<close> over them.  Overflow of signed numbers is undefined in C++; here they
  wrap, and the theory \<^verbatim>\<open>Clock\<close>, which the rest of the library is built on, is shown to
  be what the machine computes as long as nothing overflows.
\<close>

section \<open>Strong types\<close>

text \<open>The macro is instantiated for two structs, which the tag tells apart.\<close>

datatype 'd strong_ts = Strong (raw_ts: "64 word")

datatype clock_tag = Clock_Tag
datatype stream_tag = Stream_Tag

type_synonym clock_ts = "clock_tag strong_ts"
type_synonym stream_ts = "stream_tag strong_ts"

definition ts_int :: "'d strong_ts \<Rightarrow> ts" where
  "ts_int t = sint (raw_ts t)"

definition clock_literal :: "64 word \<Rightarrow> clock_ts" where
  "clock_literal n = Strong n"

definition stream_literal :: "64 word \<Rightarrow> stream_ts" where
  "stream_literal n = Strong n"

lemma ts_int_inject: "ts_int s = ts_int t \<longleftrightarrow> s = t"
  by (cases s; cases t) (auto simp: ts_int_def intro: signed_word_eqI)

lemma ts_int_range: "in_ts (ts_int t)"
  using sint_range_size [of "raw_ts t"] by (simp add: ts_int_def in_ts_def word_size)

instantiation strong_ts :: (type) linorder
begin

definition less_eq_strong_ts :: "'a strong_ts \<Rightarrow> 'a strong_ts \<Rightarrow> bool" where
  "less_eq_strong_ts s t \<longleftrightarrow> sint (raw_ts s) \<le> sint (raw_ts t)"

definition less_strong_ts :: "'a strong_ts \<Rightarrow> 'a strong_ts \<Rightarrow> bool" where
  "less_strong_ts s t \<longleftrightarrow> sint (raw_ts s) < sint (raw_ts t)"

instance
  by standard (auto simp: less_eq_strong_ts_def less_strong_ts_def ts_int_inject [unfolded ts_int_def])

end

instantiation strong_ts :: (type) "{plus, minus, times, divide}"
begin

definition plus_strong_ts :: "'a strong_ts \<Rightarrow> 'a strong_ts \<Rightarrow> 'a strong_ts" where
  "plus_strong_ts s t = Strong (raw_ts s + raw_ts t)"

definition minus_strong_ts :: "'a strong_ts \<Rightarrow> 'a strong_ts \<Rightarrow> 'a strong_ts" where
  "minus_strong_ts s t = Strong (raw_ts s - raw_ts t)"

definition times_strong_ts :: "'a strong_ts \<Rightarrow> 'a strong_ts \<Rightarrow> 'a strong_ts" where
  "times_strong_ts s t = Strong (raw_ts s * raw_ts t)"

definition divide_strong_ts :: "'a strong_ts \<Rightarrow> 'a strong_ts \<Rightarrow> 'a strong_ts" where
  "divide_strong_ts s t = Strong (word_of_int (sint (raw_ts s) sdiv sint (raw_ts t)))"

instance ..

end

text \<open>The compound assignments: the new value of the left operand.\<close>

definition plus_assign :: "'a strong_ts \<Rightarrow> 'a strong_ts \<Rightarrow> 'a strong_ts" where
  "plus_assign self rhs = Strong (raw_ts self + raw_ts rhs)"

definition minus_assign :: "'a strong_ts \<Rightarrow> 'a strong_ts \<Rightarrow> 'a strong_ts" where
  "minus_assign self rhs = Strong (raw_ts self - raw_ts rhs)"

definition times_assign :: "'a strong_ts \<Rightarrow> 'a strong_ts \<Rightarrow> 'a strong_ts" where
  "times_assign self rhs = Strong (raw_ts self * raw_ts rhs)"

definition divide_assign :: "'a strong_ts \<Rightarrow> 'a strong_ts \<Rightarrow> 'a strong_ts" where
  "divide_assign self rhs = Strong (word_of_int (sint (raw_ts self) sdiv sint (raw_ts rhs)))"

lemma compound_assignments:
  "plus_assign s t = s + t" "minus_assign s t = s - t" "times_assign s t = s * t" "divide_assign s t = s div t"
  by (simp_all add: plus_assign_def minus_assign_def times_assign_def divide_assign_def
    plus_strong_ts_def minus_strong_ts_def times_strong_ts_def divide_strong_ts_def)

lemma sint_word_of_int_ts: "in_ts x \<Longrightarrow> sint (word_of_int x :: 64 word) = x"
  by (simp add: in_ts_def sint_sbintrunc' signed_take_bit_int_eq_self)

lemma ts_int_le: "s \<le> t \<longleftrightarrow> ts_int s \<le> ts_int t" and ts_int_less: "s < t \<longleftrightarrow> ts_int s < ts_int t"
  by (simp_all add: less_eq_strong_ts_def less_strong_ts_def ts_int_def)

text \<open>Without overflow the operators are those of the integers.\<close>

lemma ts_int_plus: "in_ts (ts_int s + ts_int t) \<Longrightarrow> ts_int (s + t) = ts_int s + ts_int t"
  using sint_word_of_int_ts [of "ts_int s + ts_int t"] by (simp add: ts_int_def plus_strong_ts_def)

lemma ts_int_minus: "in_ts (ts_int s - ts_int t) \<Longrightarrow> ts_int (s - t) = ts_int s - ts_int t"
  using sint_word_of_int_ts [of "ts_int s - ts_int t"] by (simp add: ts_int_def minus_strong_ts_def)

lemma ts_int_times: "in_ts (ts_int s * ts_int t) \<Longrightarrow> ts_int (s * t) = ts_int s * ts_int t"
  using sint_word_of_int_ts [of "ts_int s * ts_int t"] by (simp add: ts_int_def times_strong_ts_def)

lemma ts_int_divide: "in_ts (ts_int s sdiv ts_int t) \<Longrightarrow> ts_int (s div t) = ts_int s sdiv ts_int t"
  using sint_word_of_int_ts [of "ts_int s sdiv ts_int t"] by (simp add: ts_int_def divide_strong_ts_def)

section \<open>The clock over them\<close>

text \<open>The parameter of FFmpeg takes and returns \<^verbatim>\<open>int64_t\<close>.\<close>

definition rescale_ts :: "rescaling \<Rightarrow> time_base \<Rightarrow> time_base \<Rightarrow> 'd strong_ts \<Rightarrow> 'e strong_ts" where
  "rescale_ts rescale intb outtb t = Strong (word_of_int (rescale (sint (raw_ts t)) intb outtb))"

record machine_clock =
  mc_val :: "64 word"
  mc_time_base :: time_base

definition mc_now :: "machine_clock \<Rightarrow> clock_ts" where
  "mc_now c = Strong (mc_val c)"

definition mc_increment :: "clock_ts \<Rightarrow> machine_clock \<Rightarrow> machine_clock" where
  "mc_increment delta c = (if clock_literal 0 \<le> delta then c\<lparr>mc_val := mc_val c + raw_ts delta\<rparr> else c)"

record machine_ticker =
  mt_last :: "clock_ts option"

definition machine_tick :: "clock_ts \<Rightarrow> machine_ticker \<times> machine_clock \<Rightarrow> machine_ticker \<times> machine_clock" where
  "machine_tick t s = (let (tk, c) = s in
     case mt_last tk of
       None \<Rightarrow> (tk\<lparr>mt_last := Some t\<rparr>, mc_increment t c)
     | Some l \<Rightarrow> (tk\<lparr>mt_last := Some t\<rparr>, mc_increment (t - l) c))"

record machine_rescaler =
  mr_local :: time_base
  mr_base :: clock_ts
  mr_zero :: "stream_ts option"

definition machine_clock_relative :: "machine_clock \<Rightarrow> time_base \<Rightarrow> machine_rescaler" where
  "machine_clock_relative c tb = \<lparr>mr_local = tb, mr_base = mc_now c, mr_zero = None\<rparr>"

definition machine_rescale ::
  "rescaling \<Rightarrow> time_base \<Rightarrow> stream_ts \<Rightarrow> machine_rescaler \<Rightarrow> clock_ts \<times> machine_rescaler" where
  "machine_rescale rescale clock_tb t r =
     (let zero = (case mr_zero r of None \<Rightarrow> t | Some z \<Rightarrow> z);
          r = r\<lparr>mr_zero := Some zero\<rparr>
      in (mr_base r + rescale_ts rescale (mr_local r) clock_tb (t - zero), r))"

section \<open>What the integers say of it\<close>

definition abs_clock :: "machine_clock \<Rightarrow> clock" where
  "abs_clock c = \<lparr>c_val = sint (mc_val c), c_time_base = mc_time_base c\<rparr>"

definition abs_ticker :: "machine_ticker \<Rightarrow> ts_ticker" where
  "abs_ticker tk = \<lparr>tt_last = map_option ts_int (mt_last tk)\<rparr>"

definition abs_rescaler :: "machine_rescaler \<Rightarrow> ts_rescaler" where
  "abs_rescaler r = \<lparr>tr_local = mr_local r, tr_base = ts_int (mr_base r), tr_zero = map_option ts_int (mr_zero r)\<rparr>"

text \<open>The counter of the clock wraps in both models, so an increment never leaves them apart.\<close>

lemma wrap64_sint: "wrap64 (sint v + sint w) = sint (v + w :: 64 word)"
  by (simp add: wrap64_def signed_take_bit_add sint_word_ariths(1))

lemma abs_increment: "abs_clock (mc_increment d c) = clock_increment (ts_int d) (abs_clock c)"
  by (simp add: mc_increment_def clock_increment_def abs_clock_def ts_int_def clock_literal_def less_eq_strong_ts_def wrap64_sint)

definition step_fits :: "clock_ts \<Rightarrow> machine_ticker \<Rightarrow> bool" where
  "step_fits t tk \<longleftrightarrow> (case mt_last tk of None \<Rightarrow> True | Some l \<Rightarrow> in_ts (ts_int t - ts_int l))"

lemma abs_tick:
  assumes "step_fits t tk"
  shows "map_prod abs_ticker abs_clock (machine_tick t (tk, c)) = tick (ts_int t) (abs_ticker tk, abs_clock c)"
  using assms
  by (auto simp: machine_tick_def tick_def step_fits_def abs_ticker_def abs_increment ts_int_minus split: option.splits)

definition rescale_fits :: "rescaling \<Rightarrow> time_base \<Rightarrow> stream_ts \<Rightarrow> machine_rescaler \<Rightarrow> bool" where
  "rescale_fits rescale tb t r \<longleftrightarrow> (let d = ts_int t - (case mr_zero r of None \<Rightarrow> ts_int t | Some z \<Rightarrow> ts_int z) in
     in_ts d \<and> in_ts (rescale d (mr_local r) tb) \<and> in_ts (ts_int (mr_base r) + rescale d (mr_local r) tb))"

lemma ts_int_rescale: "in_ts (rescale (ts_int t) a b) \<Longrightarrow> ts_int (rescale_ts rescale a b t) = rescale (ts_int t) a b"
  using sint_word_of_int_ts by (simp add: ts_int_def rescale_ts_def)

lemma abs_rescale:
  assumes "rescale_fits rescale tb t r"
  shows "map_prod ts_int abs_rescaler (machine_rescale rescale tb t r) = rescale_to_clock rescale tb (ts_int t) (abs_rescaler r)"
proof (cases "mr_zero r")
  case None
  then show ?thesis using assms
    by (simp add: rescale_fits_def machine_rescale_def rescale_to_clock_def abs_rescaler_def ts_int_plus ts_int_rescale ts_int_minus)
next
  case (Some z)
  then show ?thesis using assms
    by (simp add: rescale_fits_def machine_rescale_def rescale_to_clock_def abs_rescaler_def Let_def
        ts_int_plus ts_int_rescale ts_int_minus)
qed

section \<open>The clock of the output\<close>

record machine_clock_ticker =
  mct_ticker :: machine_ticker
  mct_rescaler :: machine_rescaler

definition new_machine_clock_ticker :: "machine_clock \<Rightarrow> time_base \<Rightarrow> machine_clock_ticker" where
  "new_machine_clock_ticker c tb = \<lparr>mct_ticker = \<lparr>mt_last = None\<rparr>, mct_rescaler = machine_clock_relative c tb\<rparr>"

definition machine_clock_ticker_process ::
  "rescaling \<Rightarrow> stream_ts \<Rightarrow> machine_clock_ticker \<times> machine_clock \<Rightarrow> machine_clock_ticker \<times> machine_clock" where
  "machine_clock_ticker_process rescale pts s = (let (ct, c) = s;
     (t, r) = machine_rescale rescale (mc_time_base c) pts (mct_rescaler ct);
     (tk, c) = machine_tick t (mct_ticker ct, c)
   in (ct\<lparr>mct_ticker := tk, mct_rescaler := r\<rparr>, c))"

definition abs_clock_ticker :: "machine_clock_ticker \<Rightarrow> clock_ticker" where
  "abs_clock_ticker ct = \<lparr>ct_ticker = abs_ticker (mct_ticker ct), ct_rescaler = abs_rescaler (mct_rescaler ct)\<rparr>"

text \<open>Far from the ends of the range: the zero and the base are fixed, the last time is close to the base.\<close>

definition ticker_close :: "time_base \<Rightarrow> time_base \<Rightarrow> stream_ts \<Rightarrow> clock_ts \<Rightarrow> machine_clock_ticker \<times> machine_clock \<Rightarrow> bool" where
  "ticker_close tb ctb z base s \<longleftrightarrow> (let (ct, c) = s in
     mr_local (mct_rescaler ct) = tb \<and> mr_base (mct_rescaler ct) = base \<and> mc_time_base c = ctb \<and>
     (mr_zero (mct_rescaler ct) = Some z \<or> mr_zero (mct_rescaler ct) = None) \<and>
     (\<forall>l. mt_last (mct_ticker ct) = Some l \<longrightarrow> \<bar>ts_int l - ts_int base\<bar> \<le> 2 ^ 61))"

lemma close_step:
  assumes "ticker_close tb ctb z base s" and "\<And>d. \<bar>d\<bar> \<le> 2 ^ 60 \<Longrightarrow> \<bar>rescale d tb ctb\<bar> \<le> 2 ^ 61"
    and "0 \<le> ts_int base" and "ts_int base < 2 ^ 61" and "\<bar>ts_int t - ts_int z\<bar> \<le> 2 ^ 60"
    and "mr_zero (mct_rescaler (fst s)) = None \<Longrightarrow> t = z"
  shows "map_prod abs_clock_ticker abs_clock (machine_clock_ticker_process rescale t s)
      = clock_ticker_process rescale (ts_int t) (map_prod abs_clock_ticker abs_clock s)"
    and "ticker_close tb ctb z base (machine_clock_ticker_process rescale t s)"
    and "mr_zero (mct_rescaler (fst (machine_clock_ticker_process rescale t s))) = Some z"
proof -
  obtain ct c where s: "s = (ct, c)" by (cases s)
  let ?r = "mct_rescaler ct" and ?tk = "mct_ticker ct"
  have r: "mr_local ?r = tb" "mr_base ?r = base" "mc_time_base c = ctb" "mr_zero ?r = Some z \<or> mr_zero ?r = None \<and> t = z"
    and l: "\<And>l. mt_last ?tk = Some l \<Longrightarrow> \<bar>ts_int l - ts_int base\<bar> \<le> 2 ^ 61"
    using assms(1,6) by (auto simp: ticker_close_def s)
  define d where "d = ts_int t - ts_int z"
  have d: "\<bar>d\<bar> \<le> 2 ^ 60" "\<bar>rescale d tb ctb\<bar> \<le> 2 ^ 61" using assms(2,5) by (simp_all add: d_def)
  have z: "ts_int t - (case mr_zero ?r of None \<Rightarrow> ts_int t | Some z \<Rightarrow> ts_int z) = d"
    using r(4) by (auto simp: d_def)
  have fits: "rescale_fits rescale ctb t ?r"
    using d assms(3,4) by (auto simp: rescale_fits_def z r Let_def in_ts_def)
  obtain x r' where m: "machine_rescale rescale ctb t ?r = (x, r')" by fastforce
  from abs_rescale [OF fits] m have ar: "rescale_to_clock rescale ctb (ts_int t) (abs_rescaler ?r) = (ts_int x, abs_rescaler r')"
    by simp
  have zr: "mr_zero r' = Some z" "mr_local r' = tb" "mr_base r' = base"
    using m r by (auto simp: machine_rescale_def Let_def)
  have "ts_int x = ts_int base + rescale d tb ctb"
    using ar r(4) by (cases "mr_zero ?r") (auto simp: rescale_to_clock_def abs_rescaler_def r d_def Let_def)
  then have x: "\<bar>ts_int x - ts_int base\<bar> \<le> 2 ^ 61" using d(2) by simp
  have "step_fits x ?tk"
  proof (cases "mt_last ?tk")
    case (Some y)
    with l [OF Some] x show ?thesis by (auto simp: step_fits_def in_ts_def)
  qed (simp add: step_fits_def)
  note at = abs_tick [OF this, of c]
  obtain tk' c' where tk: "machine_tick x (?tk, c) = (tk', c')" by fastforce
  from at tk have at': "tick (ts_int x) (abs_ticker ?tk, abs_clock c) = (abs_ticker tk', abs_clock c')" by simp
  have tb: "c_time_base (abs_clock c) = ctb" by (simp add: abs_clock_def r(3))
  have last: "mt_last tk' = Some x" "mc_time_base c' = ctb"
    using tk r(3) by (auto simp: machine_tick_def mc_increment_def split: option.splits if_splits)
  have p: "machine_clock_ticker_process rescale t s = (ct\<lparr>mct_ticker := tk', mct_rescaler := r'\<rparr>, c')"
    by (simp add: s machine_clock_ticker_process_def r(3) m tk)
  show "map_prod abs_clock_ticker abs_clock (machine_clock_ticker_process rescale t s)
      = clock_ticker_process rescale (ts_int t) (map_prod abs_clock_ticker abs_clock s)"
    unfolding p by (simp add: s clock_ticker_process_def abs_clock_ticker_def tb ar at')
  show "ticker_close tb ctb z base (machine_clock_ticker_process rescale t s)"
    using zr last x by (simp add: p ticker_close_def)
  show "mr_zero (mct_rescaler (fst (machine_clock_ticker_process rescale t s))) = Some z" by (simp add: p zr)
qed

lemma close_run:
  assumes "\<And>d. \<bar>d\<bar> \<le> 2 ^ 60 \<Longrightarrow> \<bar>rescale d tb ctb\<bar> \<le> 2 ^ 61" and "0 \<le> ts_int base" and "ts_int base < 2 ^ 61"
  shows "ticker_close tb ctb z base s \<Longrightarrow> (\<And>t. t \<in> set ts \<Longrightarrow> \<bar>ts_int t - ts_int z\<bar> \<le> 2 ^ 60) \<Longrightarrow>
    mr_zero (mct_rescaler (fst s)) = Some z \<Longrightarrow>
    map_prod abs_clock_ticker abs_clock (fold (machine_clock_ticker_process rescale) ts s)
      = fold (clock_ticker_process rescale) (map ts_int ts) (map_prod abs_clock_ticker abs_clock s)"
proof (induction ts arbitrary: s)
  case (Cons t ts)
  note st = close_step [where rescale = rescale and t = t, OF Cons.prems(1) assms]
  have "\<bar>ts_int t - ts_int z\<bar> \<le> 2 ^ 60" using Cons.prems(2) by simp
  with st Cons.prems(3) have 1: "map_prod abs_clock_ticker abs_clock (machine_clock_ticker_process rescale t s)
      = clock_ticker_process rescale (ts_int t) (map_prod abs_clock_ticker abs_clock s)"
    "ticker_close tb ctb z base (machine_clock_ticker_process rescale t s)"
    "mr_zero (mct_rescaler (fst (machine_clock_ticker_process rescale t s))) = Some z" by simp_all
  show ?case using Cons.IH [OF 1(2) _ 1(3)] Cons.prems(2) 1(1) by simp
qed simp



end
