(* ===== verification/Printing.thy ===== *)
theory Printing
  imports Inputs Streams Nalu Clock_Types
begin

text \<open>
  Output of values for the log: the stream as far as the printers use it, the generic printers of
  \<^verbatim>\<open>optional_io.h\<close>, \<^verbatim>\<open>variant_io.h\<close> and
  \<^verbatim>\<open>byte_vector_io.h\<close>, and those of the smaller types.  The locale
  \<^verbatim>\<open>printer\<close> says what makes the log readable: on a stream in its usual state a printer
  appends a text that depends on the value only, and no other value has this text, even when more
  text follows.
\<close>

section \<open>Streams\<close>

text \<open>
  A \<^verbatim>\<open>std::ostream\<close> with the state that the printers depend on or change: numbers are
  decimal or hexadecimal, the width counts for one item, the fill character stays.
\<close>

record ostream =
  os_text :: string
  os_hex :: bool
  os_fill :: char
  os_width :: nat
  os_good :: bool

definition put :: "string \<Rightarrow> ostream \<Rightarrow> ostream" where
  "put s os = (if os_good os
     then os\<lparr>os_text := os_text os @ replicate (os_width os - length s) (os_fill os) @ s, os_width := 0\<rparr> else os)"

definition digit_char :: "nat \<Rightarrow> char" where
  "digit_char d = ''0123456789abcdef'' ! d"

fun digits :: "nat \<Rightarrow> nat \<Rightarrow> string" where
  "digits b n = (if n < b \<or> b < 2 then [digit_char (n mod 16)] else digits b (n div b) @ [digit_char (n mod b)])"

declare digits.simps [simp del]

definition put_number :: "nat \<Rightarrow> ostream \<Rightarrow> ostream" where
  "put_number n os = put (digits (if os_hex os then 16 else 10) n) os"

text \<open>A negative number is hexadecimal as the pattern of its bits.\<close>

definition put_signed :: "nat \<Rightarrow> int \<Rightarrow> ostream \<Rightarrow> ostream" where
  "put_signed width i os = put (if os_hex os then digits 16 (nat (i mod 2 ^ width))
     else if i < 0 then CHR ''-'' # digits 10 (nat (- i)) else digits 10 (nat i)) os"

definition put_bool :: "bool \<Rightarrow> ostream \<Rightarrow> ostream" where
  "put_bool b = put_number (if b then 1 else 0)"

definition set_base :: "bool \<Rightarrow> ostream \<Rightarrow> ostream" where
  "set_base hex os = os\<lparr>os_hex := hex\<rparr>"

definition set_width :: "nat \<Rightarrow> ostream \<Rightarrow> ostream" where
  "set_width n os = os\<lparr>os_width := n\<rparr>"

definition set_fill :: "char \<Rightarrow> ostream \<Rightarrow> ostream" where
  "set_fill c os = os\<lparr>os_fill := c\<rparr>"

text \<open>A chain of \<^verbatim>\<open><<\<close>.\<close>

definition emits :: "(ostream \<Rightarrow> ostream) list \<Rightarrow> ostream \<Rightarrow> ostream" where
  "emits ps os = fold (\<lambda>p. p) ps os"

section \<open>Generic printers\<close>

definition put_optional :: "('a \<Rightarrow> ostream \<Rightarrow> ostream) \<Rightarrow> 'a option \<Rightarrow> ostream \<Rightarrow> ostream" where
  "put_optional pr v os = (if os_good os then
     (case v of None \<Rightarrow> put ''--'' os | Some x \<Rightarrow> emits [put '' '', pr x] os) else os)"

text \<open>No variant of the program ever loses its value to an exception.\<close>

definition put_variant :: "nat \<Rightarrow> (ostream \<Rightarrow> ostream) \<Rightarrow> ostream \<Rightarrow> ostream" where
  "put_variant index p = emits [put ''['', put_number index, put ''](''  , p, put '')'']"

definition put_vector :: "('a \<Rightarrow> ostream \<Rightarrow> ostream) \<Rightarrow> 'a list \<Rightarrow> ostream \<Rightarrow> ostream" where
  "put_vector pr data = emits ([put ''[''] @
     (case data of [] \<Rightarrow> [] | x # xs \<Rightarrow> pr x # concat (map (\<lambda>x. [put '','', pr x]) xs)) @ [put '']''])"

text \<open>The flags are put back at the end; the fill character is not among them.\<close>

definition put_bytes :: "u8 list \<Rightarrow> ostream \<Rightarrow> ostream" where
  "put_bytes data os = (emits ([put ''[ '', set_base True] @
     concat (map (\<lambda>x. [set_width 2, set_fill CHR ''0'', put_number (unat x), put '' '']) data) @
     [put '']'']) os)\<lparr>os_hex := os_hex os\<rparr>"

text \<open>Reading an optional back: the rest of the input, or \<open>None\<close> when the stream fails.\<close>

definition get_optional :: "(string \<Rightarrow> ('a \<times> string) option) \<Rightarrow> string \<Rightarrow> ('a option \<times> string) option" where
  "get_optional rd inp = (case inp of
      [] \<Rightarrow> None
    | d # r \<Rightarrow>
        if d = CHR '' '' then map_option (map_prod Some id) (rd r)
        else if d = CHR ''-'' then (case r of [] \<Rightarrow> None | d # r \<Rightarrow> if d = CHR ''-'' then Some (None, r) else None)
        else None)"

section \<open>What a printer writes\<close>

definition stream_ok :: "ostream \<Rightarrow> bool" where
  "stream_ok os \<longleftrightarrow> os_good os \<and> os_width os = 0 \<and> \<not> os_hex os"

definition blank_stream :: ostream where
  "blank_stream = \<lparr>os_text = [], os_hex = False, os_fill = CHR '' '', os_width = 0, os_good = True\<rparr>"

definition text_of :: "(ostream \<Rightarrow> ostream) \<Rightarrow> string" where
  "text_of p = os_text (p blank_stream)"

definition writes :: "(ostream \<Rightarrow> ostream) \<Rightarrow> bool" where
  "writes p \<longleftrightarrow> (\<forall>os. stream_ok os \<longrightarrow> (\<exists>c. p os = os\<lparr>os_text := os_text os @ text_of p, os_fill := c\<rparr>))"

named_theorems prints \<open>printers write, and what they write\<close>

lemma writesI:
  assumes "\<And>os. stream_ok os \<Longrightarrow> \<exists>c. p os = os\<lparr>os_text := os_text os @ t, os_fill := c\<rparr>"
  shows "writes p \<and> text_of p = t"
proof -
  have "stream_ok blank_stream" by (simp add: stream_ok_def blank_stream_def)
  from assms [OF this] have "text_of p = t" by (auto simp: text_of_def blank_stream_def)
  with assms show ?thesis by (auto simp: writes_def)
qed

lemma fill_same: "os = os\<lparr>os_fill := os_fill os\<rparr>" "os\<lparr>os_text := t, os_fill := os_fill os\<rparr> = os\<lparr>os_text := t\<rparr>"
  by simp_all

lemma put_ok: "os_good os \<Longrightarrow> os_width os = 0 \<Longrightarrow> put s os = os\<lparr>os_text := os_text os @ s\<rparr>"
  by (cases os) (simp add: put_def)

lemma put_writes [prints]: "writes (put s)" "text_of (put s) = s"
proof -
  have "\<exists>c. put s os = os\<lparr>os_text := os_text os @ s, os_fill := c\<rparr>" if "stream_ok os" for os
    using that by (intro exI [of _ "os_fill os"]) (simp add: put_def stream_ok_def)
  from writesI [OF this] show "writes (put s)" "text_of (put s) = s" by simp_all
qed

lemma put_number_writes [prints]: "writes (put_number n)" "text_of (put_number n) = digits 10 n"
proof -
  have "\<exists>c. put_number n os = os\<lparr>os_text := os_text os @ digits 10 n, os_fill := c\<rparr>" if "stream_ok os" for os
    using that by (intro exI [of _ "os_fill os"]) (simp add: put_def put_number_def stream_ok_def)
  from writesI [OF this] show "writes (put_number n)" "text_of (put_number n) = digits 10 n" by simp_all
qed

definition signed_digits :: "int \<Rightarrow> string" where
  "signed_digits i = (if i < 0 then CHR ''-'' # digits 10 (nat (- i)) else digits 10 (nat i))"

lemma put_signed_writes [prints]: "writes (put_signed w i)" "text_of (put_signed w i) = signed_digits i"
proof -
  have "\<exists>c. put_signed w i os = os\<lparr>os_text := os_text os @ signed_digits i, os_fill := c\<rparr>" if "stream_ok os" for os
    using that by (intro exI [of _ "os_fill os"]) (simp add: put_def put_signed_def signed_digits_def stream_ok_def)
  from writesI [OF this] show "writes (put_signed w i)" "text_of (put_signed w i) = signed_digits i" by simp_all
qed

lemma emits_step:
  assumes "writes p" and "writes (emits ps)"
  shows "writes (emits (p # ps))" and "text_of (emits (p # ps)) = text_of p @ text_of (emits ps)"
proof -
  have "\<exists>c. emits (p # ps) os = os\<lparr>os_text := os_text os @ text_of p @ text_of (emits ps), os_fill := c\<rparr>"
    if ok: "stream_ok os" for os
  proof -
    obtain c where c: "p os = os\<lparr>os_text := os_text os @ text_of p, os_fill := c\<rparr>" using assms(1) ok by (auto simp: writes_def)
    then have "stream_ok (p os)" using ok by (simp add: stream_ok_def)
    then obtain d where "emits ps (p os) = (p os)\<lparr>os_text := os_text (p os) @ text_of (emits ps), os_fill := d\<rparr>"
      using assms(2) by (auto simp: writes_def)
    with c show ?thesis by (auto simp: emits_def)
  qed
  from writesI [OF this] show "writes (emits (p # ps))" "text_of (emits (p # ps)) = text_of p @ text_of (emits ps)" by simp_all
qed

lemma emits_Nil: "writes (emits [])" "text_of (emits []) = []"
proof -
  have "\<exists>c. emits [] os = os\<lparr>os_text := os_text os @ [], os_fill := c\<rparr>" for os
    by (intro exI [of _ "os_fill os"]) (simp add: emits_def)
  from writesI [OF this] show "writes (emits [])" "text_of (emits []) = []" by simp_all
qed

lemma emits_writes [prints]:
  "list_all writes ps \<Longrightarrow> writes (emits ps)"
  "list_all writes ps \<Longrightarrow> text_of (emits ps) = concat (map text_of ps)"
proof (induction ps)
  case (Cons p ps)
  { case 1 with Cons.IH show ?case by (simp add: emits_step) }
  { case 2 with Cons.IH show ?case by (simp add: emits_step) }
qed (simp_all add: emits_Nil)

lemma put_bool_writes [prints]: "writes (put_bool b)" "text_of (put_bool b) = (if b then ''1'' else ''0'')"
  by (simp_all add: put_bool_def prints digits.simps digit_char_def)

lemma put_optional_writes [prints]:
  assumes "\<And>x. v = Some x \<Longrightarrow> writes (pr x)"
  shows "writes (put_optional pr v)"
    and "text_of (put_optional pr v) = (case v of None \<Rightarrow> ''--'' | Some x \<Rightarrow> CHR '' '' # text_of (pr x))"
proof -
  let ?p = "case v of None \<Rightarrow> put ''--'' | Some x \<Rightarrow> emits [put '' '', pr x]"
  have "writes ?p" "text_of ?p = (case v of None \<Rightarrow> ''--'' | Some x \<Rightarrow> CHR '' '' # text_of (pr x))"
    using assms by (simp_all add: prints split: option.split)
  then have "\<exists>c. put_optional pr v os = os\<lparr>os_text := os_text os @
      (case v of None \<Rightarrow> ''--'' | Some x \<Rightarrow> CHR '' '' # text_of (pr x)), os_fill := c\<rparr>" if "stream_ok os" for os
    using that by (auto simp: writes_def put_optional_def stream_ok_def split: option.splits)
  from writesI [OF this] show "writes (put_optional pr v)"
    "text_of (put_optional pr v) = (case v of None \<Rightarrow> ''--'' | Some x \<Rightarrow> CHR '' '' # text_of (pr x))" by simp_all
qed

lemma put_variant_writes [prints]:
  assumes "writes p"
  shows "writes (put_variant n p)"
    and "text_of (put_variant n p) = CHR ''['' # digits 10 n @ '']('' @ text_of p @ '')''"
  using assms by (simp_all add: put_variant_def prints)

text \<open>What a vector's elements look like behind the first one.\<close>

definition tail_text :: "('a \<Rightarrow> ostream \<Rightarrow> ostream) \<Rightarrow> 'a list \<Rightarrow> string" where
  "tail_text pr xs = concat (map (\<lambda>x. CHR '','' # text_of (pr x)) xs)"

lemma put_vector_writes [prints]:
  assumes "\<And>x. x \<in> set xs \<Longrightarrow> writes (pr x)"
  shows "writes (put_vector pr xs)"
    and "text_of (put_vector pr xs) = CHR ''['' # (case xs of [] \<Rightarrow> [] | x # xs \<Rightarrow> text_of (pr x) @ tail_text pr xs) @ '']''"
proof -
  have w: "list_all writes (concat (map (\<lambda>x. [put '','', pr x]) ys))"
    "concat (map text_of (concat (map (\<lambda>x. [put '','', pr x]) ys))) = tail_text pr ys" if "set ys \<subseteq> set xs" for ys
    using that by (induction ys) (auto simp: prints assms tail_text_def)
  have h: "list_all writes (case xs of [] \<Rightarrow> [] | x # xs \<Rightarrow> pr x # concat (map (\<lambda>x. [put '','', pr x]) xs))"
    using w(1) by (cases xs) (auto simp: assms)
  have "concat (map text_of (case xs of [] \<Rightarrow> [] | x # xs \<Rightarrow> pr x # concat (map (\<lambda>x. [put '','', pr x]) xs))) =
      (case xs of [] \<Rightarrow> [] | x # xs \<Rightarrow> text_of (pr x) @ tail_text pr xs)"
  proof (cases xs)
    case (Cons y ys)
    then have "set ys \<subseteq> set xs" by auto
    from w(2) [OF this] Cons show ?thesis by simp
  qed simp
  with h show "writes (put_vector pr xs)"
    "text_of (put_vector pr xs) = CHR ''['' # (case xs of [] \<Rightarrow> [] | x # xs \<Rightarrow> text_of (pr x) @ tail_text pr xs) @ '']''"
    by (simp_all add: put_vector_def emits_writes put_writes)
qed

lemma put_vector_Nil [prints]: "writes (put_vector pr [])" "text_of (put_vector pr []) = ''[]''"
  using put_vector_writes [of "[]" pr] by simp_all

text \<open>An optional reads back as it was written, when its value does.\<close>

lemma get_optional_put:
  assumes "\<And>x. v = Some x \<Longrightarrow> writes (pr x) \<and> rd (text_of (pr x) @ r) = Some (x, r)"
  shows "get_optional rd (text_of (put_optional pr v) @ r) = Some (v, r)"
  using assms put_optional_writes(2) [of v pr] by (cases v) (simp_all add: get_optional_def)

definition byte_text :: "u8 \<Rightarrow> string" where
  "byte_text x = (let d = digits 16 (unat x) in replicate (2 - length d) CHR ''0'' @ d) @ '' ''"

definition bytes_text :: "u8 list \<Rightarrow> string" where
  "bytes_text xs = concat (map byte_text xs)"

lemma put_bytes_writes [prints]:
  "writes (put_bytes xs)" "text_of (put_bytes xs) = ''[ '' @ bytes_text xs @ '']''"
proof -
  let ?f = "\<lambda>x. [set_width 2, set_fill CHR ''0'', put_number (unat x), put '' '']"
  have loop: "\<exists>c. emits (concat (map ?f xs)) os = os\<lparr>os_text := os_text os @ bytes_text xs, os_fill := c\<rparr>"
    if "os_good os" "os_width os = 0" "os_hex os" for os
    using that
  proof (induction xs arbitrary: os)
    case Nil then show ?case by (intro exI [of _ "os_fill os"]) (simp add: emits_def bytes_text_def)
  next
    case (Cons x xs)
    let ?os = "os\<lparr>os_text := os_text os @ byte_text x, os_fill := CHR ''0''\<rparr>"
    have "emits (concat (map ?f (x # xs))) os = emits (concat (map ?f xs)) ?os"
      using Cons.prems
      by (cases os) (simp add: emits_def set_width_def set_fill_def put_number_def put_def byte_text_def Let_def)
    moreover from Cons.IH [of ?os] Cons.prems obtain c where
      "emits (concat (map ?f xs)) ?os = ?os\<lparr>os_text := os_text ?os @ bytes_text xs, os_fill := c\<rparr>" by auto
    ultimately show ?case by (auto simp: bytes_text_def)
  qed
  have "\<exists>c. put_bytes xs os = os\<lparr>os_text := os_text os @ (''[ '' @ bytes_text xs @ '']''), os_fill := c\<rparr>"
    if ok: "stream_ok os" for os
  proof -
    let ?os = "os\<lparr>os_text := os_text os @ ''[ '', os_hex := True\<rparr>"
    have "emits ([put ''[ '', set_base True] @ concat (map ?f xs) @ [put '']'']) os = put '']'' (emits (concat (map ?f xs)) ?os)"
      using ok by (simp add: emits_def put_ok set_base_def stream_ok_def)
    moreover obtain c where "emits (concat (map ?f xs)) ?os = ?os\<lparr>os_text := os_text ?os @ bytes_text xs, os_fill := c\<rparr>"
      using loop [of ?os] ok by (auto simp: stream_ok_def)
    ultimately have "emits ([put ''[ '', set_base True] @ concat (map ?f xs) @ [put '']'']) os =
        os\<lparr>os_text := os_text os @ ''[ '' @ bytes_text xs @ '']'', os_hex := True, os_fill := c\<rparr>"
      using ok by (simp add: put_ok stream_ok_def)
    then show ?thesis using ok by (intro exI [of _ c]) (cases os, simp add: put_bytes_def stream_ok_def)
  qed
  from writesI [OF this] show "writes (put_bytes xs)" "text_of (put_bytes xs) = ''[ '' @ bytes_text xs @ '']''" by simp_all
qed

section \<open>Texts that end by themselves\<close>

definition stops :: "string \<Rightarrow> bool" where
  "stops u \<longleftrightarrow> (case u of [] \<Rightarrow> True | c # _ \<Rightarrow> c \<in> set '',}])/'')"

lemma stops_simps [simp]:
  "stops []" "stops (CHR '','' # u)" "stops (CHR ''}'' # u)" "stops (CHR '']'' # u)" "stops (CHR '')'' # u)" "stops (CHR ''/'' # u)"
  by (simp_all add: stops_def)

lemma same_head:
  assumes "list_all P xs" and "list_all P ys" and "\<And>c r. u = c # r \<Longrightarrow> \<not> P c" and "\<And>c r. v = c # r \<Longrightarrow> \<not> P c"
    and "xs @ u = ys @ v"
  shows "xs = ys \<and> u = v"
proof -
  have "takeWhile P w = []" if "\<And>c r. w = c # r \<Longrightarrow> \<not> P c" for w using that by (cases w) auto
  from this [of u] this [of v] have "takeWhile P u = []" "takeWhile P v = []" using assms(3,4) by blast+
  then have "takeWhile P (xs @ u) = xs" "takeWhile P (ys @ v) = ys"
    using assms(1,2) by (simp_all add: takeWhile_append2 list_all_iff)
  with assms(5) show ?thesis by auto
qed

definition digit_set :: "char set" where
  "digit_set = insert CHR ''-'' (set ''0123456789abcdef'')"

lemma digit_char_set: "d < 16 \<Longrightarrow> digit_char d \<in> digit_set"
proof -
  assume "d < 16"
  then have "d < length ''0123456789abcdef''" by simp
  from nth_mem [OF this] show ?thesis unfolding digit_char_def digit_set_def by (rule insertI2)
qed

lemma digit_char_inject: "d < 16 \<Longrightarrow> e < 16 \<Longrightarrow> digit_char d = digit_char e \<longleftrightarrow> d = e"
proof -
  assume "d < 16" "e < 16"
  moreover have "distinct ''0123456789abcdef''" by simp
  ultimately show ?thesis unfolding digit_char_def by (subst nth_eq_iff_index_eq) simp_all
qed

lemma digits_set: "b \<le> 16 \<Longrightarrow> list_all (\<lambda>c. c \<in> digit_set) (digits b n)"
  by (induction b n rule: digits.induct) (subst digits.simps, auto intro!: digit_char_set order_less_le_trans [OF mod_less_divisor])

lemma digits_nonempty: "digits b n \<noteq> []"
  by (subst digits.simps) simp

lemma digits_length: "2 \<le> b \<Longrightarrow> length (digits b n) = (if n < b then 1 else Suc (length (digits b (n div b))))"
  by (subst digits.simps) simp

lemma digits_inject: "2 \<le> b \<Longrightarrow> b \<le> 16 \<Longrightarrow> digits b m = digits b n \<longleftrightarrow> m = n"
proof (induction b m arbitrary: n rule: digits.induct)
  case (1 b m)
  show ?case
  proof (cases "m < b \<or> n < b")
    case True
    with 1(2,3) digits_nonempty [of b "m div b"] digits_nonempty [of b "n div b"] show ?thesis
      by (subst (1 2) digits.simps) (auto simp: digit_char_inject append_eq_Cons_conv Cons_eq_append_conv)
  next
    case False
    then have "digits b m = digits b n \<longleftrightarrow> digits b (m div b) = digits b (n div b) \<and> digit_char (m mod b) = digit_char (n mod b)"
      using 1(2) by (subst (1 2) digits.simps) simp
    also have "\<dots> \<longleftrightarrow> m div b = n div b \<and> m mod b = n mod b"
      using 1 False by (simp add: digit_char_inject order_less_le_trans [OF mod_less_divisor])
    also have "\<dots> \<longleftrightarrow> m = n" by (metis div_mult_mod_eq)
    finally show ?thesis .
  qed
qed

lemma digits_delimited:
  assumes "stops u" and "stops v" and "digits 10 m @ u = digits 10 n @ v"
  shows "m = n \<and> u = v"
proof -
  have "c \<notin> digit_set" if "stops (c # r)" for c r using that by (auto simp: stops_def digit_set_def)
  with assms(1,2) same_head [OF digits_set digits_set _ _ assms(3)] show ?thesis by (auto simp: digits_inject)
qed

lemma signed_digits_delimited:
  assumes "stops u" and "stops v" and "signed_digits i @ u = signed_digits j @ v"
  shows "i = j \<and> u = v"
proof -
  have no: "digits 10 n @ w \<noteq> CHR ''-'' # r" for n w r
  proof
    assume "digits 10 n @ w = CHR ''-'' # r"
    moreover obtain c cs where "digits 10 n = c # cs" by (cases "digits 10 n") (auto simp: digits_nonempty)
    moreover have "list_all (\<lambda>c. c \<noteq> CHR ''-'') (digits 10 n)"
    proof (induction n rule: less_induct)
      case (less n)
      have "digit_char d \<noteq> CHR ''-''" if "d < 10" for d
        using that by (auto simp: digit_char_def nth_Cons split: nat.split)
      then show ?case using less [of "n div 10"] by (subst digits.simps) auto
    qed
    ultimately show False by simp
  qed
  have "i < 0 \<longleftrightarrow> j < 0"
    using assms(3) no [of "nat i" u] no [of "nat j" v] no [of "nat j" v, symmetric]
    by (auto simp: signed_digits_def split: if_splits)
  then show ?thesis
    using assms(3) digits_delimited [OF assms(1,2), of "nat i" "nat j"]
      digits_delimited [OF assms(1,2), of "nat (- i)" "nat (- j)"]
    by (cases "i < 0") (simp_all add: signed_digits_def eq_nat_nat_iff)
qed

locale printer =
  fixes pr :: "'a \<Rightarrow> ostream \<Rightarrow> ostream"
  assumes writes_pr: "writes (pr x)"
    and delimited: "stops u \<Longrightarrow> stops v \<Longrightarrow> text_of (pr x) @ u = text_of (pr y) @ v \<Longrightarrow> x = y \<and> u = v"
begin

lemma cancel: "stops u \<Longrightarrow> stops v \<Longrightarrow> text_of (pr x) @ u = text_of (pr y) @ v \<longleftrightarrow> x = y \<and> u = v"
  using delimited by blast

lemma text_inject: "text_of (pr x) = text_of (pr y) \<longleftrightarrow> x = y"
  using delimited [of "[]" "[]" x y] by auto

lemma optional: "printer (put_optional pr)"
proof
  fix v w :: "'a option" and u t
  show "writes (put_optional pr v)" by (simp add: put_optional_writes writes_pr)
  assume "stops u" "stops t" "text_of (put_optional pr v) @ u = text_of (put_optional pr w) @ t"
  then show "v = w \<and> u = t"
    by (cases v; cases w) (simp_all add: put_optional_writes writes_pr cancel)
qed

end

locale item_printer = printer +
  assumes opens: "\<exists>c r. text_of (pr x) = c # r \<and> c \<noteq> CHR '']''"
begin

lemma stops_tail: "stops (tail_text pr xs @ CHR '']'' # u)"
  by (cases xs) (simp_all add: tail_text_def)

lemma tail_delimited:
  "tail_text pr xs @ CHR '']'' # u = tail_text pr ys @ CHR '']'' # v \<Longrightarrow> xs = ys \<and> u = v"
proof (induction xs arbitrary: ys)
  case Nil
  then show ?case by (cases ys) (simp_all add: tail_text_def)
next
  case (Cons x xs)
  then obtain y ys' where ys: "ys = y # ys'" by (cases ys) (simp_all add: tail_text_def)
  with Cons.prems have "text_of (pr x) @ tail_text pr xs @ CHR '']'' # u = text_of (pr y) @ tail_text pr ys' @ CHR '']'' # v"
    by (simp add: tail_text_def)
  with Cons.IH [of ys'] ys show ?case by (simp add: cancel stops_tail)
qed

lemma vector: "printer (put_vector pr)"
proof
  fix xs ys :: "'a list" and u v
  show "writes (put_vector pr xs)" by (simp add: put_vector_writes writes_pr)
  assume t: "text_of (put_vector pr xs) @ u = text_of (put_vector pr ys) @ v"
  show "xs = ys \<and> u = v"
  proof (cases "xs = [] \<or> ys = []")
    case True
    obtain f g where "text_of (pr x) = f x # g x" "f x \<noteq> CHR '']''" for x using opens by metis
    with True t show ?thesis by (auto simp: put_vector_writes writes_pr split: list.splits)
  next
    case False
    then obtain x xs' y ys' where l: "xs = x # xs'" "ys = y # ys'" by (meson neq_Nil_conv)
    with t have "text_of (pr x) @ tail_text pr xs' @ CHR '']'' # u = text_of (pr y) @ tail_text pr ys' @ CHR '']'' # v"
      by (simp add: put_vector_writes writes_pr)
    with l tail_delimited [of xs' u ys' v] show ?thesis by (simp add: cancel stops_tail)
  qed
qed

end

lemma byte_text_two: "\<exists>c d. byte_text x = [c, d, CHR '' ''] \<and> c \<in> digit_set \<and> d \<in> digit_set"
proof -
  have "unat x < 256" using unsigned_less [of x, where ?'a = nat] by simp
  then have "length (digits 16 (unat x)) \<in> {1, 2}" using digits_length [of 16 "unat x"] digits_length [of 16 "unat x div 16"]
    by auto
  moreover have "list_all (\<lambda>c. c \<in> digit_set) (digits 16 (unat x))" by (simp add: digits_set)
  moreover have "CHR ''0'' \<in> digit_set" by (simp add: digit_set_def)
  ultimately show ?thesis
    by (auto simp: byte_text_def Let_def numeral_2_eq_2 length_Suc_conv)
qed

lemma byte_text_inject: "byte_text x = byte_text y \<longleftrightarrow> x = y" for x y :: u8
proof -
  have two: "unat z < 256" for z :: u8 using unsigned_less [of z, where ?'a = nat] by simp
  have "unat x = unat y" if e: "byte_text x = byte_text y"
  proof -
    let ?pad = "\<lambda>z. replicate (2 - length (digits 16 (unat z))) CHR ''0'' @ digits 16 (unat z)"
    have "?pad z = [digit_char (unat z div 16), digit_char (unat z mod 16)]" for z :: u8
      using two [of z] by (subst (1 2) digits.simps) (auto simp: digits.simps [of 16 "unat z div 16"] digit_char_def)
    with e show ?thesis using two [of x] two [of y]
      by (auto simp: byte_text_def Let_def digit_char_inject) (metis div_mult_mod_eq)
  qed
  then show ?thesis by (metis unsigned_word_eqI)
qed

lemma put_bytes_printer: "printer put_bytes"
proof
  fix xs ys :: "u8 list" and u v
  show "writes (put_bytes xs)" by (rule put_bytes_writes)
  have "bytes_text xs @ CHR '']'' # u = bytes_text ys @ CHR '']'' # v \<Longrightarrow> xs = ys \<and> u = v"
  proof (induction xs arbitrary: ys)
    case Nil
    show ?case
    proof (cases ys)
      case Nil
      with \<open>bytes_text [] @ CHR '']'' # u = bytes_text ys @ CHR '']'' # v\<close> show ?thesis by (simp add: bytes_text_def)
    next
      case (Cons y ys')
      obtain a b where "byte_text y = [a, b, CHR '' '']" "a \<in> digit_set" using byte_text_two by blast
      with \<open>bytes_text [] @ CHR '']'' # u = bytes_text ys @ CHR '']'' # v\<close> Cons show ?thesis
        by (auto simp: bytes_text_def digit_set_def)
    qed
  next
    case (Cons x xs)
    obtain a b where x: "byte_text x = [a, b, CHR '' '']" "a \<in> digit_set" using byte_text_two by blast
    with Cons.prems obtain y ys' where ys: "ys = y # ys'" by (cases ys) (auto simp: bytes_text_def digit_set_def)
    obtain c d where "byte_text y = [c, d, CHR '' '']" using byte_text_two by blast
    with Cons.prems x ys have "byte_text x = byte_text y \<and> bytes_text xs @ CHR '']'' # u = bytes_text ys' @ CHR '']'' # v"
      by (simp add: bytes_text_def)
    with Cons.IH ys show ?case by (simp add: byte_text_inject)
  qed
  then show "text_of (put_bytes xs) @ u = text_of (put_bytes ys) @ v \<Longrightarrow> xs = ys \<and> u = v"
    by (simp add: put_bytes_writes)
qed

definition put_word :: "'a::len word \<Rightarrow> ostream \<Rightarrow> ostream" where
  "put_word w = put_number (unat w)"

lemma put_word_writes [prints]: "writes (put_word w)" "text_of (put_word w) = digits 10 (unat w)"
  by (simp_all add: put_word_def put_number_writes)

interpretation put_word: printer "put_word :: 'a::len word \<Rightarrow> ostream \<Rightarrow> ostream"
proof
  fix x y :: "'a word" and u v
  show "writes (put_word x)" by (rule put_word_writes)
  assume "stops u" "stops v" "text_of (put_word x) @ u = text_of (put_word y) @ v"
  then have "unat x = unat y \<and> u = v" by (intro digits_delimited) (simp_all add: put_word_writes)
  then show "x = y \<and> u = v" by (simp add: word_unat_eq_iff)
qed

interpretation put_bool: printer put_bool
  by unfold_locales (auto simp: put_bool_writes split: if_splits)

interpretation put_signed: printer "put_signed w"
proof
  fix i j :: int and u v
  show "writes (put_signed w i)" by (rule put_signed_writes)
  assume "stops u" "stops v" "text_of (put_signed w i) @ u = text_of (put_signed w j) @ v"
  then show "i = j \<and> u = v" by (intro signed_digits_delimited) (simp_all add: put_signed_writes)
qed

interpretation put_bytes: printer put_bytes by (rule put_bytes_printer)

section \<open>Smaller types\<close>

definition print_stream_ts :: "stream_ts \<Rightarrow> ostream \<Rightarrow> ostream" where
  "print_stream_ts t = emits [put ''StreamTS{'', put_signed 64 (ts_int t), put ''}'']"

definition print_clock_ts :: "clock_ts \<Rightarrow> ostream \<Rightarrow> ostream" where
  "print_clock_ts t = emits [put ''ClockTS{'', put_signed 64 (ts_int t), put ''}'']"

definition print_clock :: "machine_clock \<Rightarrow> ostream \<Rightarrow> ostream" where
  "print_clock c = emits [put ''Clock{'', put ''mono='', put_signed 64 (sint (mc_val c)), put ''}'']"

definition print_kind :: "kind \<Rightarrow> ostream \<Rightarrow> ostream" where
  "print_kind k = put (kind_name k)"

definition print_capabilities :: "capabilities \<Rightarrow> ostream \<Rightarrow> ostream" where
  "print_capabilities c = emits [put ''SEI:'', put_bool (cap_sei c), put '', '', put ''SCTE:'', put_bool (cap_scte c)]"

definition print_stream_classification :: "stream_classification \<Rightarrow> ostream \<Rightarrow> ostream" where
  "print_stream_classification sc = emits
     [put ''TimeSource:'', put_optional put_number (sc_time_source sc), put '', '',
      put ''SEI:'', put_optional put_number (sc_sei sc), put '', '',
      put ''SCTE:'', put_optional put_number (sc_scte sc)]"

definition print_nalu_type :: "nalu_type \<Rightarrow> ostream \<Rightarrow> ostream" where
  "print_nalu_type ty = put (nalu_type_to_string ty)"

text \<open>
  A slice is printed with the name of its class and the address of its data, both of which the
  program gets from elsewhere.
\<close>

definition print_sei_payload :: "string \<Rightarrow> nat \<Rightarrow> sei_payload \<Rightarrow> ostream \<Rightarrow> ostream" where
  "print_sei_payload class_name address sei = emits ([put class_name, put ''{''] @
     (if sei_data sei \<noteq> [] then
        [put ''type='', put (sei_type_string (sei_type sei)), put '','',
         put ''data=0x'', set_base True, put_number address, set_base False, put '','',
         put ''size='', put_number (length (sei_data sei))]
      else [put ''0-sized'']) @ [put ''}''])"

definition print_nalu :: "string \<Rightarrow> nat \<Rightarrow> u8 list \<Rightarrow> ostream \<Rightarrow> ostream" where
  "print_nalu class_name address nalu = emits ([put class_name, put ''{''] @
     (if nalu \<noteq> [] then
        [put ''type='', print_nalu_type (nalu_type_of (hd nalu)), put '','',
         put ''data=0x'', set_base True, put_number address, set_base False, put '','',
         put ''size='', put_number (length nalu)]
      else [put ''0-sized'']) @ [put ''}''])"

end
