(* ===== verification/Scte35_Print.thy ===== *)
theory Scte35_Print
  imports Printing Scte35_Data
begin

text \<open>
  Output of SCTE-35 sections and of metadata entries for the log: \<^verbatim>\<open>src/scte35/scte35.cpp\<close>
  and \<^verbatim>\<open>metadata.h\<close>, one printer per struct.  Each is shown to be a \<^verbatim>\<open>printer\<close>, so that
  what the log says of a section determines it.
\<close>

section \<open>Printers\<close>

definition print_splice_time :: "splice_time \<Rightarrow> ostream \<Rightarrow> ostream" where
  "print_splice_time t = emits [put ''SpliceTime{'',
     put ''pts_time='', put_optional put_word (pts_time t), put ''}'']"

definition print_break_duration :: "break_duration \<Rightarrow> ostream \<Rightarrow> ostream" where
  "print_break_duration d = emits [put ''BreakDuration{'',
     put ''auto_return='', put_bool (bd_auto_return d), put '','',
     put ''duration='', put_word (bd_duration d), put ''}'']"

definition print_splice_null :: "ostream \<Rightarrow> ostream" where
  "print_splice_null = put ''SpliceNull{}''"

definition print_program_splice_on :: "u32 \<Rightarrow> ostream \<Rightarrow> ostream" where
  "print_program_splice_on t = emits [put ''SpliceSchedule::ProgramSpliceOn{'',
     put ''utc_splice_time='', put_word t, put ''}'']"

definition print_ss_component :: "ss_component \<Rightarrow> ostream \<Rightarrow> ostream" where
  "print_ss_component c = emits [put ''SpliceSchedule::ProgramSpliceOff::Component{'',
     put ''component_tag='', put_word (ssc_component_tag c), put '','',
     put ''utc_splice_time='', put_word (ssc_utc_splice_time c), put ''}'']"

definition print_program_splice_off :: "ss_component list \<Rightarrow> ostream \<Rightarrow> ostream" where
  "print_program_splice_off cs = emits [put ''SpliceSchedule::ProgramSpliceOff{'',
     put ''components='', put_vector print_ss_component cs, put ''}'']"

text \<open>The variants print the index of the alternative and its value.\<close>

definition print_program_splice :: "program_splice \<Rightarrow> ostream \<Rightarrow> ostream" where
  "print_program_splice s = (case s of
      Program_Splice_On t \<Rightarrow> put_variant 0 (print_program_splice_on t)
    | Program_Splice_Off cs \<Rightarrow> put_variant 1 (print_program_splice_off cs))"

definition print_ss_cancel_off :: "ss_cancel_off \<Rightarrow> ostream \<Rightarrow> ostream" where
  "print_ss_cancel_off m = emits [put ''SpliceSchedule::CancelOff{'',
     put ''out_of_network='', put_bool (ss_out_of_network m), put '','',
     put ''splice='', print_program_splice (ss_splice m), put '','',
     put ''break_duration='', put_optional print_break_duration (ss_break_duration m), put '','',
     put ''unique_program_id='', put_word (ss_unique_program_id m), put '','',
     put ''avail_num='', put_word (ss_avail_num m), put '','',
     put ''avails_expected='', put_word (ss_avails_expected m), put ''}'']"

definition print_ss_event :: "ss_event \<Rightarrow> ostream \<Rightarrow> ostream" where
  "print_ss_event e = emits [put ''SpliceSchedule::Event{'',
     put ''id='', put_word (sse_id e), put '','',
     put ''more='', put_optional print_ss_cancel_off (sse_more e), put ''}'']"

definition print_splice_schedule :: "splice_schedule \<Rightarrow> ostream \<Rightarrow> ostream" where
  "print_splice_schedule s = emits [put ''SpliceSchedule{'',
     put ''events='', put_vector print_ss_event (ss_events s), put ''}'']"

definition print_si_component :: "si_component \<Rightarrow> ostream \<Rightarrow> ostream" where
  "print_si_component c = emits [put ''SpliceInsert::CancelOff::Component{'',
     put ''component_tag='', put_word (sic_component_tag c), put '','',
     put ''splice_time='', put_optional print_splice_time (sic_splice_time c), put ''}'']"

definition print_si_cancel_off :: "si_cancel_off \<Rightarrow> ostream \<Rightarrow> ostream" where
  "print_si_cancel_off m = emits [put ''SpliceInsert::CancelOff{'',
     put ''out_of_network='', put_bool (si_out_of_network m), put '','',
     put ''program_splice='', put_bool (si_program_splice m), put '','',
     put ''splice_immediate='', put_bool (si_splice_immediate m), put '','',
     put ''splice_time='', put_optional print_splice_time (si_splice_time m), put '','',
     put ''components='', put_optional (put_vector print_si_component) (si_components m), put '','',
     put ''break_duration='', put_optional print_break_duration (si_break_duration m), put '','',
     put ''unique_program_id='', put_word (si_unique_program_id m), put '','',
     put ''avail_num='', put_word (si_avail_num m), put '','',
     put ''avails_expected='', put_word (si_avails_expected m), put ''}'']"

definition print_splice_insert :: "splice_insert \<Rightarrow> ostream \<Rightarrow> ostream" where
  "print_splice_insert i = emits [put ''SpliceInsert{'',
     put ''id='', put_word (si_id i), put '','',
     put ''more='', put_optional print_si_cancel_off (si_more i), put ''}'']"

definition print_time_signal :: "time_signal \<Rightarrow> ostream \<Rightarrow> ostream" where
  "print_time_signal t = emits [put ''TimeSignal{'',
     put ''splice_time='', print_splice_time (tsig_splice_time t), put ''}'']"

definition print_bandwidth_reservation :: "ostream \<Rightarrow> ostream" where
  "print_bandwidth_reservation = put ''BandwidthReservation{}''"

definition print_private_command :: "private_command \<Rightarrow> ostream \<Rightarrow> ostream" where
  "print_private_command c = emits [put ''PrivateCommand{'',
     put ''identifier='', put_word (pc_identifier c), put '','',
     put ''bytes='', put_bytes (pc_bytes c), put ''}'']"

definition print_command :: "command \<Rightarrow> ostream \<Rightarrow> ostream" where
  "print_command c = (case c of
      Splice_Null \<Rightarrow> put_variant 0 print_splice_null
    | Splice_Schedule s \<Rightarrow> put_variant 1 (print_splice_schedule s)
    | Splice_Insert i \<Rightarrow> put_variant 2 (print_splice_insert i)
    | Time_Signal t \<Rightarrow> put_variant 3 (print_time_signal t)
    | Bandwidth_Reservation \<Rightarrow> put_variant 4 print_bandwidth_reservation
    | Private_Command p \<Rightarrow> put_variant 5 (print_private_command p))"

definition print_avail_descriptor :: "avail_descriptor \<Rightarrow> ostream \<Rightarrow> ostream" where
  "print_avail_descriptor d = emits [put ''AvailDescriptor{'',
     put ''provider_avail_id='', put_word (provider_avail_id d), put ''}'']"

text \<open>A character of the DTMF sequence is written as it is.\<close>

definition put_char :: "u8 \<Rightarrow> ostream \<Rightarrow> ostream" where
  "put_char c = put [char_of (unat c)]"

definition print_dtmf_descriptor :: "dtmf_descriptor \<Rightarrow> ostream \<Rightarrow> ostream" where
  "print_dtmf_descriptor d = emits [put ''DtmfDescriptor{'',
     put ''preroll='', put_word (dtmf_preroll d), put '','',
     put ''dtmf_chars='', put_vector put_char (dtmf_chars d), put ''}'']"

definition print_segmentation_descriptor :: "segmentation_descriptor \<Rightarrow> ostream \<Rightarrow> ostream" where
  "print_segmentation_descriptor d = emits [put ''SegmentationDescriptor{'',
     put ''data='', put_bytes (seg_data d), put ''}'']"

definition print_time_descriptor :: "time_descriptor \<Rightarrow> ostream \<Rightarrow> ostream" where
  "print_time_descriptor d = emits [put ''TimeDescriptor{'',
     put ''tai_seconds='', put_word (tai_seconds d), put '','',
     put ''tai_nanoseconds='', put_word (tai_nanoseconds d), put '','',
     put ''utc_offset='', put_word (utc_offset d), put ''}'']"

definition print_descriptor :: "descriptor \<Rightarrow> ostream \<Rightarrow> ostream" where
  "print_descriptor d = (case d of
      Avail_Descriptor a \<Rightarrow> put_variant 0 (print_avail_descriptor a)
    | Dtmf_Descriptor t \<Rightarrow> put_variant 1 (print_dtmf_descriptor t)
    | Segmentation_Descriptor s \<Rightarrow> put_variant 2 (print_segmentation_descriptor s)
    | Time_Descriptor t \<Rightarrow> put_variant 3 (print_time_descriptor t))"

definition print_section :: "splice_info_section \<Rightarrow> ostream \<Rightarrow> ostream" where
  "print_section s = emits [put ''SpliceInfoSection{'',
     put ''encrypted_packet='', put_bool (encrypted_packet s), put '','',
     put ''encryption_algorithm='', put_word (encryption_algorithm s), put '','',
     put ''pts_adjustment='', put_word (pts_adjustment s), put '','',
     put ''cw_index='', put_word (cw_index s), put '','',
     put ''tier='', put_word (tier s), put '','',
     put ''command='', print_command (command s), put '','',
     put ''descriptors='', put_vector print_descriptor (descriptors s), put ''}'']"

text \<open>An entry, with the printer of its value.  Its timestamps are printed as \<^verbatim>\<open>ClockTS\<close>.\<close>

definition print_metadata :: "kind \<Rightarrow> ('v \<Rightarrow> ostream \<Rightarrow> ostream) \<Rightarrow> 'v metadata \<Rightarrow> ostream \<Rightarrow> ostream" where
  "print_metadata k pr m = emits [put ''Metadata<'', print_kind k, put ''>{'',
     put ''input_id='', put_word (md_input_id m), put '','',
     put ''pts='', print_clock_ts (Strong (word_of_int (md_pts m))), put '','',
     put ''dts='', print_clock_ts (Strong (word_of_int (md_dts m))), put '','',
     put ''order='', put_signed 32 (md_order m), put '','',
     put ''val='', pr (md_val m), put ''}'']"

section \<open>The printers are printers\<close>

text \<open>Printing a struct is a chain of fixed texts and of the fields' printers, which are cancelled one by one.\<close>

named_theorems chains \<open>chains of fixed texts and printers\<close>

lemmas [chains] = put_writes emits_writes put_variant_writes put_word.writes_pr put_word.cancel put_bool.writes_pr
  put_bool.cancel put_bytes.writes_pr put_bytes.cancel put_signed.writes_pr put_signed.cancel

lemma printer_chains:
  "printer pr \<Longrightarrow> writes (pr x)"
  "printer pr \<Longrightarrow> stops u \<Longrightarrow> stops v \<Longrightarrow> text_of (pr x) @ u = text_of (pr y) @ v \<longleftrightarrow> x = y \<and> u = v"
  by (simp_all add: printer.writes_pr printer.cancel)

lemmas [chains] = printer_chains [OF put_word.optional]

interpretation splice_time: printer print_splice_time
  apply unfold_locales
  subgoal by (simp add: print_splice_time_def chains)
  subgoal for u v x y by (cases x; cases y) (simp add: print_splice_time_def chains)
  done

lemmas [chains] = printer_chains [OF splice_time.printer_axioms] printer_chains [OF splice_time.optional]

interpretation break_duration: printer print_break_duration
  apply unfold_locales
  subgoal by (simp add: print_break_duration_def chains)
  subgoal for u v x y by (cases x; cases y) (simp add: print_break_duration_def chains)
  done

lemmas [chains] = printer_chains [OF break_duration.printer_axioms] printer_chains [OF break_duration.optional]

interpretation program_splice_on: printer print_program_splice_on
  apply unfold_locales
  subgoal by (simp add: print_program_splice_on_def chains)
  subgoal for u v x y by (simp add: print_program_splice_on_def chains)
  done

lemmas [chains] = printer_chains [OF program_splice_on.printer_axioms]

interpretation ss_component: item_printer print_ss_component
  apply unfold_locales
  subgoal by (simp add: print_ss_component_def chains)
  subgoal for u v x y by (cases x; cases y) (simp add: print_ss_component_def chains)
  subgoal by (simp add: print_ss_component_def chains)
  done

lemmas [chains] = printer_chains [OF ss_component.vector]

interpretation program_splice_off: printer print_program_splice_off
  apply unfold_locales
  subgoal by (simp add: print_program_splice_off_def chains)
  subgoal for u v x y by (simp add: print_program_splice_off_def chains)
  done

lemmas [chains] = printer_chains [OF program_splice_off.printer_axioms]

lemma variant_index:
  "digits 10 m @ CHR '']'' # u = digits 10 n @ CHR '']'' # v \<longleftrightarrow> m = n \<and> u = v"
  using digits_delimited [of "CHR '']'' # u" "CHR '']'' # v" m n] by auto

lemmas [chains] = variant_index

interpretation program_splice: printer print_program_splice
  apply unfold_locales
  subgoal by (simp add: print_program_splice_def chains split: program_splice.split)
  subgoal for u v x y by (cases x; cases y) (simp_all add: print_program_splice_def chains)
  done

lemmas [chains] = printer_chains [OF program_splice.printer_axioms]

interpretation ss_cancel_off: printer print_ss_cancel_off
  apply unfold_locales
  subgoal by (simp add: print_ss_cancel_off_def chains)
  subgoal for u v x y by (cases x; cases y) (simp add: print_ss_cancel_off_def chains)
  done

lemmas [chains] = printer_chains [OF ss_cancel_off.optional]

interpretation ss_event: item_printer print_ss_event
  apply unfold_locales
  subgoal by (simp add: print_ss_event_def chains)
  subgoal for u v x y by (cases x; cases y) (simp add: print_ss_event_def chains)
  subgoal by (simp add: print_ss_event_def chains)
  done

lemmas [chains] = printer_chains [OF ss_event.vector]

interpretation splice_schedule: printer print_splice_schedule
  apply unfold_locales
  subgoal by (simp add: print_splice_schedule_def chains)
  subgoal for u v x y by (cases x; cases y) (simp add: print_splice_schedule_def chains)
  done

lemmas [chains] = printer_chains [OF splice_schedule.printer_axioms]

interpretation si_component: item_printer print_si_component
  apply unfold_locales
  subgoal by (simp add: print_si_component_def chains)
  subgoal for u v x y by (cases x; cases y) (simp add: print_si_component_def chains)
  subgoal by (simp add: print_si_component_def chains)
  done

lemmas [chains] = printer_chains [OF printer.optional [OF si_component.vector]]

interpretation si_cancel_off: printer print_si_cancel_off
  apply unfold_locales
  subgoal by (simp add: print_si_cancel_off_def chains)
  subgoal for u v x y by (cases x; cases y) (simp add: print_si_cancel_off_def chains)
  done

lemmas [chains] = printer_chains [OF si_cancel_off.optional]

interpretation splice_insert: printer print_splice_insert
  apply unfold_locales
  subgoal by (simp add: print_splice_insert_def chains)
  subgoal for u v x y by (cases x; cases y) (simp add: print_splice_insert_def chains)
  done

lemmas [chains] = printer_chains [OF splice_insert.printer_axioms]

interpretation time_signal: printer print_time_signal
  apply unfold_locales
  subgoal by (simp add: print_time_signal_def chains)
  subgoal for u v x y by (cases x; cases y) (simp add: print_time_signal_def chains)
  done

lemmas [chains] = printer_chains [OF time_signal.printer_axioms]

interpretation private_command: printer print_private_command
  apply unfold_locales
  subgoal by (simp add: print_private_command_def chains)
  subgoal for u v x y by (cases x; cases y) (simp add: print_private_command_def chains)
  done

lemmas [chains] = printer_chains [OF private_command.printer_axioms]

interpretation command: printer print_command
  apply unfold_locales
  subgoal by (simp add: print_command_def chains print_splice_null_def print_bandwidth_reservation_def split: command.split)
  subgoal for u v x y
    by (cases x; cases y) (simp_all add: print_command_def chains print_splice_null_def print_bandwidth_reservation_def)
  done

lemmas [chains] = printer_chains [OF command.printer_axioms]

interpretation avail_descriptor: printer print_avail_descriptor
  apply unfold_locales
  subgoal by (simp add: print_avail_descriptor_def chains)
  subgoal for u v x y by (cases x; cases y) (simp add: print_avail_descriptor_def chains)
  done

lemmas [chains] = printer_chains [OF avail_descriptor.printer_axioms]

text \<open>
  The characters of a DTMF sequence may be brackets and commas, but every character takes one
  place, and the struct ends behind them.
\<close>

lemma put_char_text [chains]: "writes (put_char c)" "text_of (put_char c) = [char_of (unat c)]"
  by (simp_all add: put_char_def chains)

lemma put_char_inject: "unat c mod 256 = unat d mod 256 \<longleftrightarrow> c = d" for c d :: u8
  using unsigned_less [of c, where ?'a = nat] unsigned_less [of d, where ?'a = nat] by (simp add: word_unat_eq_iff)

lemma put_chars_writes [chains]: "writes (put_vector put_char cs)"
  by (simp add: put_vector_writes chains)

lemma char_tail_delimited:
  "tail_text put_char xs @ CHR '']'' # u = tail_text put_char ys @ CHR '']'' # v \<Longrightarrow> xs = ys \<and> u = v"
proof (induction xs arbitrary: ys)
  case Nil
  then show ?case by (cases ys) (simp_all add: tail_text_def)
next
  case (Cons x xs)
  then obtain y ys' where ys: "ys = y # ys'" by (cases ys) (simp_all add: tail_text_def)
  with Cons show ?case by (simp add: tail_text_def put_char_text put_char_inject)
qed

lemma chars_delimited [chains]:
  "text_of (put_vector put_char xs) @ CHR ''}'' # u = text_of (put_vector put_char ys) @ CHR ''}'' # v \<longleftrightarrow> xs = ys \<and> u = v"
proof
  assume t: "text_of (put_vector put_char xs) @ CHR ''}'' # u = text_of (put_vector put_char ys) @ CHR ''}'' # v"
  have second: "tail_text put_char zs @ CHR '']'' # w \<noteq> CHR ''}'' # r" for zs w r
    by (cases zs) (simp_all add: tail_text_def)
  from t second second [symmetric] show "xs = ys \<and> u = v"
    by (cases xs; cases ys)
      (auto simp: put_vector_writes put_char_text put_char_inject dest!: char_tail_delimited)
qed simp

interpretation dtmf_descriptor: printer print_dtmf_descriptor
  apply unfold_locales
  subgoal by (simp add: print_dtmf_descriptor_def chains)
  subgoal for u v x y by (cases x; cases y) (simp add: print_dtmf_descriptor_def chains)
  done

lemmas [chains] = printer_chains [OF dtmf_descriptor.printer_axioms]

interpretation segmentation_descriptor: printer print_segmentation_descriptor
  apply unfold_locales
  subgoal by (simp add: print_segmentation_descriptor_def chains)
  subgoal for u v x y by (cases x; cases y) (simp add: print_segmentation_descriptor_def chains)
  done

lemmas [chains] = printer_chains [OF segmentation_descriptor.printer_axioms]

interpretation time_descriptor: printer print_time_descriptor
  apply unfold_locales
  subgoal by (simp add: print_time_descriptor_def chains)
  subgoal for u v x y by (cases x; cases y) (simp add: print_time_descriptor_def chains)
  done

lemmas [chains] = printer_chains [OF time_descriptor.printer_axioms]

interpretation descriptor: item_printer print_descriptor
  apply unfold_locales
  subgoal by (simp add: print_descriptor_def chains split: descriptor.split)
  subgoal for u v x y by (cases x; cases y) (simp_all add: print_descriptor_def chains)
  subgoal for x by (cases x) (simp_all add: print_descriptor_def chains)
  done

lemmas [chains] = printer_chains [OF descriptor.vector]

interpretation info_section: printer print_section
  apply unfold_locales
  subgoal by (simp add: print_section_def chains)
  subgoal for u v x y by (cases x; cases y) (simp add: print_section_def chains)
  done

section \<open>The log\<close>

text \<open>
  C15: Printing a section to a stream in its usual state appends one text and leaves the stream
  in its usual state but for the fill character, and no other section prints this text.
\<close>

theorem log_determines_section:
  assumes "os_good os" and "os_width os = 0" and "\<not> os_hex os"
  shows "\<exists>t c. print_section s os = os\<lparr>os_text := os_text os @ t, os_fill := c\<rparr> \<and>
    (\<forall>s'. os_text (print_section s' os) = os_text os @ t \<longleftrightarrow> s' = s)"
proof -
  have "stream_ok os" using assms by (simp add: stream_ok_def)
  then have w: "\<exists>c. print_section x os = os\<lparr>os_text := os_text os @ text_of (print_section x), os_fill := c\<rparr>" for x
    using info_section.writes_pr [of x] by (simp add: writes_def)
  have "os_text (print_section x os) = os_text os @ text_of (print_section x)" for x using w [of x] by auto
  then have "\<forall>s'. os_text (print_section s' os) = os_text os @ text_of (print_section s) \<longleftrightarrow> s' = s"
    by (simp add: info_section.text_inject)
  with w [of s] show ?thesis by blast
qed

theorem log_determines_section_witness:
  "\<exists>t c. print_section default_section (blank_stream\<lparr>os_text := ''> ''\<rparr>) = blank_stream\<lparr>os_text := ''> '' @ t, os_fill := c\<rparr> \<and>
    (\<forall>s'. os_text (print_section s' (blank_stream\<lparr>os_text := ''> ''\<rparr>)) = ''> '' @ t \<longleftrightarrow> s' = default_section)"
  using log_determines_section [of "blank_stream\<lparr>os_text := ''> ''\<rparr>" default_section] by (simp add: blank_stream_def)

text \<open>Some lines of the log.\<close>

lemma log_samples:
  "text_of (print_section default_section) = ''SpliceInfoSection{encrypted_packet=0,encryption_algorithm=0,'' @
     ''pts_adjustment=0,cw_index=0,tier=4095,command=[0](SpliceNull{}),descriptors=[]}''"
  "text_of (print_command (Private_Command \<lparr>pc_identifier = 7, pc_bytes = [0x0A, 0xFF]\<rparr>)) =
     ''[5](PrivateCommand{identifier=7,bytes=[ 0a ff ]})''"
  "text_of (print_splice_time \<lparr>pts_time = Some 90000\<rparr>) = ''SpliceTime{pts_time= 90000}''"
  by (simp_all add: print_section_def print_command_def print_splice_null_def print_private_command_def print_splice_time_def
      default_section_def prints chains bytes_text_def byte_text_def digits.simps digit_char_def)

text \<open>The fill character that a vector of bytes sets stays set, and pads what is printed later with a width.\<close>

lemma fill_not_restored: "os_fill (put_bytes [b] blank_stream) = CHR ''0''"
  by (simp add: put_bytes_def emits_def put_def set_base_def set_width_def set_fill_def put_number_def blank_stream_def)

lemma metadata_entry_log:
  assumes "printer pr" and "in_ts (md_pts m)" and "in_ts (md_dts m)" and "in_ts (md_pts n)" and "in_ts (md_dts n)"
    and "text_of (print_metadata k pr m) = text_of (print_metadata k pr n)"
  shows "m = n"
proof -
  have "writes (print_clock_ts t)" "text_of (print_clock_ts t) = ''ClockTS{'' @ signed_digits (ts_int t) @ ''}''" for t
    by (simp_all add: print_clock_ts_def prints)
  note c = this
  have d: "signed_digits i @ CHR ''}'' # u = signed_digits j @ CHR ''}'' # v \<longleftrightarrow> i = j \<and> u = v" for i j u v
    using signed_digits_delimited [of "CHR ''}'' # u" "CHR ''}'' # v" i j] by auto
  from assms(6) have "md_input_id m = md_input_id n \<and> ts_int (Strong (word_of_int (md_pts m)) :: clock_ts) = ts_int (Strong (word_of_int (md_pts n)) :: clock_ts) \<and>
      ts_int (Strong (word_of_int (md_dts m)) :: clock_ts) = ts_int (Strong (word_of_int (md_dts n)) :: clock_ts) \<and> md_order m = md_order n \<and> md_val m = md_val n"
    by (simp add: print_metadata_def print_kind_def chains c d printer_chains [OF assms(1)] printer.text_inject [OF assms(1)])
  with assms(2-5) show ?thesis
    by (cases m; cases n) (simp add: ts_int_def sint_word_of_int_ts)
qed

end
