(* ===== verification/Extractor.thy ===== *)
theory Extractor
  imports Inputs Scte35_Sections
begin

text \<open>
  The packet processors of an input, \<^verbatim>\<open>src/proc/extractor.cpp\<close>: \<^verbatim>\<open>SeiExtractor\<close>
  walks the NALUs of a packet and the payloads of its SEI NALUs, \<^verbatim>\<open>ScteExtractor\<close> the
  sections of a packet; what they find is pushed to the metadata queues.  A processor is its record,
  the input and the queues it shares with the rest of the program, and a step from a packet to the
  new state and the outcome of the call.
\<close>

record av_packet =
  pkt_stream_index :: nat
  pkt_pts :: ts
  pkt_dts :: ts
  pkt_pos :: int
  pkt_data :: "u8 list"

section \<open>The processors\<close>

record extractor =
  ex_pts_rescaler :: ts_rescaler
  ex_dts_rescaler :: ts_rescaler

definition new_extractor :: "clock \<Rightarrow> time_base \<Rightarrow> extractor" where
  "new_extractor c tb = \<lparr>ex_pts_rescaler = clock_relative c tb, ex_dts_rescaler = clock_relative c tb\<rparr>"

type_synonym extraction = "extractor \<times> input \<times> meta_queues"

text \<open>The body of the payload loop; \<open>order\<close> counts the pushes of the packet.\<close>

definition extract_sei ::
  "rescaling \<Rightarrow> time_base \<Rightarrow> av_packet \<Rightarrow> (sei_payload, extraction \<times> int) loop_body" where
  "extract_sei rescale tb pkt sei s = (let ((ex, inp, g), order) = s in
     if sei_type sei = SEI_USER_DATA_REGISTERED then
       let (pts, rp) = rescale_to_clock rescale tb (pkt_pts pkt) (ex_pts_rescaler ex);
           (dts, rd) = rescale_to_clock rescale tb (pkt_dts pkt) (ex_dts_rescaler ex);
           (inp, g) = push_sei pts dts order sei (inp, g)
       in (((ex\<lparr>ex_pts_rescaler := rp, ex_dts_rescaler := rd\<rparr>, inp, g), order + 1), None)
     else (s, None))"

text \<open>
  The body of the NALU loop.  The payload parser is created from the second byte of the unescaped
  data on, so data without a first byte makes an inverted range.  The payload loop always ends
  (lemma \<open>sei_messages.parse_each_ends\<close>), so \<open>the\<close> only strips its fuel.
\<close>

definition extract_nalu ::
  "cpp_impl \<Rightarrow> rescaling \<Rightarrow> time_base \<Rightarrow> av_packet \<Rightarrow> (u8 list, extraction \<times> int) loop_body" where
  "extract_nalu im rescale tb pkt nalu s = (case nalu_is_valid im nalu of
      Inl e \<Rightarrow> (s, Some e)
    | Inr False \<Rightarrow> (s, None)
    | Inr True \<Rightarrow> (case nalu_get_type im nalu of
        Inl e \<Rightarrow> (s, Some e)
      | Inr ty \<Rightarrow> if ty \<noteq> Nalu_SEI then (s, None)
          else (case copy_ebsp_to_sodb nalu of
            Inl e \<Rightarrow> (s, Some e)
          | Inr [] \<Rightarrow> (s, Some Range_Violation)
          | Inr (_ # payloads) \<Rightarrow>
              the (parse_each im sei_parser_next (sei_parser_pack im) (extract_sei rescale tb pkt) payloads s))))"

text \<open>The handlers catch a \<^verbatim>\<open>BinaryParseError\<close> and nothing else.\<close>

fun catch_parse_error :: "cpp_error option \<Rightarrow> bool result" where
  "catch_parse_error None = Inr False"
| "catch_parse_error (Some (Parse_Error r c l)) = Inr False"
| "catch_parse_error (Some e) = Inl e"

definition sei_extractor_process ::
  "cpp_impl \<Rightarrow> rescaling \<Rightarrow> time_base \<Rightarrow> av_packet \<Rightarrow> extraction \<Rightarrow> extraction \<times> bool result" where
  "sei_extractor_process im rescale tb pkt st =
     (let ((st, order), e) = the (parse_each im (nalu_parser_next im) (av_packet_nalu_parser_pack im)
            (extract_nalu im rescale tb pkt) (pkt_data pkt) (st, 0))
      in (st, catch_parse_error e))"

definition extract_section ::
  "rescaling \<Rightarrow> time_base \<Rightarrow> av_packet \<Rightarrow> (splice_info_section, extraction) loop_body" where
  "extract_section rescale tb pkt sis s = (let (ex, inp, g) = s;
       (pts, rp) = rescale_to_clock rescale tb (pkt_pts pkt) (ex_pts_rescaler ex);
       (dts, rd) = rescale_to_clock rescale tb (pkt_dts pkt) (ex_dts_rescaler ex);
       (inp, g) = push_scte pts dts 0 sis (inp, g)
     in ((ex\<lparr>ex_pts_rescaler := rp, ex_dts_rescaler := rd\<rparr>, inp, g), None))"

definition scte_extractor_process ::
  "cpp_impl \<Rightarrow> rescaling \<Rightarrow> time_base \<Rightarrow> av_packet \<Rightarrow> extraction \<Rightarrow> extraction \<times> bool result" where
  "scte_extractor_process im rescale tb pkt st =
     (let (st, e) = the (parse_each im (scte35_parser_next im) (scte35_parser_pack im)
            (extract_section rescale tb pkt) (pkt_data pkt) st)
      in (st, catch_parse_error e))"

definition maintenance_process :: "input \<Rightarrow> bool result" where
  "maintenance_process inp = Inr (in_restart_scheduled inp)"

text \<open>What is left behind when an input's stream ends, for whatever reason.\<close>

definition post_exit :: "input_spec \<Rightarrow> clock \<Rightarrow> meta_queues \<Rightarrow> meta_queues" where
  "post_exit spec c g =
     group_push_sei (build_cc_reset_metadata (is_id spec) (clock_now c + 1)) (snd (group_drop_id (is_id spec) g))"

section \<open>The entries of a packet\<close>

text \<open>The caption payloads, numbered from \<open>k\<close> on, as entries at one point of time.\<close>

definition is_caption :: "sei_payload \<Rightarrow> bool" where
  "is_caption sei \<longleftrightarrow> sei_type sei = SEI_USER_DATA_REGISTERED"

fun caption_entries :: "input_id \<Rightarrow> ts \<Rightarrow> ts \<Rightarrow> int \<Rightarrow> sei_payload list \<Rightarrow> sei_payload metadata list" where
  "caption_entries i pts dts k [] = []"
| "caption_entries i pts dts k (sei # seis) =
     \<lparr>md_input_id = i, md_pts = pts, md_dts = dts, md_order = k, md_val = sei\<rparr>
       # caption_entries i pts dts (k + 1) seis"

definition clock_pts :: "rescaling \<Rightarrow> time_base \<Rightarrow> av_packet \<Rightarrow> extractor \<Rightarrow> ts" where
  "clock_pts rescale tb pkt ex = fst (rescale_to_clock rescale tb (pkt_pts pkt) (ex_pts_rescaler ex))"

definition clock_dts :: "rescaling \<Rightarrow> time_base \<Rightarrow> av_packet \<Rightarrow> extractor \<Rightarrow> ts" where
  "clock_dts rescale tb pkt ex = fst (rescale_to_clock rescale tb (pkt_dts pkt) (ex_dts_rescaler ex))"

definition times_seen :: "av_packet \<Rightarrow> extractor \<Rightarrow> extractor" where
  "times_seen pkt ex =
     \<lparr>ex_pts_rescaler = snd (rescale_to_clock (\<lambda>t _ _. t) (1, 1) (pkt_pts pkt) (ex_pts_rescaler ex)),
      ex_dts_rescaler = snd (rescale_to_clock (\<lambda>t _ _. t) (1, 1) (pkt_dts pkt) (ex_dts_rescaler ex))\<rparr>"

text \<open>The state after \<open>seis\<close> were pushed for a packet.\<close>

definition extracted :: "rescaling \<Rightarrow> time_base \<Rightarrow> av_packet \<Rightarrow> extraction \<Rightarrow> sei_payload list \<Rightarrow> extraction" where
  "extracted rescale tb pkt st seis = (let (ex, inp, g) = st in
     if seis = [] then st
     else (times_seen pkt ex, inp\<lparr>in_caps := set_cap Sei_Kind True (in_caps inp)\<rparr>,
       fold group_push_sei (caption_entries (is_id (in_spec inp)) (clock_pts rescale tb pkt ex)
         (clock_dts rescale tb pkt ex) 0 seis) g))"

lemma caption_entries_append:
  "caption_entries i p d k (xs @ ys) = caption_entries i p d k xs @ caption_entries i p d (k + int (length xs)) ys"
  by (induction xs arbitrary: k) (simp_all add: algebra_simps)

lemma rescale_to_clock_eq:
  "rescale_to_clock f tb t r = (fst (rescale_to_clock f tb t r), snd (rescale_to_clock (\<lambda>t _ _. t) (1, 1) t r))"
  by (simp add: rescale_to_clock_def Let_def)

lemma times_seen_idem [simp]:
  "times_seen pkt (times_seen pkt ex) = times_seen pkt ex"
  "clock_pts rescale tb pkt (times_seen pkt ex) = clock_pts rescale tb pkt ex"
  "clock_dts rescale tb pkt (times_seen pkt ex) = clock_dts rescale tb pkt ex"
  by (simp_all add: times_seen_def clock_pts_def clock_dts_def rescale_to_clock_def Let_def split: option.splits)

lemma set_cap_idem [simp]: "set_cap k v (set_cap k v c) = set_cap k v c"
  by (cases k) (simp_all add: set_cap_def)

lemma extract_sei_times:
  "extract_sei rescale tb pkt sei ((ex, inp, g), order) =
     (if is_caption sei
      then (((times_seen pkt ex, inp\<lparr>in_caps := set_cap Sei_Kind True (in_caps inp)\<rparr>,
              group_push_sei \<lparr>md_input_id = is_id (in_spec inp), md_pts = clock_pts rescale tb pkt ex,
                md_dts = clock_dts rescale tb pkt ex, md_order = order, md_val = sei\<rparr> g), order + 1), None)
      else (((ex, inp, g), order), None))"
  by (subst extract_sei_def, subst (1 2) rescale_to_clock_eq)
    (simp add: is_caption_def push_sei_def times_seen_def clock_pts_def clock_dts_def)

lemma extract_sei_extracted:
  "extract_sei rescale tb pkt sei (extracted rescale tb pkt st cc, int (length cc)) =
     (if is_caption sei then (extracted rescale tb pkt st (cc @ [sei]), int (length (cc @ [sei])))
      else (extracted rescale tb pkt st cc, int (length cc)), None)"
proof (cases st)
  case (fields ex inp g)
  then show ?thesis
    by (simp add: extracted_def extract_sei_times caption_entries_append fold_append del: length_append)
      (simp add: caption_entries_append)
qed

lemma run_extract_sei:
  "run_body (extract_sei rescale tb pkt) seis (extracted rescale tb pkt st cc, int (length cc)) =
     ((extracted rescale tb pkt st (cc @ filter is_caption seis), int (length (cc @ filter is_caption seis))), None)"
proof (induction seis arbitrary: cc)
  case (Cons sei seis)
  show ?case
    using Cons.IH [of "cc @ [sei]"] Cons.IH [of cc]
    by (simp only: run_body.simps extract_sei_extracted) (simp del: length_append)
qed simp

section \<open>Packets whose payloads can be read\<close>

text \<open>A NALU that is skipped, or a SEI NALU whose data are the messages of \<open>seis\<close>.\<close>

definition sei_nalu :: "u8 list \<Rightarrow> bool" where
  "sei_nalu nalu \<longleftrightarrow> hd nalu AND 0x80 = 0 \<and> nalu_type_of (hd nalu) = Nalu_SEI"

definition carries :: "u8 list \<Rightarrow> sei_payload list \<Rightarrow> bool" where
  "carries nalu seis \<longleftrightarrow> ok_nalu nalu \<and>
     (if sei_nalu nalu then list_all ok_sei seis \<and>
        copy_ebsp_to_sodb nalu = Inr (hd nalu # concat (map sei_message seis))
      else seis = [])"

lemma nalu_front:
  "nalu \<noteq> [] \<Longrightarrow> nalu_is_valid im nalu = Inr (hd nalu AND 0x80 = 0)"
  "nalu \<noteq> [] \<Longrightarrow> nalu_get_type im nalu = Inr (nalu_type_of (hd nalu))"
  by (simp_all add: nalu_is_valid_def nalu_get_type_def slice_empty_def slice_front_def slice_index_def hd_conv_nth)

lemma extract_nalu_cases:
  "nalu \<noteq> [] \<Longrightarrow> extract_nalu im rescale tb pkt nalu s =
     (if sei_nalu nalu then
        (case copy_ebsp_to_sodb nalu of
           Inl e \<Rightarrow> (s, Some e)
         | Inr [] \<Rightarrow> (s, Some Range_Violation)
         | Inr (_ # payloads) \<Rightarrow>
             the (parse_each im sei_parser_next (sei_parser_pack im) (extract_sei rescale tb pkt) payloads s))
      else (s, None))"
  by (cases "hd nalu AND 0x80 = 0") (simp_all add: extract_nalu_def nalu_front sei_nalu_def)

lemma extract_nalu_carries:
  assumes "carries nalu seis"
  shows "extract_nalu im rescale tb pkt nalu (extracted rescale tb pkt st cc, int (length cc)) =
    ((extracted rescale tb pkt st (cc @ filter is_caption seis), int (length (cc @ filter is_caption seis))), None)"
proof -
  have ne: "nalu \<noteq> []" using assms by (simp add: carries_def ok_nalu_def)
  show ?thesis
  proof (cases "sei_nalu nalu")
    case True
    with assms have "list_all ok_sei seis" and "copy_ebsp_to_sodb nalu = Inr (hd nalu # concat (map sei_message seis))"
      by (simp_all add: carries_def)
    with True ne show ?thesis
      by (simp add: extract_nalu_cases sei_codec.parse_each_put run_extract_sei del: length_append)
  next
    case False
    with assms ne show ?thesis by (simp add: extract_nalu_cases carries_def)
  qed
qed

lemma run_extract_nalus:
  assumes "list_all2 carries nalus seiss"
  shows "run_body (extract_nalu im rescale tb pkt) nalus (extracted rescale tb pkt st cc, int (length cc)) =
    ((extracted rescale tb pkt st (cc @ filter is_caption (concat seiss)),
      int (length (cc @ filter is_caption (concat seiss)))), None)"
  using assms
proof (induction arbitrary: cc rule: list_all2_induct)
  case (Cons nalu nalus seis seiss)
  have "run_body (extract_nalu im rescale tb pkt) nalus
      (extracted rescale tb pkt st (cc @ filter is_caption seis), int (length (cc @ filter is_caption seis))) =
    ((extracted rescale tb pkt st ((cc @ filter is_caption seis) @ filter is_caption (concat seiss)),
      int (length ((cc @ filter is_caption seis) @ filter is_caption (concat seiss)))), None)"
    by (rule Cons.IH)
  then show ?case by (simp add: extract_nalu_carries [OF Cons.hyps(1)] del: length_append)
qed simp

lemma extracted_nothing [simp]: "extracted rescale tb pkt st [] = st"
  by (cases st) (simp add: extracted_def)

lemma carries_ok: "list_all2 carries nalus seiss \<Longrightarrow> list_all ok_nalu nalus"
  by (induction rule: list_all2_induct) (auto simp: carries_def)

lemma sei_extractor_process_put:
  assumes "list_all2 carries nalus seiss" and "pkt_data pkt = concat (map avcc_nalu nalus)"
  shows "sei_extractor_process im rescale tb pkt st =
    (extracted rescale tb pkt st (filter is_caption (concat seiss)), Inr False)"
  using run_extract_nalus [OF assms(1), of im rescale tb pkt st "[]"]
  by (simp add: sei_extractor_process_def assms(2) nalu_codec.parse_each_put [OF carries_ok [OF assms(1)]])

section \<open>What is queued\<close>

lemma fold_push_mset:
  "mset (g_sei (fold group_push_sei es g)) = mset (g_sei g) + mset es"
  "g_scte (fold group_push_sei es g) = g_scte g"
  by (induction es arbitrary: g) (simp_all add: group_push_sei_def mq_push_def mq.push_mset)

lemma fold_push_heap: "heap_group g \<Longrightarrow> heap_group (fold group_push_sei es g)"
  by (induction es arbitrary: g)
    (simp_all add: group_push_sei_def heap_group_def mq_push_def mq.push_heap_heap)

lemma extracted_queued:
  assumes "extracted rescale tb pkt (ex, inp, g) seis = (ex', inp', g')"
  shows "mset (g_sei g') = mset (g_sei g) + mset (caption_entries (is_id (in_spec inp))
      (clock_pts rescale tb pkt ex) (clock_dts rescale tb pkt ex) 0 seis) \<and>
    g_scte g' = g_scte g \<and> (heap_group g \<longrightarrow> heap_group g') \<and> in_spec inp' = in_spec inp \<and>
    (seis \<noteq> [] \<longrightarrow> has_cap Sei_Kind (in_caps inp'))"
  using assms
  by (auto simp: extracted_def fold_push_mset fold_push_heap has_cap_def set_cap_def split: if_splits)

text \<open>
  C11: From a packet whose SEI NALUs can be read the extractor queues exactly its caption
  payloads, in order and numbered from 0, at the rescaled timestamps of the packet and with the
  id of the input.
\<close>

theorem extraction_queues_captions:
  assumes "list_all2 carries nalus seiss" and "pkt_data pkt = concat (map avcc_nalu nalus)"
    and "sei_extractor_process im rescale tb pkt (ex, inp, g) = ((ex', inp', g'), r)"
  shows "r = Inr False \<and>
    mset (g_sei g') = mset (g_sei g) + mset (caption_entries (is_id (in_spec inp))
      (clock_pts rescale tb pkt ex) (clock_dts rescale tb pkt ex) 0 (filter is_caption (concat seiss))) \<and>
    g_scte g' = g_scte g \<and> (heap_group g \<longrightarrow> heap_group g') \<and> in_spec inp' = in_spec inp"
proof -
  have "extracted rescale tb pkt (ex, inp, g) (filter is_caption (concat seiss)) = (ex', inp', g') \<and> r = Inr False"
    using assms(3) by (simp add: sei_extractor_process_put [OF assms(1,2)])
  then show ?thesis using extracted_queued by blast
qed

text \<open>A packet to evaluate on: a delimiter, a SEI NALU with a caption, and a picture slice.\<close>

definition sample_nalus :: "u8 list list" where
  "sample_nalus = [[9, 0xF0], 6 # emit_sei_payload RESET_SEI, [0x65, 0x88, 0x84]]"

definition sample_packet :: av_packet where
  "sample_packet = \<lparr>pkt_stream_index = 0, pkt_pts = 3000, pkt_dts = 0, pkt_pos = 0,
     pkt_data = concat (map avcc_nalu sample_nalus)\<rparr>"

lemma reset_wire: "wire_sei RESET_SEI"
  by code_simp

lemma sample_types: "nalu_type_of 6 = Nalu_SEI" "nalu_type_of 9 = Nalu_AUD" "nalu_type_of 0x65 = Nalu_IDR_SLICE"
  by code_simp+

lemma single_sei_carries:
  assumes "wire_sei sei"
  shows "carries (6 # emit_sei_payload sei) [sei]"
proof -
  have "sei_nalu (6 # emit_sei_payload sei)" by (simp add: sei_nalu_def sample_types)
  moreover have "ok_sei sei" using assms by (auto simp: ok_sei_def wire_sei_def)
  ultimately show ?thesis
    using length_sei_nalu(2) [OF assms] sodb_of_sei_nalu [OF assms]
    by (simp add: carries_def ok_nalu_def MAX_LENGTH_def)
qed

lemma sample_carries: "list_all2 carries sample_nalus [[], [RESET_SEI], []]"
  using single_sei_carries [OF reset_wire]
  by (simp add: sample_nalus_def) (simp add: carries_def sei_nalu_def sample_types ok_nalu_def MAX_LENGTH_def)

theorem extraction_queues_captions_witness:
  "g_sei (snd (snd (fst (sei_extractor_process sample_impl (\<lambda>t a b. t) (1, 90000) sample_packet
     (new_extractor default_clock (1, 90000), user_defined_input (default_input_spec\<lparr>is_id := 1\<rparr>), empty_queues)))))
   = [\<lparr>md_input_id = 1, md_pts = 0, md_dts = 0, md_order = 0, md_val = RESET_SEI\<rparr>]"
proof -
  let ?s = "(new_extractor default_clock (1, 90000), user_defined_input (default_input_spec\<lparr>is_id := 1\<rparr>), empty_queues)"
  obtain ex' inp' g' r where p: "sei_extractor_process sample_impl (\<lambda>t a b. t) (1, 90000) sample_packet ?s = ((ex', inp', g'), r)"
    by (metis prod_cases3 surj_pair)
  have "mset (g_sei g') = {#\<lparr>md_input_id = 1, md_pts = 0, md_dts = 0, md_order = 0, md_val = RESET_SEI\<rparr>#}"
    using extraction_queues_captions [OF sample_carries _ p]
    by (simp add: sample_packet_def is_caption_def RESET_SEI_def user_defined_input_def empty_queues_def
        clock_pts_def clock_dts_def rescale_to_clock_def new_extractor_def clock_relative_def clock_now_def
        default_clock_def)
  then show ?thesis by (simp add: p)
qed

section \<open>Any packet\<close>

text \<open>Both loops keep: what was pushed so far are captions, numbered from 0 on.\<close>

definition captions_pushed ::
  "rescaling \<Rightarrow> time_base \<Rightarrow> av_packet \<Rightarrow> extraction \<Rightarrow> extraction \<times> int \<Rightarrow> bool" where
  "captions_pushed rescale tb pkt st s \<longleftrightarrow>
     (\<exists>cc. list_all is_caption cc \<and> s = (extracted rescale tb pkt st cc, int (length cc)))"

lemma extract_sei_keeps:
  assumes "captions_pushed rescale tb pkt st s" and "extract_sei rescale tb pkt sei s = (s', e)"
  shows "captions_pushed rescale tb pkt st s'"
proof -
  obtain cc where cc: "list_all is_caption cc" "s = (extracted rescale tb pkt st cc, int (length cc))"
    using assms(1) by (auto simp: captions_pushed_def)
  show ?thesis
  proof (cases "is_caption sei")
    case True
    then have "s' = (extracted rescale tb pkt st (cc @ [sei]), int (length (cc @ [sei])))"
      using assms(2) extract_sei_extracted [of rescale tb pkt sei st cc] cc(2) by simp
    moreover have "list_all is_caption (cc @ [sei])" using True cc(1) by simp
    ultimately show ?thesis unfolding captions_pushed_def by blast
  next
    case False
    then show ?thesis using assms extract_sei_extracted [of rescale tb pkt sei st cc] cc(2) by simp
  qed
qed

lemma parse_each_the:
  assumes "parse_each im Next Pack body buf s \<noteq> None" and "the (parse_each im Next Pack body buf s) = (s', e)"
    and "P s" and "\<And>x s s' e. P s \<Longrightarrow> body x s = (s', e) \<Longrightarrow> P s'"
  shows "P s'"
proof -
  have "parser_loop (Suc (length buf)) im Next Pack body (parser_create buf) s = Some (s', e)"
    using assms(1,2) by (auto simp: parse_each_def)
  then show ?thesis using parser_loop_invariant [of P body] assms(3,4) by blast
qed

lemma extract_nalu_keeps:
  assumes "captions_pushed rescale tb pkt st s" and "extract_nalu im rescale tb pkt nalu s = (s', e)"
  shows "captions_pushed rescale tb pkt st s'"
proof -
  consider "s' = s" | payloads where
    "the (parse_each im sei_parser_next (sei_parser_pack im) (extract_sei rescale tb pkt) payloads s) = (s', e)"
    using assms(2) by (auto simp: extract_nalu_def split: sum.splits bool.splits list.splits if_splits)
  then show ?thesis
  proof cases
    case 2
    show ?thesis
      by (rule parse_each_the [where P = "captions_pushed rescale tb pkt st", OF sei_messages.parse_each_ends 2 assms(1)])
        (rule extract_sei_keeps)
  qed (simp add: assms(1))
qed

lemma catch_parse_error_results:
  "catch_parse_error e \<noteq> Inr True" "catch_parse_error e \<noteq> Inl (Parse_Error r c l)"
  by (cases e rule: catch_parse_error.cases; simp)+

lemma sei_extractor_process_extracted:
  assumes "sei_extractor_process im rescale tb pkt st = (st', r)"
  obtains cc e where "list_all is_caption cc" and "st' = extracted rescale tb pkt st cc" and "r = catch_parse_error e"
proof -
  let ?run = "parse_each im (nalu_parser_next im) (av_packet_nalu_parser_pack im)
    (extract_nalu im rescale tb pkt) (pkt_data pkt) (st, 0)"
  obtain s n e where run: "the ?run = ((s, n), e)" by (metis surj_pair)
  have start: "captions_pushed rescale tb pkt st (st, 0)"
    by (auto simp: captions_pushed_def intro: exI [of _ "[]"])
  have "captions_pushed rescale tb pkt st (s, n)"
    by (rule parse_each_the [where P = "captions_pushed rescale tb pkt st", OF nalus.parse_each_ends run start])
      (rule extract_nalu_keeps)
  then obtain cc where "list_all is_caption cc" "s = extracted rescale tb pkt st cc"
    by (auto simp: captions_pushed_def)
  moreover have "s = st'" "r = catch_parse_error e"
    using assms by (simp_all add: sei_extractor_process_def run)
  ultimately show ?thesis using that by blast
qed

lemma sei_extractor_process_any:
  assumes "sei_extractor_process im rescale tb pkt (ex, inp, g) = ((ex', inp', g'), r)"
  shows "(\<exists>cc. list_all is_caption cc \<and>
      mset (g_sei g') = mset (g_sei g) + mset (caption_entries (is_id (in_spec inp))
        (clock_pts rescale tb pkt ex) (clock_dts rescale tb pkt ex) 0 cc)) \<and>
    g_scte g' = g_scte g \<and> (heap_group g \<longrightarrow> heap_group g') \<and> in_spec inp' = in_spec inp \<and>
    r \<noteq> Inr True \<and> (\<forall>x c l. r \<noteq> Inl (Parse_Error x c l))"
proof -
  obtain cc e where "list_all is_caption cc" "(ex', inp', g') = extracted rescale tb pkt (ex, inp, g) cc"
    "r = catch_parse_error e" using sei_extractor_process_extracted [OF assms] .
  then show ?thesis
    using extracted_queued [of rescale tb pkt ex inp g cc ex' inp' g'] by (auto simp: catch_parse_error_results)
qed

text \<open>
  Whatever the bytes of a packet, the SEI extractor only adds entries with caption payloads, of
  this input and this time and numbered from 0, keeps the queue a heap and leaves the SCTE-35
  queue alone, and never lets a parse error out.
\<close>

theorem extraction_of_any_packet:
  assumes "sei_extractor_process im rescale tb pkt (ex, inp, g) = ((ex', inp', g'), r)"
  shows "(\<exists>cc. list_all is_caption cc \<and>
      mset (g_sei g') = mset (g_sei g) + mset (caption_entries (is_id (in_spec inp))
        (clock_pts rescale tb pkt ex) (clock_dts rescale tb pkt ex) 0 cc)) \<and>
    g_scte g' = g_scte g \<and> (heap_group g \<longrightarrow> heap_group g') \<and> in_spec inp' = in_spec inp \<and>
    r \<noteq> Inr True \<and> (\<forall>x c l. r \<noteq> Inl (Parse_Error x c l))"
  using assms by (rule sei_extractor_process_any)

theorem extraction_of_any_packet_witness:
  "snd (sei_extractor_process sample_impl (\<lambda>t a b. t) (1, 90000) (sample_packet\<lparr>pkt_data := [0, 0]\<rparr>)
     (new_extractor default_clock (1, 90000), user_defined_input default_input_spec, empty_queues)) \<noteq> Inr True"
  using extraction_of_any_packet [of sample_impl "\<lambda>t a b. t" "(1, 90000)" "sample_packet\<lparr>pkt_data := [0, 0]\<rparr>"
      "new_extractor default_clock (1, 90000)" "user_defined_input default_input_spec" empty_queues]
  by (cases "sei_extractor_process sample_impl (\<lambda>t a b. t) (1, 90000) (sample_packet\<lparr>pkt_data := [0, 0]\<rparr>)
     (new_extractor default_clock (1, 90000), user_defined_input default_input_spec, empty_queues)") auto

section \<open>Packets that end the stream\<close>

lemma sodb_without_stop:
  "bad \<noteq> [] \<Longrightarrow> last bad \<noteq> 0 \<Longrightarrow> last bad \<noteq> 0x80 \<Longrightarrow>
   copy_ebsp_to_sodb bad = Inl (Runtime_Error ''malformed RBSP payload, missing stop bit'')"
  by (simp add: ebsp_defs drop_zeros_back.simps [of bad])

text \<open>
  A SEI NALU whose last byte is neither zero nor a stop byte makes the extractor throw an
  exception it does not catch, after it has queued the captions in front of it.
\<close>

theorem missing_stop_bit_ends_stream:
  assumes "list_all2 carries nalus seiss" and "ok_nalu bad" and "list_all ok_nalu post" and "sei_nalu bad"
    and "last bad \<noteq> 0" and "last bad \<noteq> 0x80"
    and "pkt_data pkt = concat (map avcc_nalu (nalus @ bad # post))"
  shows "sei_extractor_process im rescale tb pkt st =
    (extracted rescale tb pkt st (filter is_caption (concat seiss)),
     Inl (Runtime_Error ''malformed RBSP payload, missing stop bit''))"
proof -
  have "list_all ok_nalu (nalus @ bad # post)" using assms(2,3) carries_ok [OF assms(1)] by simp
  note run = nalu_codec.parse_each_put [OF this, of im]
  have "bad \<noteq> []" using assms(2) by (simp add: ok_nalu_def)
  then have "extract_nalu im rescale tb pkt bad s =
      (s, Some (Runtime_Error ''malformed RBSP payload, missing stop bit''))" for s
    using assms(4) by (simp add: extract_nalu_cases sodb_without_stop [OF _ assms(5,6)])
  then show ?thesis
    using run_extract_nalus [OF assms(1), of im rescale tb pkt st "[]"]
    by (simp add: sei_extractor_process_def assms(7) run run_body_append del: map_append concat_append)
qed

theorem missing_stop_bit_ends_stream_witness:
  "snd (sei_extractor_process sample_impl (\<lambda>t a b. t) (1, 90000) (sample_packet\<lparr>pkt_data := concat (map avcc_nalu [[6, 1, 1, 7]])\<rparr>)
     (new_extractor default_clock (1, 90000), user_defined_input default_input_spec, empty_queues))
   = Inl (Runtime_Error ''malformed RBSP payload, missing stop bit'')"
  using missing_stop_bit_ends_stream [of "[]" "[]" "[6, 1, 1, 7]" "[]"
      "sample_packet\<lparr>pkt_data := concat (map avcc_nalu [[6, 1, 1, 7]])\<rparr>" sample_impl "\<lambda>t a b. t" "(1, 90000)" "(new_extractor default_clock (1, 90000), user_defined_input default_input_spec, empty_queues)"]
  by (simp add: ok_nalu_def MAX_LENGTH_def sei_nalu_def sample_types)

text \<open>
  A SEI NALU that holds a payload type and nothing more makes the extractor read behind its
  buffer.
\<close>

theorem truncated_sei_leaves_buffer:
  assumes "ty \<noteq> 0xFF" and "pkt_data pkt = avcc_nalu [6, ty, 0x80]"
  shows "sei_extractor_process im rescale tb pkt st = (st, Inl Range_Violation)"
proof -
  have ok: "list_all ok_nalu [[6, ty, 0x80]]" by (simp add: ok_nalu_def MAX_LENGTH_def)
  have d: "pkt_data pkt = concat (map avcc_nalu [[6, ty, 0x80]])" by (simp add: assms(2))
  have "copy_ebsp_to_sodb [6, ty, 0x80] = Inr [6, ty]"
    by (simp add: ebsp_defs drop_zeros_back.simps [of "[6, ty, 0x80]"])
  moreover have "sei_nalu [6, ty, 0x80]" by (simp add: sei_nalu_def sample_types)
  moreover have "parse_each im sei_parser_next (sei_parser_pack im) body [ty] s = Some (s, Some Range_Violation)"
    for body :: "(sei_payload, extraction \<times> int) loop_body" and s
    using assms(1)
    by (simp add: parse_each_def parser_shift_def parser_next_def sei_parser_next_def has_next_def unread_def)
  ultimately show ?thesis
    unfolding sei_extractor_process_def d nalu_codec.parse_each_put [OF ok]
    by (simp add: extract_nalu_cases)
qed

theorem truncated_sei_leaves_buffer_witness:
  "sei_extractor_process sample_impl (\<lambda>t a b. t) (1, 90000) (sample_packet\<lparr>pkt_data := avcc_nalu [6, 4, 0x80]\<rparr>)
     (new_extractor default_clock (1, 90000), user_defined_input default_input_spec, empty_queues)
   = ((new_extractor default_clock (1, 90000), user_defined_input default_input_spec, empty_queues), Inl Range_Violation)"
  by (rule truncated_sei_leaves_buffer) simp_all

section \<open>Sections and the end of a stream\<close>

definition section_entry :: "input_id \<Rightarrow> ts \<Rightarrow> ts \<Rightarrow> splice_info_section \<Rightarrow> splice_info_section metadata" where
  "section_entry i pts dts sis = \<lparr>md_input_id = i, md_pts = pts, md_dts = dts, md_order = 0, md_val = sis\<rparr>"

lemma extract_section_times:
  "extract_section rescale tb pkt sis (ex, inp, g) =
     ((times_seen pkt ex, inp\<lparr>in_caps := set_cap Scte_Kind True (in_caps inp)\<rparr>,
       group_push_scte (section_entry (is_id (in_spec inp)) (clock_pts rescale tb pkt ex) (clock_dts rescale tb pkt ex) sis) g),
      None)"
  by (subst extract_section_def, subst (1 2) rescale_to_clock_eq)
    (simp add: push_scte_def times_seen_def clock_pts_def clock_dts_def section_entry_def)

lemma run_extract_sections:
  "\<exists>ex' inp' g'. run_body (extract_section rescale tb pkt) ss (ex, inp, g) = ((ex', inp', g'), None) \<and>
     mset (g_scte g') = mset (g_scte g) + mset (map (section_entry (is_id (in_spec inp))
       (clock_pts rescale tb pkt ex) (clock_dts rescale tb pkt ex)) ss) \<and>
     g_sei g' = g_sei g \<and> (heap_group g \<longrightarrow> heap_group g') \<and> in_spec inp' = in_spec inp"
proof (induction ss arbitrary: ex inp g)
  case (Cons sis ss)
  let ?g = "group_push_scte (section_entry (is_id (in_spec inp)) (clock_pts rescale tb pkt ex) (clock_dts rescale tb pkt ex) sis) g"
  have "mset (g_scte ?g) = add_mset (section_entry (is_id (in_spec inp)) (clock_pts rescale tb pkt ex)
      (clock_dts rescale tb pkt ex) sis) (mset (g_scte g))" and "g_sei ?g = g_sei g" and "heap_group g \<longrightarrow> heap_group ?g"
    by (simp_all add: group_push_scte_def mq_push_def mq.push_mset mq.push_heap_heap heap_group_def)
  then show ?case
    using Cons.IH [of "times_seen pkt ex" "inp\<lparr>in_caps := set_cap Scte_Kind True (in_caps inp)\<rparr>" ?g]
    by (auto simp: extract_section_times)
qed auto

text \<open>The state after sections were pushed for a packet.\<close>

definition sections_extracted ::
  "rescaling \<Rightarrow> time_base \<Rightarrow> av_packet \<Rightarrow> extraction \<Rightarrow> splice_info_section list \<Rightarrow> extraction" where
  "sections_extracted rescale tb pkt st ss = (let (ex, inp, g) = st in
     if ss = [] then st
     else (times_seen pkt ex, inp\<lparr>in_caps := set_cap Scte_Kind True (in_caps inp)\<rparr>,
       fold (group_push_scte \<circ> section_entry (is_id (in_spec inp)) (clock_pts rescale tb pkt ex)
         (clock_dts rescale tb pkt ex)) ss g))"

lemma extract_section_extracted:
  "extract_section rescale tb pkt sis (sections_extracted rescale tb pkt st ss) =
     (sections_extracted rescale tb pkt st (ss @ [sis]), None)"
proof (cases st)
  case (fields ex inp g)
  then show ?thesis by (simp add: sections_extracted_def extract_section_times)
qed

lemma scte_extractor_process_extracted:
  assumes "scte_extractor_process im rescale tb pkt st = (st', r)"
  obtains ss where "st' = sections_extracted rescale tb pkt st ss"
proof -
  let ?P = "\<lambda>s. \<exists>ss. s = sections_extracted rescale tb pkt st ss"
  obtain s e where run: "the (parse_each im (scte35_parser_next im) (scte35_parser_pack im)
      (extract_section rescale tb pkt) (pkt_data pkt) st) = (s, e)" by (metis surj_pair)
  have start: "?P st" by (rule exI [of _ "[]"], cases st) (simp add: sections_extracted_def)
  have "?P s"
    by (rule parse_each_the [where P = ?P, OF sections.parse_each_ends run start])
      (metis extract_section_extracted prod.inject)
  moreover have "s = st'" using assms by (simp add: scte_extractor_process_def run)
  ultimately show ?thesis using that by blast
qed

lemma fold_push_scte:
  "g_sei (fold (group_push_scte \<circ> f) ss g) = g_sei g"
  "mset (g_scte (fold (group_push_scte \<circ> f) ss g)) = mset (g_scte g) + mset (map f ss)"
  by (induction ss arbitrary: g) (simp_all add: group_push_scte_def mq_push_def mq.push_mset)

lemma scte_extractor_process_any:
  assumes "scte_extractor_process im rescale tb pkt (ex, inp, g) = ((ex', inp', g'), r)"
  shows "in_spec inp' = in_spec inp \<and> g_sei g' = g_sei g"
  by (rule scte_extractor_process_extracted [OF assms])
    (auto simp: sections_extracted_def fold_push_scte split: if_splits)

text \<open>
  From a packet of emitted sections the SCTE-35 extractor queues exactly these sections at the
  rescaled timestamps of the packet.
\<close>

theorem extraction_queues_sections:
  assumes "list_all (ok_section im) ss" and "pkt_data pkt = concat (map emit_section ss)"
    and "scte_extractor_process im rescale tb pkt (ex, inp, g) = ((ex', inp', g'), r)"
  shows "r = Inr False \<and>
    mset (g_scte g') = mset (g_scte g) + mset (map (section_entry (is_id (in_spec inp))
      (clock_pts rescale tb pkt ex) (clock_dts rescale tb pkt ex)) ss) \<and>
    g_sei g' = g_sei g \<and> (heap_group g \<longrightarrow> heap_group g') \<and> in_spec inp' = in_spec inp"
  using assms(3) run_extract_sections [of rescale tb pkt ss ex inp g]
  by (auto simp: scte_extractor_process_def assms(2) section_codec.parse_each_put [OF assms(1)])

theorem extraction_queues_sections_witness:
  "mset (g_scte (snd (snd (fst (scte_extractor_process sample_impl (\<lambda>t a b. t) (1, 90000)
     (sample_packet\<lparr>pkt_data := concat (map emit_section [sample_section, sample_section])\<rparr>)
     (new_extractor default_clock (1, 90000), user_defined_input default_input_spec, empty_queues))))))
   = {#section_entry 0 0 0 sample_section, section_entry 0 0 0 sample_section#}"
proof -
  let ?pkt = "sample_packet\<lparr>pkt_data := concat (map emit_section [sample_section, sample_section])\<rparr>"
  let ?ex = "new_extractor default_clock (1, 90000)"
  let ?inp = "user_defined_input default_input_spec"
  obtain ex' inp' g' r where p: "scte_extractor_process sample_impl (\<lambda>t a b. t) (1, 90000) ?pkt (?ex, ?inp, empty_queues)
      = ((ex', inp', g'), r)" by (metis prod_cases3 surj_pair)
  have ok: "list_all (ok_section sample_impl) [sample_section, sample_section]" by (simp add: ok_sample)
  have d: "pkt_data ?pkt = concat (map emit_section [sample_section, sample_section])" by simp
  show ?thesis using extraction_queues_sections [OF ok d p]
    unfolding p by (simp add: user_defined_input_def default_input_spec_def empty_queues_def
        clock_pts_def clock_dts_def rescale_to_clock_def new_extractor_def clock_relative_def clock_now_def
        default_clock_def)
qed

text \<open>
  The exit of an input removes its entries from both queues and adds one reset.
\<close>

theorem ended_input_leaves_one_reset:
  "mset (g_sei (post_exit spec c g)) =
     add_mset (build_cc_reset_metadata (is_id spec) (clock_now c + 1))
       (filter_mset (\<lambda>x. md_input_id x \<noteq> is_id spec) (mset (g_sei g))) \<and>
   mset (g_scte (post_exit spec c g)) = filter_mset (\<lambda>x. md_input_id x \<noteq> is_id spec) (mset (g_scte g))"
  by (simp add: post_exit_def group_push_sei_def mq_push_def mq.push_mset group_drop_id_def mq_drop_id_def Let_def)

end
