(* ===== verification/Remux.thy ===== *)
theory Remux
  imports Streams Extractor
begin

text \<open>
  Moving packets from a source to a sink: \<^verbatim>\<open>src/io/remux_loop.h\<close> and
  \<^verbatim>\<open>.cpp\<close>, \<^verbatim>\<open>source_handle.cpp\<close>,
  \<^verbatim>\<open>sink_handle.cpp\<close> and the errors of \<^verbatim>\<open>src/ffmpeg.cpp\<close>.
  libavformat is the record \<^verbatim>\<open>av_io\<close> of the functions that the code calls, over a state
  \<open>'w\<close> of its own; the state of the packet processors is \<open>'s\<close>.
\<close>

section \<open>Source and sink\<close>

record 'w av_io =
  io_read_frame :: "'w \<Rightarrow> int \<times> av_packet \<times> 'w"
  io_write_frame :: "av_packet \<Rightarrow> 'w \<Rightarrow> int \<times> 'w"
  io_source :: "'w \<Rightarrow> av_stream list"
  io_sink :: "'w \<Rightarrow> av_stream list"
  io_ts_nonstrict :: bool
  io_rescale_ts :: "av_packet \<Rightarrow> time_base \<Rightarrow> time_base \<Rightarrow> av_packet"
  io_strerror :: "int \<Rightarrow> string"

definition AVERROR_EOF :: int where
  "AVERROR_EOF = - 541478725"

definition AV_NOPTS_VALUE :: ts where
  "AV_NOPTS_VALUE = - (2 ^ 63)"

definition ff_runtime_error :: "(int \<Rightarrow> string) \<Rightarrow> string \<Rightarrow> int \<Rightarrow> cpp_error" where
  "ff_runtime_error strerror description e = Runtime_Error (description @ '': '' @ strerror e)"

text \<open>Whether there is a packet; the packet is filled in either case.\<close>

definition read_packet :: "'w av_io \<Rightarrow> 'w \<Rightarrow> bool result \<times> av_packet \<times> 'w" where
  "read_packet io w = (let (e, pkt, w) = io_read_frame io w in
     (if e \<ge> 0 \<or> e = AVERROR_EOF then Inr (e = 0)
      else Inl (ff_runtime_error (io_strerror io) ''failed reading packet'' e), pkt, w))"

definition interleaved_write_frame :: "'w av_io \<Rightarrow> av_packet \<Rightarrow> 'w \<Rightarrow> unit result \<times> 'w" where
  "interleaved_write_frame io pkt w = (let (e, w) = io_write_frame io pkt w in
     (if e < 0 then Inl (ff_runtime_error (io_strerror io) ''Error muxing packet'' e) else Inr (), w))"

definition remux_packet :: "'w av_io \<Rightarrow> av_packet \<Rightarrow> 'w \<Rightarrow> unit result \<times> 'w" where
  "remux_packet io pkt w =
     (case bind_res (get_stream (pkt_stream_index pkt) (io_source io w)) (\<lambda>in_stream.
           bind_res (get_stream (pkt_stream_index pkt) (io_sink io w)) (\<lambda>out_stream.
           Inr (io_rescale_ts io pkt (st_time_base in_stream) (st_time_base out_stream)))) of
        Inl e \<Rightarrow> (Inl e, w)
      | Inr pkt \<Rightarrow> interleaved_write_frame io (pkt\<lparr>pkt_pos := - 1\<rparr>) w)"

section \<open>Packet processors\<close>

text \<open>A processor may change its state and the packet; the result asks for a break.\<close>

type_synonym 's processor = "av_packet \<Rightarrow> 's \<Rightarrow> 's \<times> av_packet \<times> bool result"
type_synonym 's factory = "time_base \<Rightarrow> 's \<Rightarrow> 's \<times> 's processor"

definition null_processor :: "'s factory" where
  "null_processor tb s = (s, (\<lambda>pkt s. (s, pkt, Inr False)))"

text \<open>One processor of every kind that has a stream, all with the time base of the time source.\<close>

definition mkproc ::
  "stream_classification \<Rightarrow> av_stream list \<Rightarrow> kind \<Rightarrow> 's factory \<Rightarrow> 's \<Rightarrow> ('s \<times> 's processor option) result" where
  "mkproc sc streams k factory s =
     (if sc_has k sc then
        bind_res (get_stream_of Time_Source_Kind sc streams) (\<lambda>st.
        (let (s, p) = factory (st_time_base st) s in Inr (s, Some p)))
      else Inr (s, None))"

fun mkprocs ::
  "stream_classification \<Rightarrow> av_stream list \<Rightarrow> (kind \<times> 's factory) list \<Rightarrow> 's
    \<Rightarrow> ('s \<times> (kind \<times> 's processor option) list) result" where
  "mkprocs sc streams [] s = Inr (s, [])"
| "mkprocs sc streams ((k, factory) # factories) s =
     bind_res (mkproc sc streams k factory s) (\<lambda>(s, p).
     bind_res (mkprocs sc streams factories s) (\<lambda>(s, procs).
     Inr (s, (k, p) # procs)))"

text \<open>
  Every processor whose stream the packet is of handles it, in order.  Without an assertion a
  missing processor is a call through a null pointer.
\<close>

fun run_procs ::
  "cpp_impl \<Rightarrow> stream_classification \<Rightarrow> (kind \<times> 's processor option) list \<Rightarrow> bool \<Rightarrow> av_packet \<Rightarrow> 's
    \<Rightarrow> 's \<times> av_packet \<times> bool result" where
  "run_procs im sc [] brk pkt s = (s, pkt, Inr brk)"
| "run_procs im sc ((k, p) # procs) brk pkt s =
     (if Some (pkt_stream_index pkt) = sc_index k sc then
        (case p of
           None \<Rightarrow> (s, pkt, bind_res (cpp_assert im False) (\<lambda>_. Inl Range_Violation))
         | Some p \<Rightarrow> (case p pkt s of
               (s, pkt, Inl e) \<Rightarrow> (s, pkt, Inl e)
             | (s, pkt, Inr my_brk) \<Rightarrow> run_procs im sc procs (brk \<or> my_brk) pkt s))
      else run_procs im sc procs brk pkt s)"

section \<open>The loop\<close>

definition MAX_RETRY :: nat where
  "MAX_RETRY = 10"

definition signed_decimal :: "int \<Rightarrow> string" where
  "signed_decimal i = (if i < 0 then ''-'' @ decimal (nat (- i)) else decimal (nat i))"

definition dts_not_increasing :: "bool \<Rightarrow> av_stream \<Rightarrow> av_packet \<Rightarrow> bool" where
  "dts_not_increasing nonstrict st pkt \<longleftrightarrow> st_cur_dts st \<noteq> 0 \<and> st_cur_dts st \<noteq> AV_NOPTS_VALUE \<and>
     (\<not> nonstrict \<and> st_codec_type st \<noteq> Media_Subtitle \<and> st_codec_type st \<noteq> Media_Data \<and>
        st_cur_dts st \<ge> pkt_dts pkt \<or> st_cur_dts st > pkt_dts pkt)"

definition NON_MONO_DTS :: "nat \<Rightarrow> ts \<Rightarrow> ts \<Rightarrow> string" where
  "NON_MONO_DTS i cur dts = ''Input provided invalid, non monotonically increasing dts to muxer in stream '' @
     decimal i @ '': '' @ signed_decimal cur @ '' >= '' @ signed_decimal dts @
     ''. This is interpreted as stream being restarted.''"

definition PTS_LT_DTS :: "nat \<Rightarrow> ts \<Rightarrow> ts \<Rightarrow> string" where
  "PTS_LT_DTS i pts dts = ''pts ('' @ signed_decimal pts @ '') < dts ('' @ signed_decimal dts @
     '') in stream '' @ decimal i @ ''. This is interpreted as stream being restarted.''"

definition check_packet :: "'w av_io \<Rightarrow> 'w \<Rightarrow> av_packet \<Rightarrow> unit result" where
  "check_packet io w pkt =
     bind_res (get_stream (pkt_stream_index pkt) (io_sink io w)) (\<lambda>st.
     if dts_not_increasing (io_ts_nonstrict io) st pkt
     then Inl (Runtime_Error (NON_MONO_DTS (pkt_stream_index pkt) (st_cur_dts st) (pkt_dts pkt)))
     else if pkt_dts pkt \<noteq> AV_NOPTS_VALUE \<and> pkt_pts pkt \<noteq> AV_NOPTS_VALUE \<and> pkt_pts pkt < pkt_dts pkt
     then Inl (Runtime_Error (PTS_LT_DTS (pkt_stream_index pkt) (pkt_pts pkt) (pkt_dts pkt)))
     else Inr ())"

record ('w, 's) remux_state =
  rx_io :: 'w
  rx_procs :: 's
  rx_read_trial :: nat
  rx_remux_trial :: nat

text \<open>A \<^verbatim>\<open>std::runtime_error\<close> is retried up to \<open>MAX_RETRY\<close> times in a row; nothing else is caught.\<close>

definition retries :: "nat \<Rightarrow> cpp_error \<Rightarrow> bool" where
  "retries trial e \<longleftrightarrow> (case e of Runtime_Error m \<Rightarrow> trial < MAX_RETRY | _ \<Rightarrow> False)"

text \<open>One round: the new state, and the outcome when the loop is left.\<close>

definition remux_write ::
  "'w av_io \<Rightarrow> av_packet \<Rightarrow> bool \<Rightarrow> ('w, 's) remux_state \<Rightarrow> ('w, 's) remux_state \<times> unit result option" where
  "remux_write io pkt brk st = (let (r, w) = remux_packet io pkt (rx_io st); st = st\<lparr>rx_io := w\<rparr> in
     case r of
       Inr _ \<Rightarrow> (st\<lparr>rx_remux_trial := 0\<rparr>, if brk then Some (Inr ()) else None)
     | Inl e \<Rightarrow>
         (if retries (rx_remux_trial st) e
          then (st\<lparr>rx_remux_trial := rx_remux_trial st + 1\<rparr>, if brk then Some (Inr ()) else None)
          else (st, Some (Inl e))))"

definition remux_round ::
  "cpp_impl \<Rightarrow> 'w av_io \<Rightarrow> stream_classification \<Rightarrow> (kind \<times> 's processor option) list
    \<Rightarrow> ('w, 's) remux_state \<Rightarrow> ('w, 's) remux_state \<times> unit result option" where
  "remux_round im io sc procs st = (let (r, pkt, w) = read_packet io (rx_io st); st = st\<lparr>rx_io := w\<rparr> in
     case r of
       Inl e \<Rightarrow>
         (if retries (rx_read_trial st) e then (st\<lparr>rx_read_trial := rx_read_trial st + 1\<rparr>, None)
          else (st, Some (Inl e)))
     | Inr found \<Rightarrow>
         (let st = st\<lparr>rx_read_trial := 0\<rparr> in
          if \<not> found then (st, Some (Inr ()))
          else (case check_packet io w pkt of
              Inl e \<Rightarrow> (st, Some (Inl e))
            | Inr _ \<Rightarrow> (case run_procs im sc procs False pkt (rx_procs st) of
                  (s, pkt, Inl e) \<Rightarrow> (st\<lparr>rx_procs := s\<rparr>, Some (Inl e))
                | (s, pkt, Inr brk) \<Rightarrow> remux_write io pkt brk (st\<lparr>rx_procs := s\<rparr>)))))"

text \<open>\<open>None\<close> is a loop that never ends.\<close>

partial_function (option) rounds :: "('st \<Rightarrow> 'st \<times> 'r option) \<Rightarrow> 'st \<Rightarrow> ('st \<times> 'r) option" where
  "rounds round st = (case round st of
      (st, Some r) \<Rightarrow> Some (st, r)
    | (st, None) \<Rightarrow> rounds round st)"

definition remux_loop ::
  "cpp_impl \<Rightarrow> 'w av_io \<Rightarrow> stream_classification \<Rightarrow> (kind \<times> 's factory) list \<Rightarrow> 'w \<Rightarrow> 's
    \<Rightarrow> (('w, 's) remux_state \<times> unit result) option" where
  "remux_loop im io sc factories w s = (case mkprocs sc (io_source io w) factories s of
      Inl e \<Rightarrow> Some (\<lparr>rx_io = w, rx_procs = s, rx_read_trial = 0, rx_remux_trial = 0\<rparr>, Inl e)
    | Inr (s, procs) \<Rightarrow>
        rounds (remux_round im io sc procs) \<lparr>rx_io = w, rx_procs = s, rx_read_trial = 0, rx_remux_trial = 0\<rparr>)"

section \<open>The loop ends\<close>

lemma rounds_end:
  fixes m :: "'st \<Rightarrow> nat"
  assumes "\<And>st st'. round st = (st', None) \<Longrightarrow> m st' < m st"
  shows "\<exists>st' r. rounds round st = Some (st', r)"
proof (induction st rule: measure_induct_rule [of m])
  case (less st)
  obtain st1 o1 where r: "round st = (st1, o1)" by (cases "round st")
  show ?case
  proof (cases o1)
    case None
    with r less [OF assms] show ?thesis by (simp add: rounds.simps [of round st])
  next
    case (Some a)
    with r show ?thesis by (simp add: rounds.simps [of round st])
  qed
qed

lemma rounds_stop: "round st = (st', Some r) \<Longrightarrow> rounds round st = Some (st', r)"
  by (simp add: rounds.simps [of round st])

lemma rounds_next: "round st = (st', None) \<Longrightarrow> rounds round st = rounds round st'"
  by (simp add: rounds.simps [of round st])

lemma rounds_invariant:
  assumes "rounds round st = Some y" and "\<And>st st' r. P st \<Longrightarrow> round st = (st', r) \<Longrightarrow> P st'" and "P st"
  shows "P (fst y)"
proof -
  have "(\<forall>st st' r. P st \<longrightarrow> round st = (st', r) \<longrightarrow> P st') \<longrightarrow> P st \<longrightarrow> P (fst y)"
  proof (rule rounds.raw_induct [OF _ assms(1)])
    fix rounds' :: "('a \<Rightarrow> 'a \<times> 'b option) \<Rightarrow> 'a \<Rightarrow> ('a \<times> 'b) option"
      and round :: "'a \<Rightarrow> 'a \<times> 'b option" and st y
    assume ih: "\<And>round st y. rounds' round st = Some y \<Longrightarrow>
        (\<forall>st st' r. P st \<longrightarrow> round st = (st', r) \<longrightarrow> P st') \<longrightarrow> P st \<longrightarrow> P (fst y)"
      and y: "(case round st of (st, None) \<Rightarrow> rounds' round st | (st, Some r) \<Rightarrow> Some (st, r)) = Some y"
    show "(\<forall>st st' r. P st \<longrightarrow> round st = (st', r) \<longrightarrow> P st') \<longrightarrow> P st \<longrightarrow> P (fst y)"
    proof (intro impI)
      assume k: "\<forall>st st' r. P st \<longrightarrow> round st = (st', r) \<longrightarrow> P st'" and "P st"
      obtain st1 o1 where r: "round st = (st1, o1)" by (cases "round st")
      with k \<open>P st\<close> have "P st1" by blast
      with y r ih [of round st1 y] k show "P (fst y)" by (cases o1) auto
    qed
  qed
  with assms(2,3) show ?thesis by blast
qed

text \<open>Reading and writing, without the processors.\<close>

lemma interleaved_write_left:
  "(\<And>pkt w. left (snd (io_write_frame io pkt w)) = left w) \<Longrightarrow>
   left (snd (interleaved_write_frame io pkt w)) = left w"
  by (simp add: interleaved_write_frame_def split: prod.split) (metis snd_conv)

lemma remux_packet_left:
  "(\<And>pkt w. left (snd (io_write_frame io pkt w)) = left w) \<Longrightarrow> left (snd (remux_packet io pkt w)) = left w"
  by (simp add: remux_packet_def interleaved_write_left split: sum.split)

lemma remux_write_left:
  assumes "\<And>pkt w. left (snd (io_write_frame io pkt w)) = left w" and "remux_write io pkt brk st = (st', r)"
  shows "left (rx_io st') = left (rx_io st) \<and> rx_read_trial st' = rx_read_trial st"
  using assms(2) remux_packet_left [where left = left and io = io and pkt = pkt and w = "rx_io st", OF assms(1)]
  by (auto simp: remux_write_def Let_def split: prod.splits sum.splits if_splits)

text \<open>What a source has left, and the trials left until the next packet.\<close>

lemma remux_round_decreases:
  assumes "\<And>w e pkt w'. io_read_frame io w = (e, pkt, w') \<Longrightarrow> left w' \<le> left w \<and> (e = 0 \<longrightarrow> left w' < left w)"
    and "\<And>pkt w. left (snd (io_write_frame io pkt w)) = left w"
    and "remux_round im io sc procs st = (st', None)"
  shows "left (rx_io st') * 11 + (10 - rx_read_trial st') < left (rx_io st) * (11 :: nat) + (10 - rx_read_trial st)"
proof -
  obtain e pkt w where rd: "io_read_frame io (rx_io st) = (e, pkt, w)" by (metis prod_cases3)
  show ?thesis
  proof (cases "e = 0")
    case True
    then have l: "left w < left (rx_io st)" using assms(1) rd by blast
    have "left (rx_io st') = left w \<and> rx_read_trial st' = 0"
      using assms(3) True rd
      by (auto simp: remux_round_def read_packet_def Let_def split: sum.splits prod.splits
          dest!: remux_write_left [where left = left, OF assms(2)])
    with l show ?thesis by simp
  next
    case False
    with assms(3) rd have "rx_io st' = w \<and> rx_read_trial st' = rx_read_trial st + 1 \<and> rx_read_trial st < 10"
      by (auto simp: remux_round_def read_packet_def Let_def retries_def ff_runtime_error_def MAX_RETRY_def split: if_splits)
    moreover have "left w \<le> left (rx_io st)" using assms(1) rd by blast
    ultimately show ?thesis by (smt (verit) add_mono_thms_linordered_field(4) diff_less_mono2 lessI mult_le_mono1 Suc_eq_plus1)
  qed
qed

lemma remux_loop_returns:
  fixes left :: "'w \<Rightarrow> nat"
  assumes "\<And>w e pkt w'. io_read_frame io w = (e, pkt, w') \<Longrightarrow> left w' \<le> left w \<and> (e = 0 \<longrightarrow> left w' < left w)"
    and "\<And>pkt w. left (snd (io_write_frame io pkt w)) = left w"
  shows "\<exists>st r. remux_loop im io sc factories w s = Some (st, r)"
proof (cases "mkprocs sc (io_source io w) factories s")
  case (Inr a)
  have "\<exists>st' r. rounds (remux_round im io sc procs) st = Some (st', r)" for procs :: "(kind \<times> 's processor option) list" and st
    by (rule rounds_end [where m = "\<lambda>st. left (rx_io st) * 11 + (10 - rx_read_trial st)"])
      (rule remux_round_decreases [OF assms])
  with Inr show ?thesis by (cases a) (simp add: remux_loop_def)
qed (simp add: remux_loop_def)

text \<open>
  C31: On a source that has only finitely many packets left the loop ends, whatever the
  processors, the failures and the sink do.
\<close>

theorem remux_loop_ends:
  fixes left :: "'w \<Rightarrow> nat"
  assumes "\<And>w e pkt w'. io_read_frame io w = (e, pkt, w') \<Longrightarrow> left w' \<le> left w \<and> (e = 0 \<longrightarrow> left w' < left w)"
    and "\<And>pkt w. left (snd (io_write_frame io pkt w)) = left w"
  shows "\<exists>st r. remux_loop im io sc factories w s = Some (st, r)"
  using assms by (rule remux_loop_returns)

text \<open>A source and a sink to evaluate on: packets from a list, written packets to another one.\<close>

record list_io =
  li_source :: "(int \<times> av_packet) list"
  li_streams :: "av_stream list"
  li_sinks :: "av_stream list"
  li_written :: "av_packet list"

definition no_packet :: av_packet where
  "no_packet = \<lparr>pkt_stream_index = 0, pkt_pts = AV_NOPTS_VALUE, pkt_dts = AV_NOPTS_VALUE, pkt_pos = - 1, pkt_data = []\<rparr>"

definition list_io :: "list_io av_io" where
  "list_io = \<lparr>io_read_frame = (\<lambda>w. case li_source w of
       [] \<Rightarrow> (AVERROR_EOF, no_packet, w)
     | (e, pkt) # rest \<Rightarrow> (e, pkt, w\<lparr>li_source := rest\<rparr>)),
     io_write_frame = (\<lambda>pkt w. (0, w\<lparr>li_written := li_written w @ [pkt],
       li_sinks := (li_sinks w)[pkt_stream_index pkt := (li_sinks w ! pkt_stream_index pkt)\<lparr>st_cur_dts := pkt_dts pkt\<rparr>]\<rparr>)),
     io_source = li_streams, io_sink = li_sinks, io_ts_nonstrict = False,
     io_rescale_ts = (\<lambda>pkt (n, d) (n', d'). pkt\<lparr>pkt_pts := pkt_pts pkt * (n * d') div (d * n'),
       pkt_dts := pkt_dts pkt * (n * d') div (d * n')\<rparr>),
     io_strerror = (\<lambda>e. ''error'')\<rparr>"

lemma list_io_left:
  "io_read_frame list_io w = (e, pkt, w') \<Longrightarrow>
     length (li_source w') \<le> length (li_source w) \<and> (e = 0 \<longrightarrow> length (li_source w') < length (li_source w))"
  "length (li_source (snd (io_write_frame list_io pkt w))) = length (li_source w)"
  by (auto simp: list_io_def AVERROR_EOF_def split: list.splits)

definition one_packet_io :: list_io where
  "one_packet_io = \<lparr>li_source = [(0, \<lparr>pkt_stream_index = 0, pkt_pts = 5, pkt_dts = 3, pkt_pos = 0, pkt_data = []\<rparr>)],
     li_streams = [\<lparr>st_codec_id = Codec_Other, st_codec_type = Media_Audio, st_time_base = (1, 1), st_cur_dts = 0\<rparr>],
     li_sinks = [\<lparr>st_codec_id = Codec_Other, st_codec_type = Media_Audio, st_time_base = (1, 1), st_cur_dts = 0\<rparr>],
     li_written = []\<rparr>"

theorem remux_loop_ends_witness:
  "\<exists>st r. remux_loop sample_impl list_io no_classification [(Sei_Kind, null_processor)] one_packet_io () = Some (st, r)"
  using remux_loop_ends [of list_io "\<lambda>w. length (li_source w)", OF list_io_left] .

section \<open>Failing reads\<close>

fun failing_reads :: "'w av_io \<Rightarrow> nat \<Rightarrow> 'w \<Rightarrow> 'w option" where
  "failing_reads io 0 w = Some w"
| "failing_reads io (Suc n) w = (case io_read_frame io w of
     (e, pkt, w) \<Rightarrow> if e < 0 \<and> e \<noteq> AVERROR_EOF then failing_reads io n w else None)"

lemma rounds_failing:
  "failing_reads io n (rx_io st) = Some w \<Longrightarrow> rx_read_trial st + n \<le> 10 \<Longrightarrow>
   rounds (remux_round im io sc procs) st =
     rounds (remux_round im io sc procs) (st\<lparr>rx_io := w, rx_read_trial := rx_read_trial st + n\<rparr>)"
proof (induction n arbitrary: st)
  case (Suc n)
  obtain e pkt w1 where rd: "io_read_frame io (rx_io st) = (e, pkt, w1)" by (metis prod_cases3)
  with Suc.prems have f: "e < 0" "e \<noteq> AVERROR_EOF" "failing_reads io n w1 = Some w" by (auto split: if_splits)
  let ?st = "st\<lparr>rx_io := w1, rx_read_trial := rx_read_trial st + 1\<rparr>"
  have "remux_round im io sc procs st = (?st, None)"
    using rd f(1,2) Suc.prems(2)
    by (simp add: remux_round_def read_packet_def retries_def ff_runtime_error_def MAX_RETRY_def)
  then have "rounds (remux_round im io sc procs) st = rounds (remux_round im io sc procs) ?st"
    by (rule rounds_next)
  also have "\<dots> = rounds (remux_round im io sc procs) (?st\<lparr>rx_io := w, rx_read_trial := rx_read_trial ?st + n\<rparr>)"
    by (rule Suc.IH) (use f(3) Suc.prems(2) in simp_all)
  finally show ?case by simp
qed (metis (no_types) add_0_right failing_reads.simps(1) option.inject remux_state.surjective
      remux_state.update_convs(1,3) remux_state.simps(1,3))

text \<open>
  C30: Up to ten failing reads in a row are tolerated; the end of the stream after them ends the
  loop normally, and the eleventh failure is thrown.
\<close>

theorem ten_failing_reads_tolerated:
  assumes "failing_reads io n w = Some w'" and "n \<le> 10" and "io_read_frame io w' = (e, pkt, w'')"
    and "mkprocs sc (io_source io w) factories s = Inr (s', procs)"
  shows "(e = AVERROR_EOF \<longrightarrow> remux_loop im io sc factories w s =
      Some (\<lparr>rx_io = w'', rx_procs = s', rx_read_trial = 0, rx_remux_trial = 0\<rparr>, Inr ())) \<and>
    (n = 10 \<and> e < 0 \<and> e \<noteq> AVERROR_EOF \<longrightarrow> remux_loop im io sc factories w s =
      Some (\<lparr>rx_io = w'', rx_procs = s', rx_read_trial = 10, rx_remux_trial = 0\<rparr>,
        Inl (ff_runtime_error (io_strerror io) ''failed reading packet'' e)))"
proof -
  let ?st = "\<lparr>rx_io = w, rx_procs = s', rx_read_trial = 0, rx_remux_trial = 0\<rparr>"
  have "remux_loop im io sc factories w s = rounds (remux_round im io sc procs) ?st"
    by (simp add: remux_loop_def assms(4))
  also have "\<dots> = rounds (remux_round im io sc procs) (?st\<lparr>rx_io := w', rx_read_trial := n\<rparr>)"
    using rounds_failing [of io n ?st w' im sc procs] assms(1,2) by simp
  finally have l: "remux_loop im io sc factories w s = rounds (remux_round im io sc procs) (?st\<lparr>rx_io := w', rx_read_trial := n\<rparr>)" .
  have "remux_round im io sc procs (?st\<lparr>rx_io := w', rx_read_trial := n\<rparr>)
      = (\<lparr>rx_io = w'', rx_procs = s', rx_read_trial = 0, rx_remux_trial = 0\<rparr>, Some (Inr ()))" if "e = AVERROR_EOF"
    using that by (simp add: remux_round_def read_packet_def assms(3)) (simp add: AVERROR_EOF_def)
  moreover have "remux_round im io sc procs (?st\<lparr>rx_io := w', rx_read_trial := n\<rparr>)
      = (\<lparr>rx_io = w'', rx_procs = s', rx_read_trial = 10, rx_remux_trial = 0\<rparr>,
         Some (Inl (ff_runtime_error (io_strerror io) ''failed reading packet'' e)))"
    if "n = 10" "e < 0" "e \<noteq> AVERROR_EOF"
    using that by (simp add: remux_round_def read_packet_def assms(3) retries_def ff_runtime_error_def MAX_RETRY_def)
  ultimately show ?thesis unfolding l by (blast intro: rounds_stop)
qed

theorem ten_failing_reads_tolerated_witness:
  "\<exists>st. remux_loop sample_impl list_io no_classification []
     \<lparr>li_source = replicate 11 (- 5, no_packet), li_streams = [], li_sinks = [], li_written = []\<rparr> () =
     Some (st, Inl (Runtime_Error ''failed reading packet: error''))"
proof -
  let ?w = "\<lambda>n. \<lparr>li_source = replicate n (- 5, no_packet), li_streams = [], li_sinks = [], li_written = []\<rparr>"
  have r: "io_read_frame list_io (?w (Suc n)) = (- 5, no_packet, ?w n)" for n by (simp add: list_io_def)
  then have f: "failing_reads list_io k (?w (k + n)) = Some (?w n)" for k n
    by (induction k) (simp_all add: AVERROR_EOF_def del: replicate.simps)
  from ten_failing_reads_tolerated [OF f [of 10 1, simplified] _ r [of 0, simplified], of no_classification "[]" "()" "()" "[]" sample_impl]
  show ?thesis by (simp add: AVERROR_EOF_def ff_runtime_error_def numeral_eq_Suc) (simp add: list_io_def)
qed

section \<open>What reaches the processors and the sink\<close>

definition packet_in_order :: "bool \<Rightarrow> av_stream \<Rightarrow> av_packet \<Rightarrow> bool" where
  "packet_in_order nonstrict st pkt \<longleftrightarrow> \<not> dts_not_increasing nonstrict st pkt \<and>
     (pkt_dts pkt = AV_NOPTS_VALUE \<or> pkt_pts pkt = AV_NOPTS_VALUE \<or> pkt_dts pkt \<le> pkt_pts pkt)"

lemma check_packet_iff:
  "check_packet io w pkt = Inr () \<longleftrightarrow>
     (\<exists>st. get_stream (pkt_stream_index pkt) (io_sink io w) = Inr st \<and> packet_in_order (io_ts_nonstrict io) st pkt)"
  by (auto simp: check_packet_def bind_res_Inr_iff packet_in_order_def split: if_splits)

text \<open>Processors that change nothing but the data of a packet.\<close>

definition data_processor :: "'s processor \<Rightarrow> bool" where
  "data_processor p \<longleftrightarrow> (\<forall>pkt s s' pkt' r. p pkt s = (s', pkt', r) \<longrightarrow> pkt' = pkt\<lparr>pkt_data := pkt_data pkt'\<rparr>)"

lemma data_processorD: "data_processor p \<Longrightarrow> p pkt s = (s', pkt', r) \<Longrightarrow> \<exists>d. pkt' = pkt\<lparr>pkt_data := d\<rparr>"
  unfolding data_processor_def by blast

lemma run_procs_data:
  assumes "\<And>k p. (k, Some p) \<in> set procs \<Longrightarrow> data_processor p"
  shows "run_procs im sc procs brk pkt s = (s', pkt', r) \<Longrightarrow> \<exists>d. pkt' = pkt\<lparr>pkt_data := d\<rparr>"
  using assms
proof (induction procs arbitrary: brk pkt s)
  case Nil
  then show ?case by (auto intro: exI [of _ "pkt_data pkt"])
next
  case (Cons kp procs)
  obtain k p where kp: "kp = (k, p)" by (cases kp)
  have rest: "\<exists>d. pkt' = pkt1\<lparr>pkt_data := d\<rparr>" if "run_procs im sc procs b pkt1 s1 = (s', pkt', r)" for b pkt1 s1
    by (rule Cons.IH [OF that]) (use Cons.prems(2) in auto)
  show ?case
  proof (cases "Some (pkt_stream_index pkt) = sc_index k sc")
    case False
    then show ?thesis using Cons.prems(1) rest by (simp add: kp)
  next
    case True
    show ?thesis
    proof (cases p)
      case None
      with True Cons.prems(1) show ?thesis by (auto simp: kp intro: exI [of _ "pkt_data pkt"])
    next
      case (Some f)
      obtain s1 pkt1 r1 where f: "f pkt s = (s1, pkt1, r1)" by (metis prod_cases3)
      have "data_processor f" by (rule Cons.prems(2) [of k]) (simp add: kp Some)
      then obtain d where d: "pkt1 = pkt\<lparr>pkt_data := d\<rparr>" using data_processorD [of f pkt s s1 pkt1 r1] f by blast
      then show ?thesis
      proof (cases r1)
        case (Inl e)
        with True Some f Cons.prems(1) have "pkt' = pkt1" by (simp add: kp)
        with d show ?thesis by blast
      next
        case (Inr b)
        with True Some f Cons.prems(1) have "run_procs im sc procs (brk \<or> b) pkt1 s1 = (s', pkt', r)" by (simp add: kp)
        from rest [OF this] obtain d' where "pkt' = pkt1\<lparr>pkt_data := d'\<rparr>" ..
        then have "pkt' = pkt\<lparr>pkt_data := d'\<rparr>" by (simp add: d)
        then show ?thesis ..
      qed
    qed
  qed
qed

lemma mkprocs_from:
  "mkprocs sc streams factories s = Inr (s', procs) \<Longrightarrow> (k, q) \<in> set procs \<Longrightarrow>
   (q = None \<longleftrightarrow> \<not> sc_has k sc) \<and> (\<forall>p. q = Some p \<longrightarrow> (\<exists>f tb t t'. (k, f) \<in> set factories \<and> f tb t = (t', p)))"
proof (induction factories arbitrary: s procs)
  case (Cons kf factories)
  obtain k0 f where kf: "kf = (k0, f)" by (cases kf)
  from Cons.prems(1) obtain s1 q1 rest where m: "mkproc sc streams k0 f s = Inr (s1, q1)"
    and r: "mkprocs sc streams factories s1 = Inr (s', rest)" "procs = (k0, q1) # rest"
    by (auto simp: kf bind_res_Inr_iff)
  show ?case
  proof (cases "(k, q) \<in> set rest")
    case True
    with Cons.IH [OF r(1)] show ?thesis by (fastforce simp: kf)
  next
    case False
    then have "k = k0" "q = q1" using Cons.prems(2) r(2) by auto
    show ?thesis
    proof (cases "sc_has k sc")
      case True
      with m \<open>k = k0\<close> have "bind_res (get_stream_of Time_Source_Kind sc streams) (\<lambda>st.
          (let (s, p) = f (st_time_base st) s in Inr (s, Some p))) = Inr (s1, q1)" by (simp add: mkproc_def)
      then obtain st :: av_stream where "(let (s, p) = f (st_time_base st) s in Inr (s, Some p) :: _ result) = Inr (s1, q1)" by (rule bind_resE)
      then obtain p where "f (st_time_base st) s = (s1, p)" "q1 = Some p" by (cases "f (st_time_base st) s") auto
      then have "\<exists>f' tb t t'. (k, f') \<in> set (kf # factories) \<and> f' tb t = (t', p)"
        unfolding kf \<open>k = k0\<close> by (meson list.set_intros(1))
      with True \<open>q1 = Some p\<close> \<open>q = q1\<close> show ?thesis by auto
    next
      case False
      with m \<open>k = k0\<close> \<open>q = q1\<close> show ?thesis by (simp add: mkproc_def)
    qed
  qed
qed simp

text \<open>
  Every kind that has a stream has a processor, so the loop never calls through a null pointer.
\<close>

theorem no_missing_processor:
  assumes "mkprocs sc streams factories s = Inr (s', procs)" and "(k, q) \<in> set procs"
    and "Some (pkt_stream_index pkt) = sc_index k sc"
  shows "\<exists>p. q = Some p"
  using mkprocs_from [OF assms(1,2)] assms(3) by (cases q) (auto simp: sc_has_def)

theorem no_missing_processor_witness:
  "\<exists>p :: unit processor. snd (null_processor (1, 90000) ()) = p \<and>
     mkprocs \<lparr>sc_time_source = Some 1, sc_sei = None, sc_scte = None\<rparr> sample_streams [(Time_Source_Kind, null_processor)] ()
       = Inr ((), [(Time_Source_Kind, Some p)])"
proof -
  let ?sc = "\<lparr>sc_time_source = Some 1, sc_sei = None, sc_scte = None\<rparr>"
  have m: "mkprocs ?sc sample_streams [(Time_Source_Kind, null_processor)] () =
      Inr ((), [(Time_Source_Kind, Some (snd (null_processor (1, 90000) ())))])"
    by (simp add: mkproc_def sc_has_def sc_index_def get_stream_of_def get_stream_def sample_streams_def null_processor_def)
  have "\<exists>p. Some (snd (null_processor (1, 90000) ())) = Some p"
    by (rule no_missing_processor [OF m, where k = Time_Source_Kind and pkt = "no_packet\<lparr>pkt_stream_index := 1\<rparr>"])
      (simp_all add: sc_index_def)
  with m show ?thesis by simp
qed

text \<open>
  Whatever holds of the sink as long as it is handed packets that passed the checks holds of it
  when the loop ends.
\<close>

text \<open>
  C29: Whatever holds of the sink as long as it is only handed packets whose decoding time
  passed the comparison with the sink's stream and whose presentation time is not before it
  still holds when the loop ends, for processors that change nothing but data.
\<close>

theorem sink_gets_ordered_packets:
  assumes read_keeps: "\<And>w e pkt w'. P w \<Longrightarrow> io_read_frame io w = (e, pkt, w') \<Longrightarrow> P w'"
    and write_keeps: "\<And>w pkt d i out. P w \<Longrightarrow>
      get_stream (pkt_stream_index pkt) (io_source io w) = Inr i \<Longrightarrow>
      get_stream (pkt_stream_index pkt) (io_sink io w) = Inr out \<Longrightarrow>
      packet_in_order (io_ts_nonstrict io) out pkt \<Longrightarrow>
      P (snd (io_write_frame io
        ((io_rescale_ts io (pkt\<lparr>pkt_data := d\<rparr>) (st_time_base i) (st_time_base out))\<lparr>pkt_pos := - 1\<rparr>) w))"
    and data: "\<And>k f tb t t' p. (k, f) \<in> set factories \<Longrightarrow> f tb t = (t', p) \<Longrightarrow> data_processor p"
    and run: "remux_loop im io sc factories w s = Some (st, r)" and start: "P w"
  shows "P (rx_io st)"
proof (cases "mkprocs sc (io_source io w) factories s")
  case (Inl e)
  with run start show ?thesis by (auto simp: remux_loop_def)
next
  case (Inr a)
  obtain s' procs where a: "a = (s', procs)" by (cases a)
  have dp: "data_processor p" if "(k, Some p) \<in> set procs" for k p
    using mkprocs_from [OF Inr [unfolded a] that] data by blast
  have "P (rx_io st2)" if p: "P (rx_io st1)" and rd: "remux_round im io sc procs st1 = (st2, o2)" for st1 st2 o2
  proof -
    obtain e pkt w1 where f: "io_read_frame io (rx_io st1) = (e, pkt, w1)" by (metis prod_cases3)
    then have p1: "P w1" using p read_keeps by blast
    obtain s2 pkt2 b where rp: "run_procs im sc procs False pkt (rx_procs st1) = (s2, pkt2, b)" by (metis prod_cases3)
    then obtain d where d: "pkt2 = pkt\<lparr>pkt_data := d\<rparr>" using run_procs_data [of procs] dp by blast
    have "P (snd (remux_packet io pkt2 w1))" if "check_packet io w1 pkt = Inr ()"
    proof (cases "get_stream (pkt_stream_index pkt) (io_source io w1)")
      case (Inr i)
      from that obtain out where out: "get_stream (pkt_stream_index pkt) (io_sink io w1) = Inr out"
        "packet_in_order (io_ts_nonstrict io) out pkt" by (auto simp: check_packet_iff)
      from write_keeps [OF p1 Inr out, of d] Inr out(1) show ?thesis
        by (simp add: remux_packet_def d interleaved_write_frame_def Let_def split_def)
    qed (simp add: remux_packet_def d p1)
    then have wr: "P (rx_io stb)"
      if "remux_write io pkt2 brk sta = (stb, ob)" "rx_io sta = w1" "check_packet io w1 pkt = Inr ()" for brk sta stb ob
      using that by (auto simp: remux_write_def Let_def split: prod.splits sum.splits if_splits)
    show ?thesis
      using rd p1 f rp
      by (auto simp: remux_round_def read_packet_def Let_def split: if_splits sum.splits intro: wr)
  qed
  then show ?thesis
    using rounds_invariant [where P = "\<lambda>st. P (rx_io st)"] run start Inr a by (fastforce simp: remux_loop_def)
qed

definition same_time_base :: "list_io \<Rightarrow> bool" where
  "same_time_base w \<longleftrightarrow> list_all (\<lambda>st. st_time_base st = (1, 1)) (li_streams w @ li_sinks w) \<and>
     list_all (\<lambda>pkt. pkt_dts pkt = AV_NOPTS_VALUE \<or> pkt_pts pkt = AV_NOPTS_VALUE \<or> pkt_dts pkt \<le> pkt_pts pkt) (li_written w)"

theorem sink_gets_ordered_packets_witness:
  "\<exists>st r. remux_loop sample_impl list_io no_classification [(Sei_Kind, null_processor)] one_packet_io () = Some (st, r) \<and>
     same_time_base (rx_io st)"
proof -
  have "\<exists>st r. remux_loop sample_impl list_io no_classification [(Sei_Kind, null_processor)] one_packet_io () = Some (st, r)"
    using remux_loop_returns [of list_io "\<lambda>w. length (li_source w)", OF list_io_left] .
  then obtain st r where run: "remux_loop sample_impl list_io no_classification [(Sei_Kind, null_processor)] one_packet_io ()
      = Some (st, r)" by blast
  have "same_time_base (rx_io st)"
  proof (rule sink_gets_ordered_packets [OF _ _ _ run, where P = same_time_base])
    fix w :: list_io and pkt d i out
    assume w: "same_time_base w" and i: "get_stream (pkt_stream_index pkt) (io_source list_io w) = Inr i"
      and out: "get_stream (pkt_stream_index pkt) (io_sink list_io w) = Inr out"
      and ok: "packet_in_order (io_ts_nonstrict list_io) out pkt"
    have tb: "st_time_base i = (1, 1)" "st_time_base out = (1, 1)"
      using w i out by (auto simp: same_time_base_def list_io_def get_stream_def list_all_iff nth_mem split: if_splits)
    then have "st_time_base (li_sinks w ! pkt_stream_index pkt) = (1, 1)"
      using out by (auto simp: list_io_def get_stream_def split: if_splits)
    with tb w ok show "same_time_base (snd (io_write_frame list_io
        ((io_rescale_ts list_io (pkt\<lparr>pkt_data := d\<rparr>) (st_time_base i) (st_time_base out))\<lparr>pkt_pos := - 1\<rparr>) w))"
      by (auto simp: same_time_base_def list_io_def packet_in_order_def list_all_iff dest!: set_update_subset_insert [THEN subsetD])
  next
    show "data_processor p" if "(k, f) \<in> set [(Sei_Kind, null_processor)]" "f tb t = (t', p)"
      for k tb t t' p and f :: "unit factory"
      using that by (auto simp: data_processor_def null_processor_def)
  qed (auto simp: same_time_base_def list_io_def one_packet_io_def split: list.splits prod.splits)
  with run show ?thesis by blast
qed

section \<open>A sink with a finer time base\<close>

text \<open>
  The last timestamp of the sink's stream is in the time base of the sink, the one of the packet it
  is compared with still in that of the source.
\<close>

definition ms_video :: av_stream where
  "ms_video = \<lparr>st_codec_id = Codec_H264, st_codec_type = Media_Video, st_time_base = (1, 1000), st_cur_dts = AV_NOPTS_VALUE\<rparr>"

definition ms_packet :: "ts \<Rightarrow> int \<times> av_packet" where
  "ms_packet t = (0, \<lparr>pkt_stream_index = 0, pkt_pts = t, pkt_dts = t, pkt_pos = 0, pkt_data = []\<rparr>)"

definition ms_to_ticks :: list_io where
  "ms_to_ticks = \<lparr>li_source = map ms_packet [33, 66, 99], li_streams = [ms_video],
     li_sinks = [ms_video\<lparr>st_time_base := (1, 90000)\<rparr>], li_written = []\<rparr>"

text \<open>
  A stream with ascending timestamps in milliseconds is rejected at its second packet when the
  sink counts in ticks of 90 kHz: the comparison mixes the two time bases.
\<close>

theorem monotone_stream_rejected:
  "case remux_loop sample_impl list_io no_classification [(Sei_Kind, null_processor)] ms_to_ticks () of
     Some (st, Inl (Runtime_Error m)) \<Rightarrow> map pkt_dts (li_written (rx_io st)) = [2970] \<and>
       m = NON_MONO_DTS 0 2970 66
   | _ \<Rightarrow> False"
proof -
  let ?round = "remux_round sample_impl list_io no_classification [(Sei_Kind, None :: unit processor option)]"
  let ?st = "\<lambda>xs c ws. \<lparr>rx_io = \<lparr>li_source = xs, li_streams = [ms_video],
     li_sinks = [ms_video\<lparr>st_time_base := (1, 90000), st_cur_dts := c\<rparr>], li_written = ws\<rparr>,
     rx_procs = (), rx_read_trial = 0, rx_remux_trial = 0\<rparr>"
  let ?pkt = "\<lparr>pkt_stream_index = 0, pkt_pts = 2970, pkt_dts = 2970, pkt_pos = - 1, pkt_data = []\<rparr>"
  note defs = remux_round_def read_packet_def list_io_def ms_packet_def check_packet_def get_stream_def ms_video_def
    dts_not_increasing_def AV_NOPTS_VALUE_def sc_index_def no_classification_def remux_write_def remux_packet_def
    interleaved_write_frame_def
  have "?round (?st (map ms_packet [33, 66, 99]) AV_NOPTS_VALUE []) = (?st (map ms_packet [66, 99]) 2970 [?pkt], None)"
    by (simp add: defs)
  moreover have "?round (?st (map ms_packet [66, 99]) 2970 [?pkt]) = (?st [ms_packet 99] 2970 [?pkt],
      Some (Inl (Runtime_Error (NON_MONO_DTS 0 2970 66))))"
    by (simp add: defs)
  moreover have "remux_loop sample_impl list_io no_classification [(Sei_Kind, null_processor)] ms_to_ticks () =
      rounds ?round (?st (map ms_packet [33, 66, 99]) AV_NOPTS_VALUE [])"
    by (simp add: remux_loop_def mkproc_def sc_has_def sc_index_def no_classification_def ms_to_ticks_def ms_video_def)
  ultimately show ?thesis by (simp add: rounds_next rounds_stop)
qed

end
