(* ===== verification/Packet_Refs.thy ===== *)
theory Packet_Refs
  imports Remux
begin

text \<open>
  Ownership of packet data: the wrappers of \<^verbatim>\<open>src/ffmpeg.h\<close> and
  \<^verbatim>\<open>.cpp\<close> around FFmpeg's reference counted packets, and what reading NAL units
  (\<^verbatim>\<open>binary_parser.h\<close>, \<^verbatim>\<open>h264/av_packet_nalu.h\<close>) does to the counts.
  FFmpeg is the record \<open>packet_api\<close>: a packet is a value of type \<open>'p\<close>, its memory is the
  world \<open>'w\<close>.
\<close>

record ('p, 'w) packet_api =
  pa_blank :: 'p
  pa_alloc :: "'w \<Rightarrow> 'p option \<times> 'w"
  pa_ref :: "'p \<Rightarrow> 'w \<Rightarrow> int \<times> 'p \<times> 'w"
  pa_unref :: "'p \<Rightarrow> 'w \<Rightarrow> 'p \<times> 'w"
  pa_grow :: "'p \<Rightarrow> int \<Rightarrow> 'w \<Rightarrow> int \<times> 'p \<times> 'w"
  pa_shrink :: "'p \<Rightarrow> int \<Rightarrow> 'w \<Rightarrow> 'p \<times> 'w"
  pa_strerror :: "int \<Rightarrow> string"

section \<open>Operations\<close>

definition packet_alloc :: "('p, 'w) packet_api \<Rightarrow> 'w \<Rightarrow> 'p result \<times> 'w" where
  "packet_alloc api w = (case pa_alloc api w of
      (None, w) \<Rightarrow> (Inl (Runtime_Error ''Could not allocate memory for AVPacket''), w)
    | (Some p, w) \<Rightarrow> (Inr p, w))"

definition grow_packet :: "('p, 'w) packet_api \<Rightarrow> 'p \<Rightarrow> int \<Rightarrow> 'w \<Rightarrow> unit result \<times> 'p \<times> 'w" where
  "grow_packet api p grow_by w = (let (e, p, w) = pa_grow api p grow_by w in
     (if e \<noteq> 0 then Inl (ff_runtime_error (pa_strerror api) ''Could not grow AVPacket'' e) else Inr (), p, w))"

definition shrink_packet :: "('p, 'w) packet_api \<Rightarrow> 'p \<Rightarrow> int \<Rightarrow> 'w \<Rightarrow> 'p \<times> 'w" where
  "shrink_packet api p new_size w = pa_shrink api p new_size w"

definition unref_guard :: "('p, 'w) packet_api \<Rightarrow> 'p \<Rightarrow> 'w \<Rightarrow> 'p \<times> 'w" where
  "unref_guard api p w = pa_unref api p w"

definition packet_ref_default :: "('p, 'w) packet_api \<Rightarrow> 'p" where
  "packet_ref_default api = pa_blank api"

definition ref_failed :: "('p, 'w) packet_api \<Rightarrow> int \<Rightarrow> cpp_error" where
  "ref_failed api e = ff_runtime_error (pa_strerror api) ''Could not set up new AVPacket reference'' e"

definition packet_ref_from :: "('p, 'w) packet_api \<Rightarrow> 'p \<Rightarrow> 'w \<Rightarrow> 'p result \<times> 'w" where
  "packet_ref_from api p w = (let (e, q, w) = pa_ref api p w in
     (if e < 0 then Inl (ref_failed api e) else Inr q, w))"

definition packet_ref_copy :: "('p, 'w) packet_api \<Rightarrow> 'p \<Rightarrow> 'w \<Rightarrow> 'p result \<times> 'w" where
  "packet_ref_copy api other w = (let (e, q, w) = pa_ref api other w in
     (if e < 0 then Inl (Runtime_Error ''Could not set up new AVPacket reference'') else Inr q, w))"

text \<open>
  Assignments; \<open>same\<close> says that an object is assigned to itself.  The packet of the target comes
  first, then the packet of the source.
\<close>

definition packet_ref_copy_assign ::
  "('p, 'w) packet_api \<Rightarrow> bool \<Rightarrow> 'p \<Rightarrow> 'p \<Rightarrow> 'w \<Rightarrow> unit result \<times> 'p \<times> 'w" where
  "packet_ref_copy_assign api same self rhs w =
     (if same then (Inr (), self, w)
      else let (self, w) = pa_unref api self w; (e, self, w) = pa_ref api rhs w in
     (if e < 0 then Inl (ref_failed api e) else Inr (), self, w))"

text \<open>The old packet is a plain struct: an exception on the way loses it without releasing it.\<close>

definition packet_ref_move_assign ::
  "('p, 'w) packet_api \<Rightarrow> bool \<Rightarrow> 'p \<Rightarrow> 'p \<Rightarrow> 'w \<Rightarrow> unit result \<times> 'p \<times> 'p \<times> 'w" where
  "packet_ref_move_assign api same self rhs w =
     (if same then (Inr (), self, rhs, w)
      else let old = self; (e, self, w) = pa_ref api rhs w in
     if e < 0 then (Inl (ref_failed api e), self, rhs, w)
     else (let (old, w) = pa_unref api old w; (rhs, w) = pa_unref api rhs w in (Inr (), self, rhs, w)))"

definition packet_ref_destroy :: "('p, 'w) packet_api \<Rightarrow> 'p \<Rightarrow> 'w \<Rightarrow> 'w" where
  "packet_ref_destroy api p w = snd (pa_unref api p w)"

text \<open>
  The defaulted move constructor copies the struct, and the source still has it.  It is declared
  with another exception specification than the implicit one: up to C++17 it is then deleted
  and ignored, so that the copy constructor is taken; since P1286 (GCC 10) it counts.  \<open>live_moves\<close>
  says which of the two the compiler does.
\<close>

definition packet_ref_move :: "bool \<Rightarrow> ('p, 'w) packet_api \<Rightarrow> 'p \<Rightarrow> 'w \<Rightarrow> 'p result \<times> 'w" where
  "packet_ref_move live_moves api other w = (if live_moves then (Inr other, w) else packet_ref_copy api other w)"

text \<open>
  \<^verbatim>\<open>parser >> nalu\<close> as far as the packets are concerned: \<^verbatim>\<open>Pack\<close> makes a
  NALU with a new reference, the optional result is made from it by a move, the temporary goes, the
  NALU of the loop is assigned from the optional, the optional goes.
\<close>

definition read_nalu_ref :: "bool \<Rightarrow> ('p, 'w) packet_api \<Rightarrow> 'p \<Rightarrow> 'p \<times> 'w \<Rightarrow> unit result \<times> 'p \<times> 'w" where
  "read_nalu_ref live_moves api ctx s = (let (nalu, w) = s in
     case packet_ref_from api ctx w of
       (Inl e, w) \<Rightarrow> (Inl e, nalu, w)
     | (Inr tmp, w) \<Rightarrow> (case packet_ref_move live_moves api tmp w of
           (Inl e, w) \<Rightarrow> (Inl e, nalu, packet_ref_destroy api tmp w)
         | (Inr opt, w) \<Rightarrow>
             (let w = packet_ref_destroy api tmp w; (r, nalu, opt, w) = packet_ref_move_assign api False nalu opt w
              in (r, nalu, packet_ref_destroy api opt w))))"

fun read_nalu_refs :: "bool \<Rightarrow> ('p, 'w) packet_api \<Rightarrow> 'p \<Rightarrow> nat \<Rightarrow> 'p \<times> 'w \<Rightarrow> unit result \<times> 'p \<times> 'w" where
  "read_nalu_refs live_moves api ctx 0 s = (Inr (), s)"
| "read_nalu_refs live_moves api ctx (Suc n) s = (case read_nalu_ref live_moves api ctx s of
     (Inl e, s) \<Rightarrow> (Inl e, s)
   | (Inr _, s) \<Rightarrow> read_nalu_refs live_moves api ctx n s)"

text \<open>The loop with its NALU: made before the first read, destroyed at the end.\<close>

definition nalu_loop_refs :: "bool \<Rightarrow> ('p, 'w) packet_api \<Rightarrow> 'p \<Rightarrow> nat \<Rightarrow> 'w \<Rightarrow> unit result \<times> 'w" where
  "nalu_loop_refs live_moves api ctx n w =
     (let (r, nalu, w) = read_nalu_refs live_moves api ctx n (packet_ref_default api, w)
      in (r, packet_ref_destroy api nalu w))"

section \<open>What FFmpeg promises\<close>

text \<open>
  \<open>holds\<close> is the buffer of a packet and \<open>refs\<close> the count of a buffer.  A new reference to a packet
  with a buffer holds the same one, and to a packet without one a copy of its data; a reference that
  could not be made is blank; releasing blanks the packet.
\<close>

definition packet_api_ok :: "('p, 'w) packet_api \<Rightarrow> ('p \<Rightarrow> nat option) \<Rightarrow> ('w \<Rightarrow> nat \<Rightarrow> nat) \<Rightarrow> bool" where
  "packet_api_ok api holds refs \<longleftrightarrow> holds (pa_blank api) = None \<and>
     (\<forall>p w e q w'. pa_ref api p w = (e, q, w') \<longrightarrow>
        (if e < 0 then holds q = None \<and> refs w' = refs w
         else \<exists>b. holds q = Some b \<and> (holds p \<noteq> None \<longrightarrow> holds p = Some b) \<and> refs w' = (refs w)(b := refs w b + 1))) \<and>
     (\<forall>p w q w'. pa_unref api p w = (q, w') \<longrightarrow> holds q = None \<and>
        refs w' = (case holds p of None \<Rightarrow> refs w | Some b \<Rightarrow> (refs w)(b := refs w b - 1)))"

definition held :: "('p \<Rightarrow> nat option) \<Rightarrow> 'p \<Rightarrow> nat \<Rightarrow> nat" where
  "held holds p b = (if holds p = Some b then 1 else 0)"

lemma held_None [simp]: "holds p = None \<Longrightarrow> held holds p b = 0"
  by (simp add: held_def)

lemma api_ref:
  assumes "packet_api_ok api holds refs" and "pa_ref api p w = (e, q, w')"
  shows "e < 0 \<Longrightarrow> holds q = None \<and> refs w' = refs w"
    and "\<not> e < 0 \<Longrightarrow> holds p = Some b \<Longrightarrow> holds q = Some b"
    and "\<not> e < 0 \<Longrightarrow> refs w' x = refs w x + held holds q x"
  using assms unfolding packet_api_ok_def by (fastforce simp: held_def)+

lemma api_unref:
  assumes "packet_api_ok api holds refs" and "pa_unref api p w = (q, w')"
  shows "holds q = None" and "refs w' x = refs w x - held holds p x"
  using assms unfolding packet_api_ok_def by (fastforce simp: held_def split: option.splits)+

lemma api_destroy:
  "packet_api_ok api holds refs \<Longrightarrow> refs (packet_ref_destroy api p w) x = refs w x - held holds p x"
  using api_unref(2) [of api holds refs p w "fst (pa_unref api p w)" "snd (pa_unref api p w)"]
  by (simp add: packet_ref_destroy_def)

section \<open>Operations keep the counts right\<close>

text \<open>The change of a count, without subtraction: what an object held before and what it holds after.\<close>

lemma copy_refs:
  assumes "packet_api_ok api holds refs"
  shows "packet_ref_from api p w = (Inr q, w') \<Longrightarrow> refs w' x = refs w x + held holds q x"
    and "packet_ref_from api p w = (Inr q, w') \<Longrightarrow> holds p = Some b \<Longrightarrow> holds q = Some b"
    and "packet_ref_copy api p w = (Inr q, w') \<Longrightarrow> refs w' x = refs w x + held holds q x"
    and "packet_ref_copy api p w = (Inr q, w') \<Longrightarrow> holds p = Some b \<Longrightarrow> holds q = Some b"
  using api_ref(2,3) [OF assms]
  by (fastforce simp: packet_ref_from_def packet_ref_copy_def split: prod.splits if_splits)+

lemma copy_assign_refs:
  assumes "packet_api_ok api holds refs" and "packet_ref_copy_assign api same self rhs w = (r, self', w')"
    and "held holds self x \<le> refs w x"
  shows "refs w' x + held holds self x = refs w x + held holds self' x"
proof (cases same)
  case False
  obtain q w1 where u: "pa_unref api self w = (q, w1)" by fastforce
  obtain e p w2 where f: "pa_ref api rhs w1 = (e, p, w2)" by (metis prod_cases3)
  have "self' = p" "w' = w2" using assms(2) False by (simp_all add: packet_ref_copy_assign_def u f)
  then show ?thesis
    using api_unref(2) [OF assms(1) u, of x] api_ref(1,3) [OF assms(1) f] assms(3) by (cases "e < 0") auto
qed (use assms(2) in \<open>simp add: packet_ref_copy_assign_def\<close>)

lemma move_assign_refs:
  assumes "packet_api_ok api holds refs" and "packet_ref_move_assign api False self rhs w = (Inr (), self', rhs', w')"
    and "held holds self x + held holds rhs x \<le> refs w x"
  shows "refs w' x + held holds self x + held holds rhs x = refs w x + held holds self' x" and "holds rhs' = None"
    and "holds rhs = Some b \<Longrightarrow> holds self' = Some b"
proof -
  obtain e p w1 where f: "pa_ref api rhs w = (e, p, w1)" by (metis prod_cases3)
  obtain o1 w2 where u: "pa_unref api self w1 = (o1, w2)" by fastforce
  obtain o2 w3 where v: "pa_unref api rhs w2 = (o2, w3)" by fastforce
  have e: "\<not> e < 0" and s: "self' = p" "rhs' = o2" "w' = w3"
    using assms(2) by (auto simp: packet_ref_move_assign_def f u v split: if_splits)
  show "refs w' x + held holds self x + held holds rhs x = refs w x + held holds self' x"
    using api_ref(3) [OF assms(1) f e, of x] api_unref(2) [OF assms(1) u, of x] api_unref(2) [OF assms(1) v, of x] assms(3)
    by (simp add: s)
  show "holds rhs' = None" using api_unref(1) [OF assms(1) v] by (simp add: s)
  show "holds self' = Some b" if "holds rhs = Some b" using api_ref(2) [OF assms(1) f e that] by (simp add: s)
qed

section \<open>Reading NAL units\<close>

text \<open>One read: right when moves are copies, one too few when they are live.\<close>

lemma read_nalu_ref_refs:
  assumes "packet_api_ok api holds refs" and "holds ctx = Some b" and "holds nalu = None \<or> holds nalu = Some b"
    and "read_nalu_ref live api ctx (nalu, w) = (Inr (), nalu', w')" and "held holds nalu b < refs w b"
  shows "holds nalu' = Some b" and "refs w' b + held holds nalu b = refs w b + (if live then 0 else 1)"
proof -
  from assms(4) obtain tmp w1 where 1: "packet_ref_from api ctx w = (Inr tmp, w1)"
    by (auto simp: read_nalu_ref_def split: prod.splits sum.splits)
  with assms(4) obtain opt w2 where 2: "packet_ref_move live api tmp w1 = (Inr opt, w2)"
    by (auto simp: read_nalu_ref_def split: prod.splits sum.splits)
  let ?w3 = "packet_ref_destroy api tmp w2"
  obtain r n o4 w4 where 4: "packet_ref_move_assign api False nalu opt ?w3 = (r, n, o4, w4)" by (metis prod_cases4)
  have e: "r = Inr ()" "nalu' = n" "w' = packet_ref_destroy api o4 w4"
    using assms(4) 1 2 4 by (auto simp: read_nalu_ref_def)
  note a = assms(1)
  have tmp: "holds tmp = Some b" using copy_refs(2) [OF a 1 assms(2)] .
  have opt: "holds opt = Some b" using 2 tmp copy_refs(4) [OF a _ tmp] by (auto simp: packet_ref_move_def split: if_splits)
  have c1: "refs w1 b = refs w b + 1" using copy_refs(1) [OF a 1, of b] tmp by (simp add: held_def)
  have c2: "refs w2 b = refs w1 b + (if live then 0 else 1)"
    using 2 opt copy_refs(3) [OF a, of tmp w1 opt w2 b] by (auto simp: packet_ref_move_def held_def split: if_splits)
  have c3: "refs ?w3 b = refs w b + (if live then 0 else 1)"
    using api_destroy [OF a, of tmp w2 b] tmp c1 c2 by (simp add: held_def)
  have h: "held holds nalu b + held holds opt b \<le> refs ?w3 b" using c3 opt assms(5) by (simp add: held_def)
  note m = move_assign_refs [OF a 4 [unfolded e(1)] h]
  show "holds nalu' = Some b" using m(3) [OF opt] e(2) by simp
  then show "refs w' b + held holds nalu b = refs w b + (if live then 0 else 1)"
    using m(1,2) c3 opt api_destroy [OF a, of o4 w4 b] e by (simp add: held_def)
qed

lemma read_nalu_refs_refs:
  assumes "packet_api_ok api holds refs" and "holds ctx = Some b"
  shows "holds nalu = Some b \<Longrightarrow> read_nalu_refs live api ctx n (nalu, w) = (Inr (), nalu', w') \<Longrightarrow> n + 1 < refs w b \<Longrightarrow>
    holds nalu' = Some b \<and> refs w' b + (if live then n else 0) = refs w b"
proof (induction n arbitrary: nalu w)
  case (Suc n)
  obtain r nalu1 w1 where 1: "read_nalu_ref live api ctx (nalu, w) = (r, nalu1, w1)" by (metis prod_cases3)
  with Suc.prems(2) have r: "r = Inr ()" and n: "read_nalu_refs live api ctx n (nalu1, w1) = (Inr (), nalu', w')"
    by (auto split: sum.splits)
  have h: "held holds nalu b < refs w b" using Suc.prems by (simp add: held_def)
  note o1 = read_nalu_ref_refs [OF assms _ 1 [unfolded r] h]
  have "holds nalu1 = Some b" and c: "refs w1 b + 1 = refs w b + (if live then 0 else 1)"
    using o1 Suc.prems(1) by (simp_all add: held_def)
  with Suc.IH [OF _ n] Suc.prems(3) show ?case by (auto split: if_splits)
qed simp


text \<open>
  Copying and assigning packets changes the count of a buffer by what the objects involved hold
  of it before and after.
\<close>

theorem packet_copies_are_counted:
  assumes "packet_api_ok api holds refs"
  shows "(packet_ref_from api p w = (Inr q, w1) \<longrightarrow> refs w1 x = refs w x + held holds q x) \<and>
    (packet_ref_copy api p w = (Inr q, w1) \<longrightarrow> refs w1 x = refs w x + held holds q x) \<and>
    (packet_ref_copy_assign api same self p w = (r, self1, w2) \<and> held holds self x \<le> refs w x \<longrightarrow>
       refs w2 x + held holds self x = refs w x + held holds self1 x) \<and>
    (packet_ref_move_assign api same self p w = (Inr (), self2, p2, w3) \<and> held holds self x + held holds p x \<le> refs w x \<longrightarrow>
       refs w3 x + held holds self x + held holds p x = refs w x + held holds self2 x + held holds p2 x)"
proof (intro conjI)
  show "packet_ref_move_assign api same self p w = (Inr (), self2, p2, w3) \<and> held holds self x + held holds p x \<le> refs w x \<longrightarrow>
       refs w3 x + held holds self x + held holds p x = refs w x + held holds self2 x + held holds p2 x"
    using move_assign_refs(1,2) [OF assms] by (cases same) (auto simp: packet_ref_move_assign_def [of api True])
qed (use copy_refs(1,3) [OF assms] copy_assign_refs [OF assms] in auto)

text \<open>
  A move assignment whose new reference cannot be made loses the old packet without releasing
  it.
\<close>

theorem failed_move_assignment_leaks:
  assumes "packet_api_ok api holds refs" and "packet_ref_move_assign api same self rhs w = (Inl e, self', rhs', w')"
    and "holds self = Some b"
  shows "refs w' b = refs w b \<and> holds self' = None \<and> rhs' = rhs"
proof -
  obtain c p w1 where f: "pa_ref api rhs w = (c, p, w1)" by (metis prod_cases3)
  have "c < 0" "self' = p" "rhs' = rhs" "w' = w1"
    using assms(2) by (auto simp: packet_ref_move_assign_def f split: if_splits prod.splits)
  with api_ref(1) [OF assms(1) f] show ?thesis by simp
qed

section \<open>An instance\<close>

text \<open>Counts as a function; a packet without a buffer has no data to copy.\<close>

definition counting_api :: "(nat option, nat \<Rightarrow> nat) packet_api" where
  "counting_api = \<lparr>pa_blank = None, pa_alloc = (\<lambda>w. (Some None, w)),
     pa_ref = (\<lambda>p w. case p of None \<Rightarrow> (- 12, None, w) | Some b \<Rightarrow> (0, Some b, w(b := w b + 1))),
     pa_unref = (\<lambda>p w. (None, case p of None \<Rightarrow> w | Some b \<Rightarrow> w(b := w b - 1))),
     pa_grow = (\<lambda>p n w. (0, p, w)), pa_shrink = (\<lambda>p n w. (p, w)), pa_strerror = (\<lambda>e. [])\<rparr>"

lemma counting_api_ok: "packet_api_ok counting_api (\<lambda>p. p) (\<lambda>w. w)"
  by (auto simp: packet_api_ok_def counting_api_def split: option.splits)


theorem packet_copies_are_counted_witness:
  "fst (packet_ref_copy counting_api (Some 0) (\<lambda>b. 1)) = Inr (Some 0) \<and> snd (packet_ref_copy counting_api (Some 0) (\<lambda>b. 1)) 0 = 2"
  using packet_copies_are_counted [OF counting_api_ok, of "Some 0" "\<lambda>b. 1" "Some 0" "snd (packet_ref_copy counting_api (Some 0) (\<lambda>b. 1))" 0]
  by (simp add: packet_ref_copy_def counting_api_def held_def)

theorem failed_move_assignment_leaks_witness:
  "snd (snd (snd (packet_ref_move_assign counting_api False (Some 0) None (\<lambda>b. 1)))) 0 = 1"
  using failed_move_assignment_leaks [OF counting_api_ok, of False "Some 0" None "\<lambda>b. 1" "ref_failed counting_api (- 12)" None None "\<lambda>b. 1" 0]
  by (simp add: packet_ref_move_assign_def counting_api_def)

end
