(* ===== verification/Handles.thy ===== *)
theory Handles
  imports Remux
begin

text \<open>
  Opening a source and a sink, \<^verbatim>\<open>src/io/source_handle.cpp\<close> and
  \<^verbatim>\<open>sink_handle.cpp\<close>.  The calls to libavformat are the fields of a record,
  over its state \<open>'w\<close>; a call returns its status (negative is an error) and the new state.
\<close>

record 'w av_env =
  env_io :: "'w av_io"
  env_find_input_format :: "string \<Rightarrow> bool"
  env_open_input :: "string \<Rightarrow> string option \<Rightarrow> 'w \<Rightarrow> int \<times> 'w"
  env_find_stream_info :: "'w \<Rightarrow> int \<times> 'w"
  env_alloc_output :: "string \<Rightarrow> string option \<Rightarrow> 'w \<Rightarrow> int \<times> 'w"
  env_needs_file :: "'w \<Rightarrow> bool"
  env_avio_open :: "string \<Rightarrow> 'w \<Rightarrow> int \<times> 'w"
  env_new_stream :: "'w \<Rightarrow> bool \<times> 'w"
  env_copy_parameters :: "av_stream \<Rightarrow> 'w \<Rightarrow> int \<times> 'w"
  env_write_header :: "'w \<Rightarrow> int \<times> 'w"
  env_write_trailer :: "'w \<Rightarrow> 'w"
  env_demuxers :: "string list"
  env_muxers :: "string list"
  env_best_stream :: "'w \<Rightarrow> int"
  env_source_context :: "'w \<Rightarrow> format_context"

type_synonym ('w, 'a) io_step = "'w \<Rightarrow> 'a result \<times> 'w"

definition io_return :: "'a result \<Rightarrow> ('w, 'a) io_step" where
  "io_return r w = (r, w)"

definition io_then :: "('w, 'a) io_step \<Rightarrow> ('a \<Rightarrow> ('w, 'b) io_step) \<Rightarrow> ('w, 'b) io_step" where
  "io_then m f w = (case m w of (Inl e, w) \<Rightarrow> (Inl e, w) | (Inr x, w) \<Rightarrow> f x w)"

text \<open>A call whose negative status becomes an exception with this description.\<close>

definition av_call :: "'w av_env \<Rightarrow> string \<Rightarrow> ('w \<Rightarrow> int \<times> 'w) \<Rightarrow> ('w, unit) io_step" where
  "av_call env description call w = (let (e, w) = call w in
     (if e < 0 then Inl (ff_runtime_error (io_strerror (env_io env)) description e) else Inr (), w))"

section \<open>Source\<close>

definition source_open :: "'w av_env \<Rightarrow> string \<Rightarrow> string option \<Rightarrow> ('w, unit) io_step" where
  "source_open env url format_name =
     io_then (io_return (case format_name of
         Some name \<Rightarrow> if env_find_input_format env name then Inr () else Inl (Runtime_Error (''Unknown input format '' @ name))
       | None \<Rightarrow> Inr ())) (\<lambda>_.
     io_then (av_call env ''Could not open source stream'' (env_open_input env url format_name)) (\<lambda>_.
     av_call env ''Could not find stream info'' (env_find_stream_info env)))"

section \<open>Sink\<close>

definition sink_open :: "'w av_env \<Rightarrow> string \<Rightarrow> string option \<Rightarrow> ('w, unit) io_step" where
  "sink_open env url format_name =
     io_then (av_call env ''Could not open sink stream'' (env_alloc_output env url format_name)) (\<lambda>_ w.
     if env_needs_file env w then av_call env (''Could not open sink '' @ url) (env_avio_open env url) w
     else (Inr (), w))"

fun init_remuxing :: "'w av_env \<Rightarrow> av_stream list \<Rightarrow> ('w, unit) io_step" where
  "init_remuxing env [] w = (Inr (), w)"
| "init_remuxing env (in_stream # in_streams) w =
     io_then (\<lambda>w. let (out_stream, w) = env_new_stream env w in
       (if \<not> out_stream then Inl (Runtime_Error ''Failed allocating sink stream'') else Inr (), w)) (\<lambda>_.
     io_then (av_call env ''Failed to set up sink codec parameters'' (env_copy_parameters env in_stream)) (\<lambda>_.
     init_remuxing env in_streams)) w"

text \<open>The second component of the state is the sink's \<^verbatim>\<open>should_write_trailer\<close>.\<close>

definition sink_start :: "'w av_env \<Rightarrow> 'w \<times> bool \<Rightarrow> unit result \<times> 'w \<times> bool" where
  "sink_start env s = (let (w, trailer) = s in
     case av_call env ''Could not write header in sink'' (env_write_header env) w of
       (Inl e, w) \<Rightarrow> (Inl e, w, trailer)
     | (Inr _, w) \<Rightarrow> (Inr (), w, True))"

definition sink_destroy :: "'w av_env \<Rightarrow> 'w \<times> bool \<Rightarrow> 'w" where
  "sink_destroy env s = (let (w, trailer) = s in if trailer then env_write_trailer env w else w)"

section \<open>A whole stream\<close>

text \<open>
  What the two threads do with a source and a sink: open both, copy the streams, classify them,
  require a time source, write the header, move the packets; and at every exit the sink is closed.
\<close>

definition open_streams ::
  "'w av_env \<Rightarrow> string \<Rightarrow> string \<Rightarrow> string option \<Rightarrow> string option \<Rightarrow> ('w, stream_classification) io_step" where
  "open_streams env source sink source_format sink_format =
     io_then (source_open env source source_format) (\<lambda>_.
     io_then (sink_open env sink sink_format) (\<lambda>_.
     io_then (\<lambda>w. init_remuxing env (io_source (env_io env) w) w) (\<lambda>_.
     io_then (\<lambda>w. (classify_streams (env_demuxers env) (env_muxers env) (env_best_stream env w)
         (env_source_context env w), w)) (\<lambda>sc.
     io_return (bind_res (sc_require Time_Source_Kind sc) (\<lambda>_. Inr sc))))))"

definition run_stream ::
  "cpp_impl \<Rightarrow> 'w av_env \<Rightarrow> string \<Rightarrow> string \<Rightarrow> string option \<Rightarrow> string option
    \<Rightarrow> (kind \<times> 's factory) list \<Rightarrow> 'w \<Rightarrow> 's \<Rightarrow> ('w \<times> 's \<times> unit result) option" where
  "run_stream im env source sink source_format sink_format factories w s =
     (case open_streams env source sink source_format sink_format w of
        (Inl e, w) \<Rightarrow> Some (w, s, Inl e)
      | (Inr sc, w) \<Rightarrow> (case sink_start env (w, False) of
            (Inl e, wt) \<Rightarrow> Some (sink_destroy env wt, s, Inl e)
          | (Inr _, w, trailer) \<Rightarrow> (case remux_loop im (env_io env) sc factories w s of
                None \<Rightarrow> None
              | Some (st, r) \<Rightarrow> Some (sink_destroy env (rx_io st, trailer), rx_procs st, r))))"

lemma remux_loop_procs:
  assumes "\<And>k f tb s s' p. P s \<Longrightarrow> (k, f) \<in> set factories \<Longrightarrow> f tb s = (s', p) \<Longrightarrow> P s'"
    and "\<And>k f tb t s pkt s' p t' pkt' r. (k, f) \<in> set factories \<Longrightarrow> f tb t = (t', p) \<Longrightarrow>
       P s \<Longrightarrow> p pkt s = (s', pkt', r) \<Longrightarrow> P s'"
    and "remux_loop im io sc factories w s = Some (st, r)" and "P s"
  shows "P (rx_procs st)"
proof (cases "mkprocs sc (io_source io w) factories s")
  case (Inl e)
  with assms(3,4) show ?thesis by (auto simp: remux_loop_def)
next
  case (Inr a)
  obtain s0 procs where a: "a = (s0, procs)" by (cases a)
  have "mkprocs sc ss fs s = Inr (s', ps) \<Longrightarrow> set fs \<subseteq> set factories \<Longrightarrow> P s \<Longrightarrow> P s'" for ss fs s s' ps
  proof (induction fs arbitrary: s ps)
    case (Cons kf fs)
    obtain k f where kf: "kf = (k, f)" by (cases kf)
    from Cons.prems(1) obtain s1 q ps' where m: "mkproc sc ss k f s = Inr (s1, q)" and r: "mkprocs sc ss fs s1 = Inr (s', ps')"
      by (auto simp: kf bind_res_Inr_iff)
    have "P s1"
    proof (cases "sc_has k sc")
      case True
      with m have "bind_res (get_stream_of Time_Source_Kind sc ss) (\<lambda>st.
          (let (s, p) = f (st_time_base st) s in Inr (s, Some p))) = Inr (s1, q)" by (simp add: mkproc_def)
      then obtain st :: av_stream where "(let (s, p) = f (st_time_base st) s in Inr (s, Some p) :: _ result) = Inr (s1, q)"
        by (rule bind_resE)
      then obtain p where f: "f (st_time_base st) s = (s1, p)" by (cases "f (st_time_base st) s") auto
      have "(k, f) \<in> set factories" using Cons.prems(2) kf by simp
      from assms(1) [OF Cons.prems(3) this f] show ?thesis .
    next
      case False
      with m Cons.prems(3) show ?thesis by (simp add: mkproc_def)
    qed
    with Cons.IH [OF r] Cons.prems(2) show ?case by simp
  qed simp
  from this [OF Inr [unfolded a]] assms(4) have s0: "P s0" by simp
  have rp: "P s'" if "run_procs im sc ps brk pkt s = (s', pkt', b)" "set ps \<subseteq> set procs" "P s" for ps brk pkt s s' pkt' b
    using that
  proof (induction ps arbitrary: brk pkt s)
    case (Cons kq ps)
    obtain k q where kq: "kq = (k, q)" by (cases kq)
    note IH = Cons.IH and prems = Cons.prems
    show ?case
    proof (cases "Some (pkt_stream_index pkt) = sc_index k sc")
      case True
      show ?thesis
      proof (cases q)
        case (Some p)
        obtain s1 pkt1 r1 where p: "p pkt s = (s1, pkt1, r1)" by (metis prod_cases3)
        have "(k, Some p) \<in> set procs" using prems(2) kq Some by simp
        from mkprocs_from [OF Inr [unfolded a] this] obtain f tb t t' where "(k, f) \<in> set factories" "f tb t = (t', p)" by blast
        from assms(2) [OF this prems(3) p] have "P s1" .
        with True Some p prems IH show ?thesis by (cases r1) (auto simp: kq)
      qed (use True prems in \<open>simp add: kq\<close>)
    qed (use prems IH in \<open>simp add: kq\<close>)
  qed simp
  have "P (rx_procs st2)" if p: "P (rx_procs st1)" and rd: "remux_round im io sc procs st1 = (st2, o2)" for st1 st2 o2
  proof -
    obtain e pkt w1 where f: "io_read_frame io (rx_io st1) = (e, pkt, w1)" by (metis prod_cases3)
    obtain s2 pkt2 b where r: "run_procs im sc procs False pkt (rx_procs st1) = (s2, pkt2, b)" by (metis prod_cases3)
    from rp [OF r] p have s2: "P s2" by simp
    have wr: "rx_procs stb = rx_procs sta" if "remux_write io pkt2 brk sta = (stb, ob)" for brk sta stb ob
      using that by (auto simp: remux_write_def Let_def split: prod.splits sum.splits if_splits)
    show ?thesis
      using rd p f r s2
      by (auto simp: remux_round_def read_packet_def Let_def split: if_splits sum.splits dest!: wr)
  qed
  from rounds_invariant [where P = "\<lambda>st. P (rx_procs st)", OF _ this] assms(3) Inr a s0
  show ?thesis by (fastforce simp: remux_loop_def)
qed

end
