(* ===== verification/Input_Manager.thy ===== *)
theory Input_Manager
  imports Inputs
begin

text \<open>
  The input manager of \<^verbatim>\<open>src/input_manager.h\<close>: the inputs by id, and the id of the
  current input for each kind of metadata.  The \<^verbatim>\<open>std::map\<close> is an association list in the
  order of its keys, which is the order its iterators go through.
\<close>

section \<open>Ordered maps\<close>

fun omap_put :: "'k :: linorder \<Rightarrow> 'v \<Rightarrow> ('k \<times> 'v) list \<Rightarrow> ('k \<times> 'v) list" where
  "omap_put k v [] = [(k, v)]"
| "omap_put k v ((k', v') # m) =
     (if k < k' then (k, v) # (k', v') # m
      else if k = k' then (k, v) # m
      else (k', v') # omap_put k v m)"

definition omap_ok :: "('k :: linorder \<times> 'v) list \<Rightarrow> bool" where
  "omap_ok m \<longleftrightarrow> sorted_wrt (<) (map fst m)"

lemma map_of_omap_put: "map_of (omap_put k v m) = (map_of m)(k \<mapsto> v)" if "omap_ok m"
  using that
proof (induction m)
  case (Cons e m)
  obtain k' v' where e: "e = (k', v')" by fastforce
  from Cons.prems have "omap_ok m" by (simp add: omap_ok_def)
  with Cons.IH show ?case by (auto simp: e fun_eq_iff)
qed simp

lemma set_omap_put: "fst ` set (omap_put k v m) = insert k (fst ` set m)"
proof (induction m)
  case (Cons e m)
  then show ?case by (cases e) (simp add: insert_commute)
qed simp

lemma omap_put_ok: "omap_ok m \<Longrightarrow> omap_ok (omap_put k v m)"
proof (induction m)
  case (Cons e m)
  obtain k' v' where e: "e = (k', v')" by fastforce
  from Cons.prems have m: "omap_ok m" and lt: "\<And>x. x \<in> fst ` set m \<Longrightarrow> k' < x"
    by (auto simp: omap_ok_def e)
  have "sorted_wrt (<) (k' # map fst (omap_put k v m))" if "k' < k"
    using Cons.IH [OF m] lt that set_omap_put [of k v m] by (auto simp: omap_ok_def)
  moreover have "sorted_wrt (<) (k # k' # map fst m)" if "k < k'"
  proof -
    have "k < x" if "x \<in> fst ` set m" for x using lt [OF that] \<open>k < k'\<close> by (rule less_trans [rotated])
    then show ?thesis using Cons.prems \<open>k < k'\<close> by (simp add: omap_ok_def e)
  qed
  ultimately show ?case using Cons.prems by (auto simp: omap_ok_def e)
qed (simp add: omap_ok_def)

section \<open>The manager\<close>

record 'a changeset =
  cs_sei :: "'a option"
  cs_scte :: "'a option"

definition cs_get :: "kind \<Rightarrow> 'a changeset \<Rightarrow> 'a option" where
  "cs_get k c = (case k of Sei_Kind \<Rightarrow> cs_sei c | Scte_Kind \<Rightarrow> cs_scte c | Time_Source_Kind \<Rightarrow> None)"

definition cs_set :: "kind \<Rightarrow> 'a option \<Rightarrow> 'a changeset \<Rightarrow> 'a changeset" where
  "cs_set k v c = (case k of Sei_Kind \<Rightarrow> c\<lparr>cs_sei := v\<rparr> | Scte_Kind \<Rightarrow> c\<lparr>cs_scte := v\<rparr> | Time_Source_Kind \<Rightarrow> c)"

definition empty_changeset :: "'a changeset" where
  "empty_changeset = \<lparr>cs_sei = None, cs_scte = None\<rparr>"

record input_manager =
  im_sei :: input_id
  im_scte :: input_id
  im_inputs :: "(input_id \<times> input) list"

definition create_manager :: "input list \<Rightarrow> input_manager" where
  "create_manager inputs = \<lparr>im_sei = 0, im_scte = 0,
     im_inputs = fold (\<lambda>inp. omap_put (is_id (in_spec inp)) inp) inputs []\<rparr>"

definition get_current_input_id :: "kind \<Rightarrow> input_manager \<Rightarrow> input_id" where
  "get_current_input_id k m = (case k of Sei_Kind \<Rightarrow> im_sei m | Scte_Kind \<Rightarrow> im_scte m | Time_Source_Kind \<Rightarrow> 0)"

definition exchange_current :: "kind \<Rightarrow> input_id \<Rightarrow> input_manager \<Rightarrow> input_manager" where
  "exchange_current k i m = (case k of Sei_Kind \<Rightarrow> m\<lparr>im_sei := i\<rparr> | Scte_Kind \<Rightarrow> m\<lparr>im_scte := i\<rparr> | Time_Source_Kind \<Rightarrow> m)"

definition get_input_by_id :: "input_id \<Rightarrow> input_manager \<Rightarrow> input option" where
  "get_input_by_id i m = map_of (im_inputs m) i"

definition get_input_by_name :: "string \<Rightarrow> input_manager \<Rightarrow> input option" where
  "get_input_by_name name m =
     map_option snd (find (\<lambda>(_, p). is_name (in_spec p) = name) (im_inputs m))"

text \<open>
  \<^verbatim>\<open>m_inputs[id]\<close> makes an empty pointer for an id the map does not have, which is then
  dereferenced.
\<close>

definition get_current_input :: "kind \<Rightarrow> input_manager \<Rightarrow> input result" where
  "get_current_input k m = (case get_input_by_id (get_current_input_id k m) m of
      Some inp \<Rightarrow> Inr inp | None \<Rightarrow> Inl Range_Violation)"

definition is_input_id_valid :: "input_id \<Rightarrow> input_manager \<Rightarrow> bool" where
  "is_input_id_valid i m \<longleftrightarrow> i \<in> fst ` set (im_inputs m)"

text \<open>The two passes of \<^verbatim>\<open>set_current_inputs\<close>, one step of each per kind.\<close>

fun validate_changes :: "input_id changeset \<Rightarrow> input_manager \<Rightarrow> kind list \<Rightarrow> unit result" where
  "validate_changes cs m [] = Inr ()"
| "validate_changes cs m (k # ks) = (case cs_get k cs of
      None \<Rightarrow> validate_changes cs m ks
    | Some i \<Rightarrow>
        if \<not> is_input_id_valid i m then Inl (Out_Of_Range ''input id is out of range'')
        else (case get_input_by_id i m of
            None \<Rightarrow> Inl Range_Violation
          | Some inp \<Rightarrow> validate_changes cs m ks))"

fun apply_changes :: "input_id changeset \<Rightarrow> kind list \<Rightarrow> input_manager \<Rightarrow> input_manager" where
  "apply_changes cs [] m = m"
| "apply_changes cs (k # ks) m = apply_changes cs ks
     (case cs_get k cs of None \<Rightarrow> m | Some i \<Rightarrow> exchange_current k i m)"

definition set_current_inputs ::
  "input_id changeset \<Rightarrow> input_manager \<Rightarrow> input_manager \<times> cpp_error option" where
  "set_current_inputs cs m = (case validate_changes cs m MetadataKindPack of
      Inl e \<Rightarrow> (m, Some e)
    | Inr _ \<Rightarrow> (apply_changes cs MetadataKindPack m, None))"

text \<open>\<^verbatim>\<open>std::quoted\<close>.\<close>

fun quote_chars :: "string \<Rightarrow> string" where
  "quote_chars [] = []"
| "quote_chars (c # s) = (if c = CHR 0x22 \<or> c = CHR 0x5C then CHR 0x5C # c # quote_chars s else c # quote_chars s)"

definition quoted :: "string \<Rightarrow> string" where
  "quoted s = CHR 0x22 # quote_chars s @ [CHR 0x22]"

fun resolve_names ::
  "string changeset \<Rightarrow> input_manager \<Rightarrow> kind list \<Rightarrow> input_id changeset \<Rightarrow> input_id changeset result" where
  "resolve_names cs m [] ids = Inr ids"
| "resolve_names cs m (k # ks) ids = (case cs_get k cs of
      None \<Rightarrow> resolve_names cs m ks ids
    | Some name \<Rightarrow> (case get_input_by_name name m of
          None \<Rightarrow> Inl (Invalid_Argument (''unknown input name: '' @ quoted name))
        | Some inp \<Rightarrow> resolve_names cs m ks (cs_set k (Some (is_id (in_spec inp))) ids)))"

definition set_current_inputs_by_name ::
  "string changeset \<Rightarrow> input_manager \<Rightarrow> input_manager \<times> cpp_error option" where
  "set_current_inputs_by_name cs m = (case resolve_names cs m MetadataKindPack empty_changeset of
      Inl e \<Rightarrow> (m, Some e)
    | Inr ids \<Rightarrow> set_current_inputs ids m)"

definition manager_size :: "input_manager \<Rightarrow> nat" where
  "manager_size m = length (im_inputs m)"

definition manager_inputs :: "input_manager \<Rightarrow> input list" where
  "manager_inputs m = map snd (im_inputs m)"

text \<open>An update of one input through the reference a getter returned.\<close>

definition update_input :: "input_id \<Rightarrow> (input \<Rightarrow> input) \<Rightarrow> input_manager \<Rightarrow> input_manager" where
  "update_input i f m = m\<lparr>im_inputs := map (\<lambda>(k, v). (k, if k = i then f v else v)) (im_inputs m)\<rparr>"

section \<open>Invariant\<close>

definition manager_ok :: "input_manager \<Rightarrow> bool" where
  "manager_ok m \<longleftrightarrow> omap_ok (im_inputs m) \<and>
     list_all (\<lambda>(i, inp). is_id (in_spec inp) = i) (im_inputs m) \<and>
     is_input_id_valid (im_sei m) m \<and> is_input_id_valid (im_scte m) m"

lemma valid_id_found: "is_input_id_valid i m \<longleftrightarrow> get_input_by_id i m \<noteq> None"
  by (simp add: is_input_id_valid_def get_input_by_id_def map_of_eq_None_iff)

lemma found_id: "manager_ok m \<Longrightarrow> get_input_by_id i m = Some inp \<Longrightarrow> is_id (in_spec inp) = i"
  by (auto simp: manager_ok_def get_input_by_id_def list_all_iff dest: map_of_SomeD)

lemma found_name:
  assumes "manager_ok m" and "get_input_by_name name m = Some inp"
  shows "is_name (in_spec inp) = name \<and> is_input_id_valid (is_id (in_spec inp)) m"
proof -
  from assms(2) obtain i where i: "(i, inp) \<in> set (im_inputs m)" "is_name (in_spec inp) = name"
    by (auto simp: get_input_by_name_def find_Some_iff) (metis nth_mem)
  then have "is_id (in_spec inp) = i" using assms(1) by (auto simp: manager_ok_def list_all_iff)
  with i show ?thesis by (force simp: is_input_id_valid_def)
qed

lemma create_inputs_ok:
  "omap_ok m \<Longrightarrow> list_all (\<lambda>(i, inp). is_id (in_spec inp) = i) m \<Longrightarrow>
   omap_ok (fold (\<lambda>inp. omap_put (is_id (in_spec inp)) inp) inputs m) \<and>
   list_all (\<lambda>(i, inp). is_id (in_spec inp) = i) (fold (\<lambda>inp. omap_put (is_id (in_spec inp)) inp) inputs m) \<and>
   fst ` set (fold (\<lambda>inp. omap_put (is_id (in_spec inp)) inp) inputs m)
     = fst ` set m \<union> (is_id \<circ> in_spec) ` set inputs"
proof (induction inputs arbitrary: m)
  case (Cons inp inputs)
  let ?m = "omap_put (is_id (in_spec inp)) inp m"
  have "list_all (\<lambda>(i, inp). is_id (in_spec inp) = i) ?m"
    using Cons.prems(2) by (induction m) auto
  with Cons.IH [of ?m] Cons.prems(1) show ?case by (simp add: omap_put_ok set_omap_put)
qed simp

lemma validate_ok_iff:
  "validate_changes cs m ks = Inr () \<longleftrightarrow> list_all (\<lambda>k. pred_option (\<lambda>i. is_input_id_valid i m) (cs_get k cs)) ks"
  by (induction ks) (auto simp: valid_id_found split: option.splits)

lemma validate_error:
  "validate_changes cs m ks = Inl e \<Longrightarrow> e = Out_Of_Range ''input id is out of range''"
  by (induction ks) (auto simp: valid_id_found split: option.splits if_splits)

lemma resolve_valid:
  "manager_ok m \<Longrightarrow> resolve_names cs m ks ids = Inr ids' \<Longrightarrow>
   list_all (\<lambda>k. pred_option (\<lambda>i. is_input_id_valid i m) (cs_get k ids)) MetadataKindPack \<Longrightarrow>
   list_all (\<lambda>k. pred_option (\<lambda>i. is_input_id_valid i m) (cs_get k ids')) MetadataKindPack"
proof (induction ks arbitrary: ids)
  case (Cons k ks)
  show ?case
  proof (cases "cs_get k cs")
    case None
    with Cons show ?thesis by simp
  next
    case (Some name)
    with Cons.prems(2) obtain inp where i: "get_input_by_name name m = Some inp"
      "resolve_names cs m ks (cs_set k (Some (is_id (in_spec inp))) ids) = Inr ids'"
      by (auto split: option.splits)
    have "list_all (\<lambda>k. pred_option (\<lambda>i. is_input_id_valid i m) (cs_get k (cs_set k' (Some (is_id (in_spec inp))) ids)))
        MetadataKindPack" for k'
      using Cons.prems(3) found_name [OF Cons.prems(1) i(1)]
      by (cases k') (simp_all add: MetadataKindPack_def cs_get_def cs_set_def)
    with Cons.IH [OF Cons.prems(1) i(2)] show ?thesis by simp
  qed
qed simp

lemma set_current_inputs_spec:
  "set_current_inputs cs m =
     (if list_all (\<lambda>k. pred_option (\<lambda>i. is_input_id_valid i m) (cs_get k cs)) MetadataKindPack
      then (m\<lparr>im_sei := (case cs_sei cs of None \<Rightarrow> im_sei m | Some i \<Rightarrow> i),
              im_scte := (case cs_scte cs of None \<Rightarrow> im_scte m | Some i \<Rightarrow> i)\<rparr>, None)
      else (m, Some (Out_Of_Range ''input id is out of range'')))"
proof (cases "validate_changes cs m MetadataKindPack")
  case (Inl e)
  then have "\<not> list_all (\<lambda>k. pred_option (\<lambda>i. is_input_id_valid i m) (cs_get k cs)) MetadataKindPack"
    by (metis validate_ok_iff sum.distinct(1))
  then show ?thesis using Inl validate_error [OF Inl] by (simp add: set_current_inputs_def)
next
  case (Inr u)
  then have "list_all (\<lambda>k. pred_option (\<lambda>i. is_input_id_valid i m) (cs_get k cs)) MetadataKindPack"
    by (simp add: validate_ok_iff [symmetric])
  then show ?thesis using Inr
    by (simp add: set_current_inputs_def MetadataKindPack_def cs_get_def exchange_current_def split: option.splits)
qed

text \<open>
  A change of the current inputs either sets every kind that the changeset names, or fails and
  changes nothing, and it fails exactly when one of the ids is unknown.
\<close>

theorem changing_inputs_is_atomic:
  "set_current_inputs cs m =
     (if list_all (\<lambda>k. pred_option (\<lambda>i. is_input_id_valid i m) (cs_get k cs)) MetadataKindPack
      then (m\<lparr>im_sei := (case cs_sei cs of None \<Rightarrow> im_sei m | Some i \<Rightarrow> i),
              im_scte := (case cs_scte cs of None \<Rightarrow> im_scte m | Some i \<Rightarrow> i)\<rparr>, None)
      else (m, Some (Out_Of_Range ''input id is out of range'')))"
  by (rule set_current_inputs_spec)

text \<open>
  From the start on there is a current input for each kind: creation with the clear input at id 0,
  and every operation, keep it so, and the dereference in \<^verbatim>\<open>get_current_input\<close> is safe.
\<close>

inductive reachable_manager :: "input_manager \<Rightarrow> bool" where
  start: "distinct (map (is_id \<circ> in_spec) inputs) \<Longrightarrow> 0 \<in> (is_id \<circ> in_spec) ` set inputs \<Longrightarrow>
    reachable_manager (create_manager inputs)"
| by_id: "reachable_manager m \<Longrightarrow> reachable_manager (fst (set_current_inputs cs m))"
| by_name: "reachable_manager m \<Longrightarrow> reachable_manager (fst (set_current_inputs_by_name ns m))"
| restart: "reachable_manager m \<Longrightarrow> reachable_manager (update_input i input_schedule_restart m)"
| restarted: "reachable_manager m \<Longrightarrow> reachable_manager (update_input i (set_restart_scheduled b) m)"
| pushed: "reachable_manager m \<Longrightarrow>
    reachable_manager (update_input i (\<lambda>inp. inp\<lparr>in_caps := set_cap k True (in_caps inp)\<rparr>) m)"

lemma set_current_inputs_ok: "manager_ok m \<Longrightarrow> manager_ok (fst (set_current_inputs cs m))"
  by (auto simp: set_current_inputs_spec manager_ok_def is_input_id_valid_def MetadataKindPack_def cs_get_def
      split: option.splits)

lemma update_input_ok:
  assumes "manager_ok m" and "\<And>inp. is_id (in_spec inp) = i \<Longrightarrow> is_id (in_spec (f inp)) = i"
  shows "manager_ok (update_input i f m)"
proof -
  let ?g = "\<lambda>(k, v). (k, if k = i then f v else v)"
  have m: "map (fst \<circ> ?g) xs = map fst xs" for xs :: "(input_id \<times> input) list" by auto
  have im: "fst ` ?g ` A = fst ` A" for A by force
  have "list_all (\<lambda>(i, inp). is_id (in_spec inp) = i) (map ?g (im_inputs m))"
    using assms by (auto simp: manager_ok_def list_all_iff)
  then show ?thesis
    using assms(1) by (simp add: manager_ok_def update_input_def omap_ok_def is_input_id_valid_def m im)
qed

lemma reachable_manager_ok: "reachable_manager m \<Longrightarrow> manager_ok m"
proof (induction rule: reachable_manager.induct)
  case (start inputs)
  from create_inputs_ok [of "[]" inputs] start show ?case
    by (auto simp: manager_ok_def create_manager_def is_input_id_valid_def omap_ok_def)
next
  case (by_name m ns)
  then show ?case
    by (auto simp: set_current_inputs_by_name_def set_current_inputs_ok split: sum.splits)
next
  case (restart m i)
  from restart(2) show ?case by (rule update_input_ok) (simp add: input_schedule_restart_def split: input_class.splits)
next
  case (restarted m i b)
  from restarted(2) show ?case by (rule update_input_ok) (simp add: set_restart_scheduled_def)
next
  case (pushed m i k)
  from pushed(2) show ?case by (rule update_input_ok) simp
qed (rule set_current_inputs_ok)

text \<open>
  In every state that the manager can reach, for every kind of metadata the current input
  exists, so the unchecked lookup is safe.
\<close>

theorem current_input_always_there:
  assumes "reachable_manager m" and "k = Sei_Kind \<or> k = Scte_Kind"
  shows "\<exists>inp. get_current_input k m = Inr inp \<and> is_id (in_spec inp) = get_current_input_id k m"
proof -
  have ok: "manager_ok m" using assms(1) by (rule reachable_manager_ok)
  then have "is_input_id_valid (get_current_input_id k m) m"
    using assms(2) by (auto simp: manager_ok_def get_current_input_id_def)
  then obtain inp where "get_input_by_id (get_current_input_id k m) m = Some inp"
    by (auto simp: valid_id_found)
  with found_id [OF ok this] show ?thesis by (simp add: get_current_input_def)
qed

text \<open>
  Setting inputs by name sets the ids of the inputs with these names.
\<close>

theorem setting_by_name_spec:
  assumes "manager_ok m"
  shows "set_current_inputs_by_name \<lparr>cs_sei = Some name, cs_scte = Some name\<rparr> m =
    (case get_input_by_name name m of
       None \<Rightarrow> (m, Some (Invalid_Argument (''unknown input name: '' @ quoted name)))
     | Some inp \<Rightarrow> (m\<lparr>im_sei := is_id (in_spec inp), im_scte := is_id (in_spec inp)\<rparr>, None))"
proof (cases "get_input_by_name name m")
  case None
  then show ?thesis
    by (simp add: set_current_inputs_by_name_def MetadataKindPack_def cs_get_def)
next
  case (Some inp)
  with found_name [OF assms Some] show ?thesis
    by (simp add: set_current_inputs_by_name_def set_current_inputs_spec MetadataKindPack_def cs_get_def
        cs_set_def empty_changeset_def)
qed

definition sample_manager :: input_manager where
  "sample_manager = create_manager [clear_input 0,
     user_defined_input (default_input_spec\<lparr>is_id := 1, is_name := ''a'', is_source := ''s'', is_sink := ''t''\<rparr>)]"

lemma sample_manager_reachable: "reachable_manager sample_manager"
  unfolding sample_manager_def
  by (rule reachable_manager.start) (simp_all add: clear_input_def user_defined_input_def)

theorem current_input_always_there_witness:
  "\<exists>inp. get_current_input Scte_Kind sample_manager = Inr inp \<and>
     is_id (in_spec inp) = get_current_input_id Scte_Kind sample_manager"
  by (rule current_input_always_there [OF sample_manager_reachable]) simp

theorem setting_by_name_spec_witness:
  "set_current_inputs_by_name \<lparr>cs_sei = Some ''a'', cs_scte = Some ''a''\<rparr> sample_manager
     = (sample_manager\<lparr>im_sei := 1, im_scte := 1\<rparr>, None)"
  using setting_by_name_spec [OF reachable_manager_ok [OF sample_manager_reachable], of "''a''"]
  by (simp add: sample_manager_def create_manager_def get_input_by_name_def clear_input_def
      user_defined_input_def clear_input_name_def)

end
