(* ===== verification/Application.thy ===== *)
theory Application
  imports Input_Manager
begin

text \<open>
  The state that the threads share, \<^verbatim>\<open>src/application_context.h\<close> and \<^verbatim>\<open>.cpp\<close>:
  the queues, the clock, the input manager, the running flag and the timestamp adjustment.
\<close>

record app =
  app_queues :: meta_queues
  app_clock :: clock
  app_manager :: input_manager
  app_running :: bool
  app_ts_adjustment :: ts

definition create_app :: "input_manager \<Rightarrow> output_spec \<Rightarrow> app" where
  "create_app m o_spec = \<lparr>app_queues = empty_queues, app_clock = default_clock, app_manager = m,
     app_running = True, app_ts_adjustment = os_ts_adjustment o_spec\<rparr>"

text \<open>The second component says whether the exit signal is raised.\<close>

definition app_exit :: "app \<Rightarrow> app \<times> bool" where
  "app_exit a = (a\<lparr>app_running := False\<rparr>, app_running a)"

definition set_ts_adjustment :: "ts \<Rightarrow> app \<Rightarrow> app" where
  "set_ts_adjustment v a = a\<lparr>app_ts_adjustment := v\<rparr>"

text \<open>An application to evaluate on.\<close>

definition sample_app :: app where
  "sample_app = create_app sample_manager \<lparr>os_source = [], os_sink = [], os_source_format = None,
     os_sink_format = None, os_ts_adjustment = 0\<rparr>"

lemma exit_signals_once: "snd (app_exit (fst (app_exit a))) = False"
  by (simp add: app_exit_def)

end
