(* ===== verification/Injector.thy ===== *)
theory Injector
  imports Extractor Application
begin

text \<open>
  The packet processor of the output, \<^verbatim>\<open>SeiInjector\<close> of \<^verbatim>\<open>src/proc/injector.cpp\<close>:
  for every frame it queries the current input and rebuilds the packet with the answer in place of
  the captions of the source.
\<close>

section \<open>The processor\<close>

record injector =
  inj_pts_rescaler :: ts_rescaler
  inj_prev_pts :: ts
  inj_prev_input_id :: "input_id option"

definition new_injector :: "clock \<Rightarrow> time_base \<Rightarrow> injector" where
  "new_injector c tb =
     \<lparr>inj_pts_rescaler = clock_relative c tb, inj_prev_pts = - (2 ^ 63), inj_prev_input_id = None\<rparr>"

definition keep_other_sei :: "(sei_payload, sei_payload list) loop_body" where
  "keep_other_sei sei seis =
     (if sei_type sei = SEI_USER_DATA_REGISTERED then (seis, None) else (seis @ [sei], None))"

definition strip_cc :: "cpp_impl \<Rightarrow> u8 list \<Rightarrow> sei_payload list result" where
  "strip_cc im nalu =
     bind_res (nalu_get_type im nalu) (\<lambda>ty.
     bind_res (cpp_assert im (ty = Nalu_SEI)) (\<lambda>_.
     bind_res (copy_ebsp_to_sodb nalu) (\<lambda>sodb. case sodb of
         [] \<Rightarrow> Inl Range_Violation
       | _ # payloads \<Rightarrow>
           (case the (parse_each im sei_parser_next (sei_parser_pack im) keep_other_sei payloads []) of
              (seis, None) \<Rightarrow> Inr seis
            | (_, Some e) \<Rightarrow> Inl e))))"

text \<open>The NALUs of the packet; invalid ones are left out.\<close>

definition collect_nalu :: "cpp_impl \<Rightarrow> (u8 list, u8 list list) loop_body" where
  "collect_nalu im nalu nalus = (case nalu_is_valid im nalu of
      Inl e \<Rightarrow> (nalus, Some e)
    | Inr v \<Rightarrow> (if \<not> v then nalus else nalus @ [nalu], None))"

definition collect_nalus :: "cpp_impl \<Rightarrow> u8 list \<Rightarrow> u8 list list result" where
  "collect_nalus im data =
     (case the (parse_each im (nalu_parser_next im) (av_packet_nalu_parser_pack im) (collect_nalu im) data []) of
        (nalus, None) \<Rightarrow> Inr nalus
      | (_, Some e) \<Rightarrow> Inl e)"

text \<open>The NALUs in front of the SEIs are emitted first; the rest is returned.\<close>

fun remux_leading :: "cpp_impl \<Rightarrow> u8 list list \<Rightarrow> (u8 list \<times> u8 list list) result" where
  "remux_leading im [] = Inr ([], [])"
| "remux_leading im (nalu # nalus) =
     bind_res (nalu_get_type im nalu) (\<lambda>ty.
       if ty = Nalu_AUD \<or> ty = Nalu_SPS \<or> ty = Nalu_PPS then
         bind_res (emit_avcc_nalu im nalu) (\<lambda>b.
         bind_res (remux_leading im nalus) (\<lambda>(buf, rest). Inr (b @ buf, rest)))
       else Inr ([], nalu # nalus))"

fun remux_rest :: "cpp_impl \<Rightarrow> u8 list list \<Rightarrow> u8 list result" where
  "remux_rest im [] = Inr []"
| "remux_rest im (nalu # nalus) =
     bind_res (emit_avcc_nalu im nalu) (\<lambda>b.
     bind_res (remux_rest im nalus) (\<lambda>buf. Inr (b @ buf)))"

definition first_sei :: "cpp_impl \<Rightarrow> u8 list list \<Rightarrow> (sei_payload list \<times> u8 list list) result" where
  "first_sei im nalus = (case nalus of
      [] \<Rightarrow> Inr ([], [])
    | nalu # rest \<Rightarrow> bind_res (nalu_get_type im nalu) (\<lambda>ty.
        if ty = Nalu_SEI then bind_res (strip_cc im nalu) (\<lambda>seis. Inr (seis, rest))
        else Inr ([], nalus)))"

definition rebuild_packet :: "cpp_impl \<Rightarrow> u8 list \<Rightarrow> sei_payload list \<Rightarrow> u8 list result" where
  "rebuild_packet im data found =
     bind_res (collect_nalus im data) (\<lambda>nalus.
     bind_res (remux_leading im nalus) (\<lambda>(buf, rest).
     bind_res (first_sei im rest) (\<lambda>(seis, rest).
     bind_res (cpp_assert im (seis @ found \<noteq> [])) (\<lambda>_.
     bind_res (emit_sei_payloads_to_avcc_nalu im (seis @ found)) (\<lambda>sei_buf.
     bind_res (remux_rest im rest) (\<lambda>rest_buf.
     Inr (buf @ sei_buf @ rest_buf)))))))"

text \<open>
  \<^verbatim>\<open>av_grow_packet\<close> can fail: \<open>grow n\<close> is the exception of an attempt to grow by \<open>n\<close> bytes, if
  any.  \<^verbatim>\<open>av_shrink_packet\<close> cannot.  After either the packet has the size of the buffer.
\<close>

definition fit_packet :: "(nat \<Rightarrow> cpp_error option) \<Rightarrow> av_packet \<Rightarrow> u8 list \<Rightarrow> av_packet result" where
  "fit_packet grow pkt buf =
     bind_res (if length (pkt_data pkt) < length buf
               then (case grow (length buf - length (pkt_data pkt)) of None \<Rightarrow> Inr () | Some e \<Rightarrow> Inl e)
               else Inr ())
       (\<lambda>_. Inr (pkt\<lparr>pkt_data := buf\<rparr>))"

definition sei_injector_process ::
  "cpp_impl \<Rightarrow> rescaling \<Rightarrow> (nat \<Rightarrow> cpp_error option) \<Rightarrow> av_packet \<Rightarrow> injector \<times> app
    \<Rightarrow> (injector \<times> app) \<times> av_packet \<times> bool result" where
  "sei_injector_process im rescale grow pkt s = (let (inj, a) = s;
       (t, r) = rescale_to_clock rescale (c_time_base (app_clock a)) (pkt_pts pkt) (inj_pts_rescaler inj);
       inj = inj\<lparr>inj_pts_rescaler := r\<rparr>;
       rescaled_pts = t - app_ts_adjustment a
     in case get_current_input Sei_Kind (app_manager a) of
         Inl e \<Rightarrow> ((inj, a), pkt, Inl e)
       | Inr inp \<Rightarrow>
           (let i = is_id (in_spec inp);
                resets = (if Some i \<noteq> inj_prev_input_id inj then [build_cc_reset_metadata i rescaled_pts] else []);
                inj = inj\<lparr>inj_prev_input_id := Some i\<rparr>
            in case query_sei im inp (inj_prev_pts inj) (rescaled_pts + 1) (app_queues a) of
                Inl e \<Rightarrow> ((inj, a), pkt, Inl e)
              | Inr (v, g) \<Rightarrow>
                  (let inj = inj\<lparr>inj_prev_pts := rescaled_pts + 1\<rparr>; a = a\<lparr>app_queues := g\<rparr>
                   in case bind_res (rebuild_packet im (pkt_data pkt) (map md_val (resets @ v))) (fit_packet grow pkt) of
                       Inl e \<Rightarrow> ((inj, a), pkt, catch_parse_error (Some e))
                     | Inr pkt' \<Rightarrow> ((inj, a), pkt', Inr False))))"

section \<open>Several payloads in one NALU\<close>

text \<open>The announced length of a NALU is right for payloads that need no escapes but by 03.\<close>

lemma emitted_seis_length:
  "list_all wire_sei seis \<Longrightarrow>
   foldl (\<lambda>x sei. x + sei_payload_size_hint sei) n seis
     = n + word_of_nat (length (concat (map emit_sei_payload seis))) \<and>
   length (concat (map emit_sei_payload seis)) \<le> 800 * length seis"
proof (induction seis arbitrary: n)
  case (Cons sei seis)
  have w: "wire_sei sei" using Cons.prems by simp
  from length_sei_nalu(1) [OF w] have h: "sei_payload_size_hint sei = word_of_nat (length (emit_sei_payload sei))"
    by simp
  with Cons.IH [of "n + sei_payload_size_hint sei"] Cons.prems length_sei_nalu(2) [OF w]
  show ?case by (simp add: add.assoc)
qed simp

lemma emit_seis_ok:
  assumes "list_all wire_sei seis" and "length seis \<le> 10000"
  shows "emit_sei_payloads_to_avcc_nalu im seis = Inr (avcc_nalu (6 # concat (map emit_sei_payload seis)))"
    and "ok_nalu (6 # concat (map emit_sei_payload seis))"
proof -
  let ?b = "concat (map emit_sei_payload seis)"
  have l: "length (6 # ?b) < MAX_LENGTH"
    using emitted_seis_length [OF assms(1), of 1] assms(2) by (simp add: MAX_LENGTH_def)
  then show "ok_nalu (6 # ?b)" by (simp add: ok_nalu_def)
  have h: "foldl (\<lambda>x sei. x + sei_payload_size_hint sei) 1 seis = word_of_nat (length (6 # ?b))"
    using emitted_seis_length [OF assms(1), of 1] by simp
  have u: "unat (word_of_nat (length (6 # ?b)) :: u32) = length (6 # ?b)"
    using l by (intro unat_nalu_length) simp
  show "emit_sei_payloads_to_avcc_nalu im seis = Inr (avcc_nalu (6 # ?b))"
    unfolding emit_sei_payloads_to_avcc_nalu_def h emit_nalu_length_def u
    using l by (simp add: avcc_nalu_def write_32_bytes sei_nalu_type_byte del: of_nat_Suc list.size)
qed

section \<open>Rebuilding\<close>

definition plain_nalu :: "u8 list \<Rightarrow> bool" where
  "plain_nalu nalu \<longleftrightarrow> ok_nalu nalu \<and> hd nalu AND 0x80 = 0"

definition leading :: "u8 list \<Rightarrow> bool" where
  "leading nalu \<longleftrightarrow> nalu_type_of (hd nalu) \<in> {Nalu_AUD, Nalu_SPS, Nalu_PPS}"

lemma plain_nalu_ok: "list_all plain_nalu nalus \<Longrightarrow> list_all ok_nalu nalus"
  by (induction nalus) (simp_all add: plain_nalu_def)

lemma plain_nalu_type: "plain_nalu nalu \<Longrightarrow> nalu_get_type im nalu = Inr (nalu_type_of (hd nalu))"
  by (simp add: plain_nalu_def ok_nalu_def nalu_front)

lemma run_collect:
  "list_all plain_nalu nalus \<Longrightarrow> run_body (collect_nalu im) nalus acc = (acc @ nalus, None)"
  by (induction nalus arbitrary: acc)
    (simp_all add: collect_nalu_def plain_nalu_def ok_nalu_def nalu_front)

lemma collect_nalus_put:
  "list_all plain_nalu nalus \<Longrightarrow> collect_nalus im (concat (map avcc_nalu nalus)) = Inr nalus"
  by (simp add: collect_nalus_def nalu_codec.parse_each_put plain_nalu_ok run_collect)

lemma remux_leading_put:
  "list_all plain_nalu (lead @ rest) \<Longrightarrow> list_all leading lead \<Longrightarrow> (rest \<noteq> [] \<Longrightarrow> \<not> leading (hd rest)) \<Longrightarrow>
   remux_leading im (lead @ rest) = Inr (concat (map avcc_nalu lead), rest)"
proof (induction lead)
  case Nil
  then show ?case by (cases rest) (auto simp: plain_nalu_type leading_def)
next
  case (Cons nalu lead)
  then show ?case by (auto simp: plain_nalu_type leading_def emit_avcc_nalu_ok plain_nalu_def)
qed

lemma remux_rest_put:
  "list_all plain_nalu rest \<Longrightarrow> remux_rest im rest = Inr (concat (map avcc_nalu rest))"
  by (induction rest) (simp_all add: emit_avcc_nalu_ok plain_nalu_def)

lemma run_keep_other:
  "run_body keep_other_sei seis acc = (acc @ filter (\<lambda>sei. \<not> is_caption sei) seis, None)"
  by (induction seis arbitrary: acc) (simp_all add: keep_other_sei_def is_caption_def)

lemma strip_cc_carries:
  assumes "carries nalu seis" and "sei_nalu nalu"
  shows "strip_cc im nalu = Inr (filter (\<lambda>sei. \<not> is_caption sei) seis)"
proof -
  from assms have "nalu \<noteq> []" and "list_all ok_sei seis"
    and "copy_ebsp_to_sodb nalu = Inr (hd nalu # concat (map sei_message seis))"
    by (simp_all add: carries_def ok_nalu_def)
  with assms(2) show ?thesis
    by (simp add: strip_cc_def nalu_front sei_nalu_def sei_codec.parse_each_put run_keep_other)
qed

text \<open>
  The shape of a packet: leading NALUs, at most one SEI NALU with payloads \<open>seis\<close>, and NALUs of
  which the first is neither.
\<close>

definition shaped :: "u8 list \<Rightarrow> u8 list list \<Rightarrow> sei_payload list option \<Rightarrow> u8 list list \<Rightarrow> bool" where
  "shaped data lead seis rest \<longleftrightarrow> (\<exists>mid. data = concat (map avcc_nalu (lead @ mid @ rest)) \<and>
     list_all plain_nalu (lead @ mid @ rest) \<and> list_all leading lead \<and>
     (case seis of
        None \<Rightarrow> mid = [] \<and> (rest = [] \<or> \<not> leading (hd rest) \<and> nalu_type_of (hd (hd rest)) \<noteq> Nalu_SEI)
      | Some ss \<Rightarrow> (\<exists>nalu. mid = [nalu] \<and> sei_nalu nalu \<and> carries nalu ss)))"

definition kept_seis :: "sei_payload list option \<Rightarrow> sei_payload list" where
  "kept_seis seis = (case seis of None \<Rightarrow> [] | Some ss \<Rightarrow> filter (\<lambda>sei. \<not> is_caption sei) ss)"

lemma rebuild_packet_shaped:
  assumes "shaped data lead seis rest" and "list_all wire_sei (kept_seis seis @ found)"
    and "kept_seis seis @ found \<noteq> []" and "length (kept_seis seis @ found) \<le> 10000"
  shows "rebuild_packet im data found = Inr (concat (map avcc_nalu
    (lead @ [6 # concat (map emit_sei_payload (kept_seis seis @ found))] @ rest)))"
proof -
  from assms(1) obtain mid where d: "data = concat (map avcc_nalu (lead @ mid @ rest))"
    and p: "list_all plain_nalu (lead @ mid @ rest)" and l: "list_all leading lead"
    and c: "case seis of
        None \<Rightarrow> mid = [] \<and> (rest = [] \<or> \<not> leading (hd rest) \<and> nalu_type_of (hd (hd rest)) \<noteq> Nalu_SEI)
      | Some ss \<Rightarrow> (\<exists>nalu. mid = [nalu] \<and> sei_nalu nalu \<and> carries nalu ss)"
    by (auto simp: shaped_def)
  have "mid @ rest \<noteq> [] \<Longrightarrow> \<not> leading (hd (mid @ rest))"
    using c by (auto simp: sei_nalu_def leading_def split: option.splits)
  with p l have rl: "remux_leading im (lead @ mid @ rest) = Inr (concat (map avcc_nalu lead), mid @ rest)"
    by (intro remux_leading_put) simp_all
  have pr: "list_all plain_nalu rest" using p by simp
  have fs: "first_sei im (mid @ rest) = Inr (kept_seis seis, rest)"
  proof (cases seis)
    case None
    with c have m: "mid = []" by simp
    show ?thesis
    proof (cases rest)
      case (Cons nalu rs)
      with c m None pr show ?thesis by (simp add: first_sei_def kept_seis_def plain_nalu_type)
    qed (simp add: m None first_sei_def kept_seis_def)
  next
    case (Some ss)
    with c obtain nalu where n: "mid = [nalu]" "sei_nalu nalu" "carries nalu ss" by auto
    with p have "plain_nalu nalu" by simp
    with n Some show ?thesis
      by (simp add: first_sei_def kept_seis_def plain_nalu_type strip_cc_carries) (simp add: sei_nalu_def)
  qed
  have cn: "collect_nalus im data = Inr (lead @ mid @ rest)"
    unfolding d by (rule collect_nalus_put [OF p])
  have as: "cpp_assert im (kept_seis seis @ found \<noteq> []) = Inr ()" using assms(3) by auto
  note em = emit_seis_ok(1) [OF assms(2,4), of im]
  show ?thesis
    unfolding rebuild_packet_def cn bind_res.simps rl prod.case fs as em remux_rest_put [OF pr]
    by simp
qed

section \<open>One frame\<close>

definition frame_time :: "rescaling \<Rightarrow> av_packet \<Rightarrow> injector \<Rightarrow> app \<Rightarrow> ts" where
  "frame_time rescale pkt ij a =
     fst (rescale_to_clock rescale (c_time_base (app_clock a)) (pkt_pts pkt) (inj_pts_rescaler ij)) - app_ts_adjustment a"

definition frame_resets :: "injector \<Rightarrow> input_id \<Rightarrow> ts \<Rightarrow> sei_payload metadata list" where
  "frame_resets ij i t = (if inj_prev_input_id ij = Some i then [] else [build_cc_reset_metadata i t])"

definition frame_seen :: "rescaling \<Rightarrow> av_packet \<Rightarrow> injector \<Rightarrow> app \<Rightarrow> input_id \<Rightarrow> injector" where
  "frame_seen rescale pkt ij a i =
     \<lparr>inj_pts_rescaler = snd (rescale_to_clock rescale (c_time_base (app_clock a)) (pkt_pts pkt) (inj_pts_rescaler ij)),
      inj_prev_pts = frame_time rescale pkt ij a + 1, inj_prev_input_id = Some i\<rparr>"

text \<open>A step whose input is found and whose query is answered.\<close>

lemma sei_injector_process_answered:
  assumes "get_current_input Sei_Kind (app_manager a) = Inr inp" and "is_id (in_spec inp) = i"
    and "frame_time rescale pkt ij a = t"
    and "query_sei im inp (inj_prev_pts ij) (t + 1) (app_queues a) = Inr (v, g)"
  shows "sei_injector_process im rescale grow pkt (ij, a) =
    ((frame_seen rescale pkt ij a i, a\<lparr>app_queues := g\<rparr>),
     (case bind_res (rebuild_packet im (pkt_data pkt) (map md_val (frame_resets ij i t @ v))) (fit_packet grow pkt) of
        Inl e \<Rightarrow> (pkt, catch_parse_error (Some e))
      | Inr pkt' \<Rightarrow> (pkt', Inr False)))"
  using assms
  by (simp add: sei_injector_process_def split_def Let_def frame_time_def [symmetric] frame_seen_def frame_resets_def
      eq_commute [of "Some i"] split: sum.splits)

lemma query_sei_nonempty: "query_sei im inp since until g = Inr (v, g') \<Longrightarrow> v \<noteq> []"
  by (auto simp: query_sei_def run_query_sei_def build_empty_sei_def bind_res_Inr_iff
      split: input_class.splits option.splits if_splits)


lemma sample_shaped:
  "shaped (pkt_data sample_packet) [[9, 0xF0]] (Some [RESET_SEI]) [[0x65, 0x88, 0x84]]"
proof -
  have "carries (6 # emit_sei_payload RESET_SEI) [RESET_SEI]" by (rule single_sei_carries [OF reset_wire])
  moreover from this have "ok_nalu (6 # emit_sei_payload RESET_SEI)" unfolding carries_def by (rule conjunct1)
  ultimately show ?thesis
    unfolding shaped_def
    by (intro exI [of _ "[6 # emit_sei_payload RESET_SEI]"])
      (simp add: sample_packet_def sample_nalus_def plain_nalu_def leading_def sample_types ok_nalu_def
        sei_nalu_def MAX_LENGTH_def)
qed

lemma sample_query:
  "get_current_input Sei_Kind (app_manager sample_app) = Inr (clear_input 0)"
  "query_sei im (clear_input 0) since until g = Inr ([build_cc_reset_metadata 0 (max since (until - 1))], g)"
  by (simp_all add: sample_app_def create_app_def sample_manager_def create_manager_def get_current_input_def
      get_current_input_id_def get_input_by_id_def clear_input_def default_input_spec_def user_defined_input_def
      query_sei_def run_query_sei_def)


text \<open>
  What a frame does to the shared state does not depend on the data of the packet: the entries of
  its window are consumed even when the packet cannot be rebuilt.
\<close>

lemma current_sei_input:
  assumes "manager_ok m"
  obtains inp where "get_current_input Sei_Kind m = Inr inp" and "is_id (in_spec inp) = im_sei m"
proof -
  from assms have "is_input_id_valid (im_sei m) m" by (simp add: manager_ok_def)
  then obtain inp where "get_input_by_id (im_sei m) m = Some inp" by (auto simp: valid_id_found)
  with found_id [OF assms this] that show ?thesis by (simp add: get_current_input_def get_current_input_id_def)
qed

lemma query_sei_release:
  assumes "\<not> asserts_on im"
  obtains v g' where "query_sei im inp since until g = Inr (v, g')"
proof (cases "in_class inp")
  case Clear_Input
  with that show ?thesis by (simp add: query_sei_def run_query_sei_def)
next
  case User_Defined_Input
  obtain out q where "pop_all im (is_id (in_spec inp)) since until [] (g_sei g) = Inr (out, q)"
    using pop_all_release [OF assms] by (metis obj_sumE surj_pair)
  with User_Defined_Input that show ?thesis
    by (simp add: query_sei_def run_query_sei_def group_pop_all_sei_def) (cases "out = []"; simp)
qed

lemma query_sei_queue:
  assumes "heap_group g" and "query_sei im inp since until g = Inr (v, g')"
  shows "heap_group g' \<and> g_scte g' = g_scte g \<and>
    (if in_class inp = Clear_Input then g' = g
     else mset (g_sei g') = filter_mset (\<lambda>x. until \<le> md_pts x) (mset (g_sei g)))"
proof (cases "in_class inp")
  case Clear_Input
  with assms show ?thesis by (auto simp: query_sei_def run_query_sei_def)
next
  case User_Defined_Input
  then obtain out q where p: "pop_all im (is_id (in_spec inp)) since until [] (g_sei g) = Inr (out, q)"
    and g': "g' = g\<lparr>g_sei := q\<rparr>"
    using assms(2) by (auto simp: query_sei_def run_query_sei_def group_pop_all_sei_def bind_res_Inr_iff split: if_splits)
  have "heap_queue (g_sei g)" using assms(1) by (simp add: heap_group_def)
  from pop_all_spec [OF this p] assms(1) User_Defined_Input show ?thesis by (auto simp: g' heap_group_def)
qed

text \<open>
  Whatever the data of a packet, the injector's step ends the window right behind the packet's
  time, leaves exactly the later entries queued for a user's input and all of them for the clear
  one, changes nothing but the data of the packet, and never lets a parse error out.
\<close>

theorem frame_consumes_its_window:
  assumes "get_current_input Sei_Kind (app_manager a) = Inr inp" and "heap_group (app_queues a)"
    and "\<not> asserts_on im" and "sei_injector_process im rescale grow pkt (ij, a) = ((ij', a'), pkt', r)"
  shows "ij' = frame_seen rescale pkt ij a (is_id (in_spec inp)) \<and>
    a' = a\<lparr>app_queues := app_queues a'\<rparr> \<and> heap_group (app_queues a') \<and>
    g_scte (app_queues a') = g_scte (app_queues a) \<and>
    (if in_class inp = Clear_Input then app_queues a' = app_queues a
     else mset (g_sei (app_queues a'))
       = filter_mset (\<lambda>x. frame_time rescale pkt ij a < md_pts x) (mset (g_sei (app_queues a)))) \<and>
    pkt' = pkt\<lparr>pkt_data := pkt_data pkt'\<rparr> \<and> r \<noteq> Inr True \<and> (\<forall>x c l. r \<noteq> Inl (Parse_Error x c l))"
proof -
  let ?t = "frame_time rescale pkt ij a"
  obtain v g where q: "query_sei im inp (inj_prev_pts ij) (?t + 1) (app_queues a) = Inr (v, g)"
    using query_sei_release [OF assms(3)] .
  let ?res = "bind_res (rebuild_packet im (pkt_data pkt)
    (map md_val (frame_resets ij (is_id (in_spec inp)) ?t @ v))) (fit_packet grow pkt)"
  have s: "ij' = frame_seen rescale pkt ij a (is_id (in_spec inp))" "a' = a\<lparr>app_queues := g\<rparr>"
    "(pkt', r) = (case ?res of Inl e \<Rightarrow> (pkt, catch_parse_error (Some e)) | Inr p \<Rightarrow> (p, Inr False))"
    using assms(4) sei_injector_process_answered [OF assms(1) refl refl q] by simp_all
  have "pkt' = pkt\<lparr>pkt_data := pkt_data pkt'\<rparr> \<and> r \<noteq> Inr True \<and> (\<forall>x c l. r \<noteq> Inl (Parse_Error x c l))"
    using s(3) by (auto simp: catch_parse_error_results fit_packet_def bind_res_Inr_iff split: sum.splits)
  moreover have "\<not> ?t + 1 \<le> md_pts x \<longleftrightarrow> \<not> ?t < md_pts x" for x :: "sei_payload metadata" by linarith
  then have "?t + 1 \<le> md_pts x \<longleftrightarrow> ?t < md_pts x" for x :: "sei_payload metadata" by blast
  ultimately show ?thesis using query_sei_queue [OF assms(2) q] by (simp add: s(1,2))
qed

lemma queues_empty_heap: "heap_group empty_queues"
  by (simp add: heap_group_def empty_queues_def is_heap_def)

theorem frame_consumes_its_window_witness:
  "snd (snd (sei_injector_process release_impl (\<lambda>t a b. t) (\<lambda>n. None) (sample_packet\<lparr>pkt_data := [0, 0]\<rparr>)
     (new_injector default_clock (1, 90000), sample_app))) \<noteq> Inr True"
proof -
  obtain ij' a' pkt' r where p: "sei_injector_process release_impl (\<lambda>t a b. t) (\<lambda>n. None)
      (sample_packet\<lparr>pkt_data := [0, 0]\<rparr>) (new_injector default_clock (1, 90000), sample_app) = ((ij', a'), pkt', r)"
    by (metis prod_cases3 surj_pair)
  have "\<not> asserts_on release_impl" "heap_group (app_queues sample_app)"
    by (simp_all add: release_impl_def sample_app_def create_app_def queues_empty_heap)
  with frame_consumes_its_window [OF sample_query(1) _ _ p] show ?thesis by (simp add: p)
qed

text \<open>
  When a packet of the output cannot be parsed it passes unchanged, and the captions of its
  window are lost: they are gone from the queue.
\<close>

theorem unreadable_frame_loses_captions:
  assumes "get_current_input Sei_Kind (app_manager a) = Inr inp" and "in_class inp = User_Defined_Input"
    and "\<not> asserts_on im" and "collect_nalus im (pkt_data pkt) = Inl (Parse_Error x c l)"
    and "heap_group (app_queues a)" and "e \<in># mset (g_sei (app_queues a))"
    and "md_pts e \<le> frame_time rescale pkt ij a"
    and "sei_injector_process im rescale grow pkt (ij, a) = ((ij', a'), pkt', r)"
  shows "pkt' = pkt \<and> r = Inr False \<and> e \<notin># mset (g_sei (app_queues a'))"
proof -
  let ?t = "frame_time rescale pkt ij a"
  obtain v g where q: "query_sei im inp (inj_prev_pts ij) (?t + 1) (app_queues a) = Inr (v, g)"
    using query_sei_release [OF assms(3)] .
  have s: "a' = a\<lparr>app_queues := g\<rparr>" "pkt' = pkt" "r = Inr False"
    using assms(8) sei_injector_process_answered [OF assms(1) refl refl q]
    by (simp_all add: rebuild_packet_def assms(4))
  have "mset (g_sei g) = filter_mset (\<lambda>x. ?t + 1 \<le> md_pts x) (mset (g_sei (app_queues a)))"
    using query_sei_queue [OF assms(5) q] assms(2) by simp
  then have "e \<in># mset (g_sei g) \<Longrightarrow> ?t + 1 \<le> md_pts e" by simp
  with assms(7) s show ?thesis by fastforce
qed

lemma user_sample:
  "get_current_input Sei_Kind (sample_manager\<lparr>im_sei := 1\<rparr>) = Inr (user_defined_input
     (default_input_spec\<lparr>is_id := 1, is_name := ''a'', is_source := ''s'', is_sink := ''t''\<rparr>))"
  by (simp add: sample_manager_def create_manager_def get_current_input_def
      get_current_input_id_def get_input_by_id_def clear_input_def default_input_spec_def user_defined_input_def)

lemma two_bytes_unreadable: "\<exists>x c l. collect_nalus im [0, 0] = Inl (Parse_Error x c l)"
  by (simp add: collect_nalus_def parse_each_def parser_shift_def parser_next_def nalu_parser_next_def
      next_avcc_bounds_def has_next_def unread_def parse_fail_def)

theorem unreadable_frame_loses_captions_witness:
  "\<exists>s. sei_injector_process release_impl (\<lambda>t a b. t) (\<lambda>n. None) (sample_packet\<lparr>pkt_data := [0, 0]\<rparr>)
     (new_injector default_clock (1, 90000), sample_app\<lparr>app_manager := sample_manager\<lparr>im_sei := 1\<rparr>,
        app_queues := empty_queues\<lparr>g_sei := [sample_entry 1 0 0]\<rparr>\<rparr>)
     = (s, sample_packet\<lparr>pkt_data := [0, 0]\<rparr>, Inr False) \<and> sample_entry 1 0 0 \<notin> set (g_sei (app_queues (snd s)))"
proof -
  let ?pkt = "sample_packet\<lparr>pkt_data := [0, 0]\<rparr>"
  let ?a = "sample_app\<lparr>app_manager := sample_manager\<lparr>im_sei := 1\<rparr>, app_queues := empty_queues\<lparr>g_sei := [sample_entry 1 0 0]\<rparr>\<rparr>"
  let ?ij = "new_injector default_clock (1, 90000)"
  obtain ij' a' pkt' r where p: "sei_injector_process release_impl (\<lambda>t a b. t) (\<lambda>n. None) ?pkt (?ij, ?a)
      = ((ij', a'), pkt', r)" by (metis prod_cases3 surj_pair)
  obtain x c l where "collect_nalus release_impl (pkt_data ?pkt) = Inl (Parse_Error x c l)"
    using two_bytes_unreadable [of release_impl] by simp blast
  moreover have "heap_group (app_queues ?a)" by (simp add: heap_group_def empty_queues_def) code_simp
  moreover have g: "get_current_input Sei_Kind (app_manager ?a) = Inr (user_defined_input
     (default_input_spec\<lparr>is_id := 1, is_name := ''a'', is_source := ''s'', is_sink := ''t''\<rparr>))"
    by (simp add: user_sample)
  moreover have t: "frame_time (\<lambda>t a b. t) ?pkt ?ij ?a = 0"
    by (simp add: frame_time_def rescale_to_clock_def new_injector_def clock_relative_def clock_now_def
        default_clock_def sample_app_def create_app_def)
  ultimately have "pkt' = ?pkt \<and> r = Inr False \<and> sample_entry 1 0 0 \<notin># mset (g_sei (app_queues a'))"
    using unreadable_frame_loses_captions [OF g _ _ _ _ _ _ p, of x c l "sample_entry 1 0 0"]
    by (simp add: user_defined_input_def release_impl_def empty_queues_def sample_entry_def)
  then show ?thesis by (auto simp: p)
qed

section \<open>From the input to the output\<close>

lemma pop_single: "pop_any_impl [e] = (e, [])"
  by (simp add: pop_any_impl_def pop_heap_def)

lemma pop_all_single:
  assumes "matches i since until e"
  shows "pop_all im i since until [] [e] = Inr ([e], [])"
proof -
  have "pop_impl im i since until [e] = Inr (Some e, [])"
    using assms by (simp add: pop_impl.simps pop_single drop_colliding.simps matches_def)
  then show ?thesis
    by (simp add: pop_all.simps [of im i since until "[]" "[e]"] pop_all.simps [of im i since until "[e]" "[]"]
        pop_impl.simps [of im i since until "[]"])
qed

text \<open>What one caption leaves in an empty queue.\<close>

lemma one_caption_queued:
  assumes "list_all2 carries nalus seiss" and "pkt_data src = concat (map avcc_nalu nalus)"
    and "filter is_caption (concat seiss) = [sei]"
    and "sei_extractor_process im rescale tb src (ex, inp, empty_queues) = ((ex', inp', g), r)"
  shows "g_sei g = [\<lparr>md_input_id = is_id (in_spec inp), md_pts = clock_pts rescale tb src ex,
    md_dts = clock_dts rescale tb src ex, md_order = 0, md_val = sei\<rparr>]"
proof -
  have "extracted rescale tb src (ex, inp, empty_queues) [sei] = (ex', inp', g)"
    using assms(4) by (simp add: sei_extractor_process_put [OF assms(1,2)] assms(3))
  from extracted_queued [OF this] show ?thesis by (simp add: empty_queues_def)
qed



text \<open>
  On the first frame after a switch to the clear input there are two reset entries, the injector's
  own and the answer to its query, and with them a stop byte inside the NALU.
\<close>

lemma two_resets_sodb:
  "copy_ebsp_to_sodb (6 # emit_sei_payload RESET_SEI @ emit_sei_payload RESET_SEI)
   = Inr (6 # (4 # 65 # sei_data RESET_SEI) @ [0x80] @ (4 # 65 # sei_data RESET_SEI))"
  by code_simp

lemma two_resets_parsed:
  "map_option (\<lambda>(seis, e). e) (parse_each sample_impl sei_parser_next (sei_parser_pack sample_impl)
     (\<lambda>x xs. (xs @ [x], None)) ((4 # 65 # sei_data RESET_SEI) @ [0x80] @ (4 # 65 # sei_data RESET_SEI)) [])
   = Some (Some (Parse_Error Malformed_Sei 73 62))"
  by code_simp

lemma two_resets_unreadable:
  "\<not> carries (6 # emit_sei_payload RESET_SEI @ emit_sei_payload RESET_SEI) seis"
proof
  have n: "sei_nalu (6 # emit_sei_payload RESET_SEI @ emit_sei_payload RESET_SEI)"
    by (simp add: sei_nalu_def sample_types)
  assume "carries (6 # emit_sei_payload RESET_SEI @ emit_sei_payload RESET_SEI) seis"
  then have ok: "list_all ok_sei seis"
    and c: "concat (map sei_message seis) = (4 # 65 # sei_data RESET_SEI) @ [0x80] @ (4 # 65 # sei_data RESET_SEI)"
    using n two_resets_sodb by (simp_all add: carries_def)
  have "run_body (\<lambda>x xs. (xs @ [x], None)) seis acc = (acc @ seis, None)" for acc
    by (induction seis arbitrary: acc) simp_all
  with sei_codec.parse_each_put [OF ok, of sample_impl "\<lambda>x xs. (xs @ [x], None)" "[]"] two_resets_parsed
  show False by (simp add: c)
qed

text \<open>
  On the first frame after a switch to the clear input the SEI NALU holds two resets and does
  not read back as any list of payloads.
\<close>

theorem switching_frame_not_readable:
  assumes "get_current_input Sei_Kind (app_manager a) = Inr inp" and "in_class inp = Clear_Input"
    and "inj_prev_input_id ij \<noteq> Some (is_id (in_spec inp))"
    and "shaped (pkt_data pkt) lead seis rest" and "kept_seis seis = []"
  shows "\<exists>s. sei_injector_process im rescale (\<lambda>n. None) pkt (ij, a) =
      (s, pkt\<lparr>pkt_data := concat (map avcc_nalu
        (lead @ [6 # emit_sei_payload RESET_SEI @ emit_sei_payload RESET_SEI] @ rest))\<rparr>, Inr False) \<and>
    \<not> carries (6 # emit_sei_payload RESET_SEI @ emit_sei_payload RESET_SEI) seis'"
proof -
  let ?t = "frame_time rescale pkt ij a" and ?i = "is_id (in_spec inp)"
  let ?v = "[build_cc_reset_metadata ?i (max (inj_prev_pts ij) ?t)]"
  have q: "query_sei im inp (inj_prev_pts ij) (?t + 1) (app_queues a) = Inr (?v, app_queues a)"
    by (simp add: query_sei_def run_query_sei_def assms(2))
  have f: "[RESET_SEI, RESET_SEI] = map md_val (frame_resets ij ?i ?t @ ?v)"
    using assms(3) by (simp add: frame_resets_def build_cc_reset_metadata_def)
  have rp: "rebuild_packet im (pkt_data pkt) (map md_val (frame_resets ij ?i ?t @ ?v))
      = Inr (concat (map avcc_nalu (lead @ [6 # emit_sei_payload RESET_SEI @ emit_sei_payload RESET_SEI] @ rest)))"
    using rebuild_packet_shaped [OF assms(4), of "[RESET_SEI, RESET_SEI]" im]
    unfolding f [symmetric] by (simp add: assms(5) reset_wire)
  show ?thesis
    using sei_injector_process_answered [OF assms(1) refl refl q, of "\<lambda>n. None"] two_resets_unreadable
    by (simp add: rp fit_packet_def del: map_append concat_append)
qed

theorem switching_frame_not_readable_witness:
  "\<exists>s. sei_injector_process sample_impl (\<lambda>t a b. t) (\<lambda>n. None) sample_packet
      (new_injector default_clock (1, 90000), sample_app) =
      (s, sample_packet\<lparr>pkt_data := concat (map avcc_nalu
        ([[9, 0xF0]] @ [6 # emit_sei_payload RESET_SEI @ emit_sei_payload RESET_SEI] @ [[0x65, 0x88, 0x84]]))\<rparr>, Inr False)"
proof -
  have "kept_seis (Some [RESET_SEI]) = []" by (simp add: kept_seis_def is_caption_def RESET_SEI_def)
  moreover have "in_class (clear_input 0) = Clear_Input" by (simp add: clear_input_def)
  moreover have "inj_prev_input_id (new_injector default_clock (1, 90000)) \<noteq> Some (is_id (in_spec (clear_input 0)))"
    by (simp add: new_injector_def)
  ultimately show ?thesis
    using switching_frame_not_readable [OF sample_query(1) _ _ sample_shaped] by blast
qed

end
