(* ===== verification/Threads.thy ===== *)
theory Threads
  imports Handles Injector
begin

text \<open>
  The functions that the threads of the program run, \<^verbatim>\<open>extractor\<close> and
  \<^verbatim>\<open>injector\<close> of \<^verbatim>\<open>src/proc\<close>, and the supervisor that restarts
  them, \<^verbatim>\<open>src/supervisor.h\<close>.  One call is modelled as running alone;
  \<^verbatim>\<open>System\<close> splits it into the steps that can be interleaved with those of other
  threads.
\<close>

section \<open>An input\<close>

record input_thread =
  xt_sei :: extractor
  xt_scte :: extractor
  xt_app :: app

definition maintenance_stage :: "input_id \<Rightarrow> input_thread processor" where
  "maintenance_stage i pkt s = (case get_input_by_id i (app_manager (xt_app s)) of
      None \<Rightarrow> (s, pkt, Inl Range_Violation)
    | Some inp \<Rightarrow> (s, pkt, maintenance_process inp))"

definition store_extraction :: "input_id \<Rightarrow> input \<Rightarrow> meta_queues \<Rightarrow> app \<Rightarrow> app" where
  "store_extraction i inp g a = a\<lparr>app_queues := g, app_manager := update_input i (\<lambda>_. inp) (app_manager a)\<rparr>"

definition sei_stage :: "cpp_impl \<Rightarrow> rescaling \<Rightarrow> input_id \<Rightarrow> input_thread processor" where
  "sei_stage im rescale i pkt s = (let a = xt_app s in
     case get_input_by_id i (app_manager a) of
       None \<Rightarrow> (s, pkt, Inl Range_Violation)
     | Some inp \<Rightarrow>
         (let ((ex, inp, g), r) = sei_extractor_process im rescale (c_time_base (app_clock a)) pkt (xt_sei s, inp, app_queues a)
          in (s\<lparr>xt_sei := ex, xt_app := store_extraction i inp g a\<rparr>, pkt, r)))"

definition scte_stage :: "cpp_impl \<Rightarrow> rescaling \<Rightarrow> input_id \<Rightarrow> input_thread processor" where
  "scte_stage im rescale i pkt s = (let a = xt_app s in
     case get_input_by_id i (app_manager a) of
       None \<Rightarrow> (s, pkt, Inl Range_Violation)
     | Some inp \<Rightarrow>
         (let ((ex, inp, g), r) = scte_extractor_process im rescale (c_time_base (app_clock a)) pkt (xt_scte s, inp, app_queues a)
          in (s\<lparr>xt_scte := ex, xt_app := store_extraction i inp g a\<rparr>, pkt, r)))"

definition extractor_factories :: "cpp_impl \<Rightarrow> rescaling \<Rightarrow> input_id \<Rightarrow> (kind \<times> input_thread factory) list" where
  "extractor_factories im rescale i =
     [(Time_Source_Kind, \<lambda>tb s. (s, maintenance_stage i)),
      (Sei_Kind, \<lambda>tb s. (s\<lparr>xt_sei := new_extractor (app_clock (xt_app s)) tb\<rparr>, sei_stage im rescale i)),
      (Scte_Kind, \<lambda>tb s. (s\<lparr>xt_scte := new_extractor (app_clock (xt_app s)) tb\<rparr>, scte_stage im rescale i))]"

text \<open>
  The processors' own state is set when they are made; before that it is not used.  A name without
  an input is an empty optional that is dereferenced, and an input of another class ends the
  program: the cast throws inside a function that must not.
\<close>

definition extractor_thread ::
  "cpp_impl \<Rightarrow> rescaling \<Rightarrow> 'w av_env \<Rightarrow> string \<Rightarrow> 'w \<times> app \<Rightarrow> (('w \<times> app) \<times> unit result) option" where
  "extractor_thread im rescale env input_name s = (let (w, a) = s in
     case get_input_by_name input_name (app_manager a) of
       None \<Rightarrow> Some ((w, a), Inl Range_Violation)
     | Some inp \<Rightarrow>
         if in_class inp \<noteq> User_Defined_Input then Some ((w, a), Inl Assertion_Failed)
         else (let spec = in_spec inp; i = is_id spec;
                   a = a\<lparr>app_manager := update_input i (set_restart_scheduled False) (app_manager a)\<rparr>;
                   ex = new_extractor (app_clock a) (1, 1)
               in case run_stream im env (is_source spec) (is_sink spec) (is_source_format spec) (is_sink_format spec)
                    (extractor_factories im rescale i) w \<lparr>xt_sei = ex, xt_scte = ex, xt_app = a\<rparr> of
                  None \<Rightarrow> None
                | Some (w, s, r) \<Rightarrow> (let a = xt_app s in
                    Some ((w, a\<lparr>app_queues := post_exit spec (app_clock a) (app_queues a)\<rparr>), r))))"

section \<open>The output\<close>

record output_thread =
  ot_ticker :: clock_ticker
  ot_injector :: injector
  ot_app :: app

definition ticker_stage :: "rescaling \<Rightarrow> output_thread processor" where
  "ticker_stage rescale pkt s =
     (let (ct, c) = clock_ticker_process rescale (pkt_pts pkt) (ot_ticker s, app_clock (ot_app s))
      in (s\<lparr>ot_ticker := ct, ot_app := (ot_app s)\<lparr>app_clock := c\<rparr>\<rparr>, pkt, Inr False))"

definition injector_stage ::
  "cpp_impl \<Rightarrow> rescaling \<Rightarrow> (nat \<Rightarrow> cpp_error option) \<Rightarrow> output_thread processor" where
  "injector_stage im rescale grow pkt s =
     (let ((ij, a), pkt, r) = sei_injector_process im rescale grow pkt (ot_injector s, ot_app s)
      in (s\<lparr>ot_injector := ij, ot_app := a\<rparr>, pkt, r))"

definition injector_factories ::
  "cpp_impl \<Rightarrow> rescaling \<Rightarrow> (nat \<Rightarrow> cpp_error option) \<Rightarrow> (kind \<times> output_thread factory) list" where
  "injector_factories im rescale grow =
     [(Time_Source_Kind, \<lambda>tb s. (s\<lparr>ot_ticker := new_clock_ticker (app_clock (ot_app s)) tb\<rparr>, ticker_stage rescale)),
      (Sei_Kind, \<lambda>tb s. (s\<lparr>ot_injector := new_injector (app_clock (ot_app s)) tb\<rparr>, injector_stage im rescale grow)),
      (Scte_Kind, null_processor)]"

definition injector_thread ::
  "cpp_impl \<Rightarrow> rescaling \<Rightarrow> (nat \<Rightarrow> cpp_error option) \<Rightarrow> 'w av_env \<Rightarrow> output_spec \<Rightarrow> 'w \<times> app
    \<Rightarrow> (('w \<times> app) \<times> unit result) option" where
  "injector_thread im rescale grow env spec s = (let (w, a) = s in
     case run_stream im env (os_source spec) (os_sink spec) (os_source_format spec) (os_sink_format spec)
       (injector_factories im rescale grow) w
       \<lparr>ot_ticker = new_clock_ticker (app_clock a) (1, 1), ot_injector = new_injector (app_clock a) (1, 1), ot_app = a\<rparr> of
       None \<Rightarrow> None
     | Some (w, s, r) \<Rightarrow> Some ((w, ot_app s), r))"

section \<open>The supervisor\<close>

text \<open>An abort or undefined behaviour is not an exception; everything else is caught.\<close>

definition aborts :: "unit result \<Rightarrow> bool" where
  "aborts r \<longleftrightarrow> r = Inl Assertion_Failed \<or> r = Inl Range_Violation"

partial_function (option) supervised ::
  "('st \<Rightarrow> ('st \<times> unit result) option) \<Rightarrow> bool \<Rightarrow> 'st \<Rightarrow> ('st \<times> unit result) option" where
  "supervised f restart s = (case f s of
      None \<Rightarrow> None
    | Some (s, r) \<Rightarrow> if aborts r then Some (s, r) else if restart then supervised f restart s else Some (s, Inr ()))"

section \<open>Properties\<close>

lemma run_stream_procs:
  assumes "\<And>k f tb s s' p. P s \<Longrightarrow> (k, f) \<in> set factories \<Longrightarrow> f tb s = (s', p) \<Longrightarrow> P s'"
    and "\<And>k f tb t s pkt s' p t' pkt' r. (k, f) \<in> set factories \<Longrightarrow> f tb t = (t', p) \<Longrightarrow>
       P s \<Longrightarrow> p pkt s = (s', pkt', r) \<Longrightarrow> P s'"
    and "run_stream im env src snk sf kf factories w s = Some (w', s', r)" and "P s"
  shows "P s'"
proof -
  consider "s' = s" | sc w1 st where "remux_loop im (env_io env) sc factories w1 s = Some (st, r)" "s' = rx_procs st"
    using assms(3) by (auto simp: run_stream_def split: prod.splits sum.splits option.splits)
  then show ?thesis
  proof cases
    case 2
    show ?thesis
      unfolding 2(2)
      using remux_loop_procs [where P = P and factories = factories, OF assms(1,2) 2(1) assms(4)] .
  qed (simp add: assms(4))
qed

lemma supervised_returns:
  assumes "supervised f b s = Some y"
  shows "(\<forall>s s' r. f s = Some (s', r) \<longrightarrow> \<not> aborts r) \<longrightarrow> \<not> b"
proof (rule supervised.raw_induct [OF _ assms])
  fix sup :: "('a \<Rightarrow> ('a \<times> unit result) option) \<Rightarrow> bool \<Rightarrow> 'a \<Rightarrow> ('a \<times> unit result) option"
    and f :: "'a \<Rightarrow> ('a \<times> unit result) option" and b s y
  assume ih: "\<And>f b s y. sup f b s = Some y \<Longrightarrow> (\<forall>s s' r. f s = Some (s', r) \<longrightarrow> \<not> aborts r) \<longrightarrow> \<not> b"
    and y: "(case f s of None \<Rightarrow> None
      | Some (s, r) \<Rightarrow> if aborts r then Some (s, r) else if b then sup f b s else Some (s, Inr ())) = Some y"
  show "(\<forall>s s' r. f s = Some (s', r) \<longrightarrow> \<not> aborts r) \<longrightarrow> \<not> b"
  proof (intro impI notI)
    assume k: "\<forall>s s' r. f s = Some (s', r) \<longrightarrow> \<not> aborts r" and b
    from y obtain s1 r where "f s = Some (s1, r)" by (auto split: option.splits)
    with k y \<open>b\<close> have "sup f b s1 = Some y" by (auto split: if_splits)
    from ih [OF this] k \<open>b\<close> show False by blast
  qed
qed

text \<open>
  With restarting on a supervised thread never returns, and with it off it returns normally
  after one call, whatever exception that call throws.
\<close>

theorem supervised_thread_never_returns:
  assumes "\<And>s s' r. f s = Some (s', r) \<Longrightarrow> \<not> aborts r"
  shows "supervised f True s = None \<and>
    supervised f False s = (case f s of None \<Rightarrow> None | Some (s', r) \<Rightarrow> Some (s', Inr ()))"
proof
  show "supervised f True s = None"
    using supervised_returns [of f True s] assms by (cases "supervised f True s") auto
  show "supervised f False s = (case f s of None \<Rightarrow> None | Some (s', r) \<Rightarrow> Some (s', Inr ()))"
    using assms by (auto simp: supervised.simps [of f False s] split: option.splits)
qed

theorem supervised_thread_never_returns_witness:
  "supervised (\<lambda>n. Some (n + 1, Inl (Runtime_Error ''Could not open source stream''))) True (0 :: int) = None"
  using supervised_thread_never_returns [of "\<lambda>n. Some (n + 1, Inl (Runtime_Error ''Could not open source stream''))" "0 :: int"]
  by (simp add: aborts_def)

section \<open>What a thread changes\<close>

text \<open>The part of the application that an input may not touch.\<close>

definition input_frame :: "app \<Rightarrow> app \<Rightarrow> bool" where
  "input_frame a b \<longleftrightarrow> app_clock b = app_clock a \<and> app_running b = app_running a \<and>
     app_ts_adjustment b = app_ts_adjustment a \<and> im_sei (app_manager b) = im_sei (app_manager a) \<and>
     im_scte (app_manager b) = im_scte (app_manager a) \<and> manager_ok (app_manager b)"

lemma store_extraction_frame:
  assumes "manager_ok (app_manager a)" and "is_id (in_spec inp) = i"
  shows "input_frame a (store_extraction i inp g a)"
  using update_input_ok [OF assms(1), of i "\<lambda>_. inp"] assms
  by (simp add: input_frame_def store_extraction_def update_input_def)

lemma input_frame_trans: "input_frame a b \<Longrightarrow> input_frame b c \<Longrightarrow> input_frame a c"
  by (simp add: input_frame_def)

lemma extraction_stage_frame:
  assumes "manager_ok (app_manager (xt_app s))"
  shows "sei_stage im rescale i pkt s = (s', pkt', r) \<Longrightarrow> input_frame (xt_app s) (xt_app s')"
    and "scte_stage im rescale i pkt s = (s', pkt', r) \<Longrightarrow> input_frame (xt_app s) (xt_app s')"
    and "maintenance_stage i pkt s = (s', pkt', r) \<Longrightarrow> input_frame (xt_app s) (xt_app s')"
proof -
  let ?a = "xt_app s"
  have refl: "input_frame ?a ?a" using assms by (simp add: input_frame_def)
  show "input_frame ?a (xt_app s')" if "sei_stage im rescale i pkt s = (s', pkt', r)"
  proof (cases "get_input_by_id i (app_manager ?a)")
    case (Some inp)
    obtain ex inp' g r' where e: "sei_extractor_process im rescale (c_time_base (app_clock ?a)) pkt (xt_sei s, inp, app_queues ?a)
        = ((ex, inp', g), r')" by (metis prod_cases3 surj_pair)
    from sei_extractor_process_any [OF e] found_id [OF assms Some] have "is_id (in_spec inp') = i" by simp
    from store_extraction_frame [OF assms this, of g] that Some e show ?thesis by (auto simp: sei_stage_def)
  qed (use that refl in \<open>auto simp: sei_stage_def\<close>)
  show "input_frame ?a (xt_app s')" if "scte_stage im rescale i pkt s = (s', pkt', r)"
  proof (cases "get_input_by_id i (app_manager ?a)")
    case (Some inp)
    obtain ex inp' g r' where e: "scte_extractor_process im rescale (c_time_base (app_clock ?a)) pkt (xt_scte s, inp, app_queues ?a)
        = ((ex, inp', g), r')" by (metis prod_cases3 surj_pair)
    from scte_extractor_process_any [OF e] found_id [OF assms Some] have "is_id (in_spec inp') = i" by simp
    from store_extraction_frame [OF assms this, of g] that Some e show ?thesis by (auto simp: scte_stage_def)
  qed (use that refl in \<open>auto simp: scte_stage_def\<close>)
  show "input_frame ?a (xt_app s')" if "maintenance_stage i pkt s = (s', pkt', r)"
    using that refl by (auto simp: maintenance_stage_def split: option.splits)
qed

lemma extractor_run_frame:
  assumes "run_stream im env src snk sf kf (extractor_factories im rescale i) w s = Some (w', s', r)"
    and "manager_ok (app_manager (xt_app s))"
  shows "input_frame (xt_app s) (xt_app s')"
proof (rule run_stream_procs [OF _ _ assms(1), where P = "\<lambda>s'. input_frame (xt_app s) (xt_app s')"])
  show "input_frame (xt_app s) (xt_app s)" using assms(2) by (simp add: input_frame_def)
next
  fix k f tb s1 s2 p
  assume "input_frame (xt_app s) (xt_app s1)" "(k, f) \<in> set (extractor_factories im rescale i)" "f tb s1 = (s2, p)"
  then show "input_frame (xt_app s) (xt_app s2)" by (auto simp: extractor_factories_def)
next
  fix k f tb t s1 pkt s2 p t' pkt' r
  assume f: "(k, f) \<in> set (extractor_factories im rescale i)" "f tb t = (t', p)"
    and s1: "input_frame (xt_app s) (xt_app s1)" and p: "p pkt s1 = (s2, pkt', r)"
  have m: "manager_ok (app_manager (xt_app s1))" using s1 by (simp add: input_frame_def)
  from f have "p = maintenance_stage i \<or> p = sei_stage im rescale i \<or> p = scte_stage im rescale i"
    by (auto simp: extractor_factories_def)
  with p extraction_stage_frame [OF m] have "input_frame (xt_app s1) (xt_app s2)" by blast
  with s1 show "input_frame (xt_app s) (xt_app s2)" by (rule input_frame_trans)
qed

lemma restart_cleared_frame:
  "manager_ok (app_manager a) \<Longrightarrow>
   input_frame a (a\<lparr>app_manager := update_input i (set_restart_scheduled b) (app_manager a)\<rparr>)"
  using update_input_ok [of "app_manager a" i "set_restart_scheduled b"]
  by (simp add: input_frame_def set_restart_scheduled_def update_input_def)

lemma extractor_thread_cases:
  assumes "get_input_by_name name (app_manager a) = Some inp" and "in_class inp = User_Defined_Input"
    and "extractor_thread im rescale env name (w, a) = Some ((w', a'), r)"
  obtains s s' where "run_stream im env (is_source (in_spec inp)) (is_sink (in_spec inp)) (is_source_format (in_spec inp))
      (is_sink_format (in_spec inp)) (extractor_factories im rescale (is_id (in_spec inp))) w s = Some (w', s', r)"
    and "xt_app s = a\<lparr>app_manager := update_input (is_id (in_spec inp)) (set_restart_scheduled False) (app_manager a)\<rparr>"
    and "a' = (xt_app s')\<lparr>app_queues := post_exit (in_spec inp) (app_clock (xt_app s')) (app_queues (xt_app s'))\<rparr>"
  using assms(3) by (auto simp: extractor_thread_def assms(1,2) Let_def split: option.splits prod.splits)

lemma post_exit_entries:
  "filter_mset (\<lambda>x. md_input_id x = is_id spec) (mset (g_sei (post_exit spec c g)))
     = {#build_cc_reset_metadata (is_id spec) (clock_now c + 1)#}"
  "filter_mset (\<lambda>x. md_input_id x = is_id spec) (mset (g_scte (post_exit spec c g))) = {#}"
  by (simp_all add: post_exit_def group_push_sei_def mq_push_def mq.push_mset group_drop_id_def mq_drop_id_def Let_def
      build_cc_reset_metadata_def flip: mset_filter)

text \<open>
  C23: However an input's thread ends, by the end of its stream, a restart or any exception, of
  the input's metadata only one reset for the next tick of the clock is left, the inputs stay
  well formed and the current inputs, the clock and the settings are as before.
\<close>

theorem ended_input_leaves_reset:
  assumes "get_input_by_name name (app_manager a) = Some inp" and "in_class inp = User_Defined_Input"
    and "manager_ok (app_manager a)" and "i = is_id (in_spec inp)"
    and "extractor_thread im rescale env name (w, a) = Some ((w', a'), r)"
  shows "filter_mset (\<lambda>x. md_input_id x = i) (mset (g_sei (app_queues a')))
      = {#build_cc_reset_metadata i (clock_now (app_clock a) + 1)#} \<and>
    filter_mset (\<lambda>x. md_input_id x = i) (mset (g_scte (app_queues a'))) = {#} \<and> input_frame a a'"
proof -
  obtain s s' where run: "run_stream im env (is_source (in_spec inp)) (is_sink (in_spec inp)) (is_source_format (in_spec inp))
      (is_sink_format (in_spec inp)) (extractor_factories im rescale (is_id (in_spec inp))) w s = Some (w', s', r)"
    and s: "xt_app s = a\<lparr>app_manager := update_input (is_id (in_spec inp)) (set_restart_scheduled False) (app_manager a)\<rparr>"
    and a': "a' = (xt_app s')\<lparr>app_queues := post_exit (in_spec inp) (app_clock (xt_app s')) (app_queues (xt_app s'))\<rparr>"
    using extractor_thread_cases [OF assms(1,2,5)] .
  have f: "input_frame a (xt_app s)" unfolding s using assms(3) by (rule restart_cleared_frame)
  then have "input_frame (xt_app s) (xt_app s')"
    using extractor_run_frame [OF run] by (simp add: input_frame_def)
  with f have "input_frame a (xt_app s')" by (rule input_frame_trans)
  then show ?thesis using post_exit_entries [of "in_spec inp"] by (auto simp: a' assms(4) input_frame_def)
qed

definition sample_env :: "list_io av_env" where
  "sample_env = \<lparr>env_io = list_io, env_find_input_format = (\<lambda>_. True), env_open_input = (\<lambda>_ _ w. (0, w)),
     env_find_stream_info = (\<lambda>w. (0, w)), env_alloc_output = (\<lambda>_ _ w. (0, w)), env_needs_file = (\<lambda>_. False),
     env_avio_open = (\<lambda>_ w. (0, w)), env_new_stream = (\<lambda>w. (True, w)), env_copy_parameters = (\<lambda>_ w. (0, w)),
     env_write_header = (\<lambda>w. (0, w)), env_write_trailer = (\<lambda>w. w), env_demuxers = [], env_muxers = [],
     env_best_stream = (\<lambda>_. - 1),
     env_source_context = (\<lambda>w. \<lparr>fc_streams = li_streams w, fc_iformat = None, fc_oformat = None\<rparr>)\<rparr>"

definition empty_list_io :: list_io where
  "empty_list_io = \<lparr>li_source = [], li_streams = [], li_sinks = [], li_written = []\<rparr>"

lemma sample_user:
  "get_input_by_name ''a'' (app_manager sample_app) = Some (user_defined_input
     (default_input_spec\<lparr>is_id := 1, is_name := ''a'', is_source := ''s'', is_sink := ''t''\<rparr>))"
  "manager_ok (app_manager sample_app)"
  using reachable_manager_ok [OF sample_manager_reachable]
  by (simp_all add: sample_app_def create_app_def)
    (simp add: sample_manager_def create_manager_def get_input_by_name_def clear_input_def clear_input_name_def
      user_defined_input_def)

lemma extractor_thread_some:
  assumes "\<And>src snk sf kf fs w s. \<exists>w' s' r. run_stream im env src snk sf kf (fs :: (kind \<times> input_thread factory) list) w s = Some (w', s', r)"
  shows "\<exists>w' a' r. extractor_thread im rescale env name (w, a) = Some ((w', a'), r)"
proof (cases "get_input_by_name name (app_manager a)")
  case (Some inp)
  let ?spec = "in_spec inp" and ?ex = "new_extractor (app_clock a) (1, 1)"
  let ?a = "a\<lparr>app_manager := update_input (is_id (in_spec inp)) (set_restart_scheduled False) (app_manager a)\<rparr>"
  obtain w' s' r where "run_stream im env (is_source ?spec) (is_sink ?spec) (is_source_format ?spec) (is_sink_format ?spec)
      (extractor_factories im rescale (is_id ?spec)) w \<lparr>xt_sei = ?ex, xt_scte = ?ex, xt_app = ?a\<rparr> = Some (w', s', r)"
    using assms by blast
  then show ?thesis using Some by (simp add: extractor_thread_def Let_def)
qed (simp add: extractor_thread_def)

lemma run_stream_some:
  assumes "\<And>sc w. \<exists>st r. remux_loop im (env_io env) sc factories w s = Some (st, r)"
  shows "\<exists>w' s' r. run_stream im env src snk sf kf factories w s = Some (w', s', r)"
proof -
  obtain r1 w1 where o: "open_streams env src snk sf kf w = (r1, w1)" by (cases "open_streams env src snk sf kf w")
  show ?thesis
  proof (cases r1)
    case (Inr sc)
    obtain r2 w2 t where st: "sink_start env (w1, False) = (r2, w2, t)" by (metis prod_cases3)
    obtain st' r where "remux_loop im (env_io env) sc factories w2 s = Some (st', r)" using assms by blast
    with o Inr st show ?thesis by (cases r2) (simp_all add: run_stream_def)
  qed (simp add: run_stream_def o)
qed

lemma sample_thread_some: "\<exists>w' a' r. extractor_thread im rescale sample_env name (w, a) = Some ((w', a'), r)"
proof (intro extractor_thread_some run_stream_some)
  show "\<exists>st r. remux_loop im (env_io sample_env) sc factories w s = Some (st, r)"
    for sc and factories :: "(kind \<times> input_thread factory) list" and w s
    unfolding sample_env_def av_env.simps
    by (rule remux_loop_returns [of list_io "\<lambda>w. length (li_source w)"]) (rule list_io_left, assumption?)+
qed

theorem ended_input_leaves_reset_witness:
  "\<exists>w a r. extractor_thread sample_impl (\<lambda>t a b. t) sample_env ''a''
      (empty_list_io, sample_app\<lparr>app_queues := empty_queues\<lparr>g_sei := [sample_entry 1 7 0]\<rparr>\<rparr>) = Some ((w, a), r) \<and>
    filter_mset (\<lambda>x. md_input_id x = 1) (mset (g_sei (app_queues a))) = {#build_cc_reset_metadata 1 1#}"
proof -
  let ?a = "sample_app\<lparr>app_queues := empty_queues\<lparr>g_sei := [sample_entry 1 7 0]\<rparr>\<rparr>"
  let ?inp = "user_defined_input (default_input_spec\<lparr>is_id := 1, is_name := ''a'', is_source := ''s'', is_sink := ''t''\<rparr>)"
  have n: "get_input_by_name ''a'' (app_manager ?a) = Some ?inp" "manager_ok (app_manager ?a)" using sample_user by simp_all
  have c: "in_class ?inp = User_Defined_Input" "1 = is_id (in_spec ?inp)" by (simp_all add: user_defined_input_def)
  obtain w' a' r where run: "extractor_thread sample_impl (\<lambda>t a b. t) sample_env ''a'' (empty_list_io, ?a) = Some ((w', a'), r)"
    using sample_thread_some by blast
  from ended_input_leaves_reset [OF n(1) c(1) n(2) c(2) run] run show ?thesis
    by (auto simp: sample_app_def create_app_def default_clock_def clock_now_def)
qed

text \<open>
  On a finite source an input's thread returns.
\<close>

theorem input_thread_returns:
  fixes left :: "'w \<Rightarrow> nat"
  assumes "\<And>w e pkt w'. io_read_frame (env_io env) w = (e, pkt, w') \<Longrightarrow> left w' \<le> left w \<and> (e = 0 \<longrightarrow> left w' < left w)"
    and "\<And>pkt w. left (snd (io_write_frame (env_io env) pkt w)) = left w"
  shows "\<exists>w' a' r. extractor_thread im rescale env name (w, a) = Some ((w', a'), r)"
proof -
  have "\<exists>st r. remux_loop im (env_io env) sc factories w s = Some (st, r)"
    for sc and factories :: "(kind \<times> input_thread factory) list" and w s
    using remux_loop_returns [where left = left, OF assms] .
  then show ?thesis by (intro extractor_thread_some run_stream_some)
qed

theorem input_thread_returns_witness:
  "\<exists>w' a' r. extractor_thread sample_impl (\<lambda>t a b. t) sample_env ''a'' (empty_list_io, sample_app) = Some ((w', a'), r)"
  by (rule input_thread_returns [where left = "\<lambda>w. length (li_source w)"])
    (use list_io_left in \<open>simp_all add: sample_env_def\<close>)

section \<open>Restarting\<close>

lemma run_procs_keep_break:
  "run_procs im sc procs True pkt s = (s', pkt', Inr brk) \<Longrightarrow> brk"
  by (induction procs arbitrary: pkt s)
    (auto simp: bind_res_Inr_iff split: if_splits option.splits prod.splits sum.splits)

lemma remux_write_break: "\<exists>st' r. remux_write io pkt True st = (st', Some r)"
  by (auto simp: remux_write_def Let_def split: prod.splits sum.splits)

lemma mkprocs_input:
  assumes "mkprocs sc streams (extractor_factories im rescale i) s = Inr (s', procs)" and "sc_has Time_Source_Kind sc"
  shows "\<exists>procs'. procs = (Time_Source_Kind, Some (maintenance_stage i)) # procs'"
  using assms
  by (auto simp: extractor_factories_def mkproc_def bind_res_Inr_iff Let_def split: if_splits)

text \<open>
  When a restart of an input is scheduled, the next packet of its time source stream ends the
  loop, whatever the other processors and the sink do with it.
\<close>

theorem scheduled_restart_ends_stream:
  assumes "mkprocs sc streams (extractor_factories im rescale i) s0 = Inr (s1, procs)"
    and "read_packet io (rx_io st) = (Inr True, pkt, w)" and "check_packet io w pkt = Inr ()"
    and "sc_index Time_Source_Kind sc = Some (pkt_stream_index pkt)"
    and "get_input_by_id i (app_manager (xt_app (rx_procs st))) = Some inp" and "in_restart_scheduled inp"
  shows "\<exists>st' r. remux_round im io sc procs st = (st', Some r)"
proof -
  from mkprocs_input [OF assms(1)] assms(4)
  obtain procs' where procs: "procs = (Time_Source_Kind, Some (maintenance_stage i)) # procs'" by (auto simp: sc_has_def)
  let ?s = "rx_procs st"
  have run: "run_procs im sc procs False pkt ?s = run_procs im sc procs' True pkt ?s"
    using assms(4-6) by (simp add: procs maintenance_stage_def maintenance_process_def)
  obtain s2 pkt2 r where r: "run_procs im sc procs' True pkt ?s = (s2, pkt2, r)" by (metis prod_cases3)
  show ?thesis
  proof (cases r)
    case (Inl e)
    then show ?thesis by (simp add: remux_round_def assms(2,3) run r)
  next
    case (Inr brk)
    from run_procs_keep_break [OF r [unfolded this]] have brk .
    with Inr show ?thesis using remux_write_break by (simp add: remux_round_def assms(2,3) run r)
  qed
qed

theorem scheduled_restart_ends_stream_witness:
  "\<exists>st' r. remux_round sample_impl list_io \<lparr>sc_time_source = Some 0, sc_sei = None, sc_scte = None\<rparr>
     [(Time_Source_Kind, Some (maintenance_stage 1)), (Sei_Kind, None), (Scte_Kind, None)]
     \<lparr>rx_io = ms_to_ticks, rx_procs = \<lparr>xt_sei = new_extractor default_clock (1, 1), xt_scte = new_extractor default_clock (1, 1),
        xt_app = sample_app\<lparr>app_manager := update_input 1 (set_restart_scheduled True) sample_manager\<rparr>\<rparr>,
      rx_read_trial = 0, rx_remux_trial = 0\<rparr> = (st', Some r)"
proof -
  let ?sc = "\<lparr>sc_time_source = Some 0, sc_sei = None, sc_scte = None\<rparr>"
  let ?procs = "[(Time_Source_Kind, Some (maintenance_stage 1)), (Sei_Kind, None), (Scte_Kind, None)]"
  let ?s = "\<lparr>xt_sei = new_extractor default_clock (1, 1), xt_scte = new_extractor default_clock (1, 1),
        xt_app = sample_app\<lparr>app_manager := update_input 1 (set_restart_scheduled True) sample_manager\<rparr>\<rparr>"
  let ?st = "\<lparr>rx_io = ms_to_ticks, rx_procs = ?s, rx_read_trial = 0, rx_remux_trial = 0\<rparr>"
  have m: "mkprocs ?sc [ms_video] (extractor_factories sample_impl (\<lambda>t a b. t) 1) ?s = Inr (?s, ?procs)"
    by (simp add: extractor_factories_def mkproc_def sc_has_def sc_index_def get_stream_of_def get_stream_def)
  have r: "read_packet list_io (rx_io ?st) = (Inr True, snd (ms_packet 33), ms_to_ticks\<lparr>li_source := map ms_packet [66, 99]\<rparr>)"
    by (simp add: read_packet_def list_io_def ms_to_ticks_def ms_packet_def)
  have c: "check_packet list_io (ms_to_ticks\<lparr>li_source := map ms_packet [66, 99]\<rparr>) (snd (ms_packet 33)) = Inr ()"
    by (simp add: check_packet_def list_io_def ms_to_ticks_def ms_packet_def get_stream_def ms_video_def dts_not_increasing_def)
  have t: "sc_index Time_Source_Kind ?sc = Some (pkt_stream_index (snd (ms_packet 33)))"
    by (simp add: sc_index_def ms_packet_def)
  have g: "get_input_by_id 1 (app_manager (xt_app (rx_procs ?st))) = Some (set_restart_scheduled True (user_defined_input
     (default_input_spec\<lparr>is_id := 1, is_name := ''a'', is_source := ''s'', is_sink := ''t''\<rparr>)))"
    by (simp add: sample_manager_def create_manager_def get_input_by_id_def update_input_def clear_input_def user_defined_input_def)
  show ?thesis by (rule scheduled_restart_ends_stream [OF m r c t g]) (simp add: set_restart_scheduled_def)
qed

section \<open>The output thread\<close>

lemma sei_injector_process_frame:
  assumes "sei_injector_process im rescale grow pkt (ij, a) = ((ij', a'), pkt', r)" and "heap_group (app_queues a)"
  shows "\<exists>g. a' = a\<lparr>app_queues := g\<rparr> \<and> heap_group g \<and> g_scte g = g_scte (app_queues a) \<and>
    mset (g_sei g) \<subseteq># mset (g_sei (app_queues a))"
proof (cases "get_current_input Sei_Kind (app_manager a)")
  case (Inl e)
  with assms show ?thesis by (auto simp: sei_injector_process_def Let_def split: prod.splits intro: exI [of _ "app_queues a"])
next
  case (Inr inp)
  let ?q = "query_sei im inp (inj_prev_pts ij) (frame_time rescale pkt ij a + 1) (app_queues a)"
  show ?thesis
  proof (cases ?q)
    case (Inl e)
    with assms Inr show ?thesis
      by (auto simp: sei_injector_process_def split_def Let_def frame_time_def intro: exI [of _ "app_queues a"])
  next
    case q: (Inr vg)
    obtain v g where vg: "vg = (v, g)" by (cases vg)
    have "a' = a\<lparr>app_queues := g\<rparr>"
      using assms(1) sei_injector_process_answered [OF Inr refl refl q [unfolded vg]] by simp
    moreover have "mset (g_sei g) \<subseteq># mset (g_sei (app_queues a))"
      using query_sei_queue [OF assms(2) q [unfolded vg]] by (auto split: if_splits)
    ultimately show ?thesis using query_sei_queue [OF assms(2) q [unfolded vg]] by blast
  qed
qed

text \<open>The part of the application that the output may not touch.\<close>

definition output_frame :: "app \<Rightarrow> app \<Rightarrow> bool" where
  "output_frame a b \<longleftrightarrow> app_manager b = app_manager a \<and> app_running b = app_running a \<and>
     app_ts_adjustment b = app_ts_adjustment a \<and> heap_group (app_queues b) \<and>
     g_scte (app_queues b) = g_scte (app_queues a) \<and> mset (g_sei (app_queues b)) \<subseteq># mset (g_sei (app_queues a))"

text \<open>
  The output thread changes nothing of the application but the clock and the SEI queue: the
  queues stay heaps, SEI entries are only taken out, and the SCTE-35 queue, the inputs and the
  settings are as before.
\<close>

theorem output_thread_keeps_application:
  assumes "heap_group (app_queues a)"
    and "injector_thread im rescale grow env spec (w, a) = Some ((w', a'), r)"
  shows "output_frame a a'"
proof -
  let ?s = "\<lparr>ot_ticker = new_clock_ticker (app_clock a) (1, 1), ot_injector = new_injector (app_clock a) (1, 1), ot_app = a\<rparr>"
  obtain s' where run: "run_stream im env (os_source spec) (os_sink spec) (os_source_format spec) (os_sink_format spec)
      (injector_factories im rescale grow) w ?s = Some (w', s', r)" and a': "a' = ot_app s'"
    using assms(2) by (auto simp: injector_thread_def split: option.splits prod.splits)
  have "output_frame a (ot_app s')"
  proof (rule run_stream_procs [OF _ _ run, where P = "\<lambda>s. output_frame a (ot_app s)"])
    show "output_frame a (ot_app ?s)" using assms(1) by (simp add: output_frame_def)
  next
    fix k f tb s1 s2 p
    assume "output_frame a (ot_app s1)" "(k, f) \<in> set (injector_factories im rescale grow)" "f tb s1 = (s2, p)"
    then show "output_frame a (ot_app s2)" by (auto simp: injector_factories_def null_processor_def)
  next
    fix k f tb t s1 pkt s2 p t' pkt' r
    assume f: "(k, f) \<in> set (injector_factories im rescale grow)" "f tb t = (t', p)"
      and s1: "output_frame a (ot_app s1)" and p: "p pkt s1 = (s2, pkt', r)"
    from f consider "p = ticker_stage rescale" | "p = injector_stage im rescale grow" | "p = (\<lambda>pkt s. (s, pkt, Inr False))"
      by (auto simp: injector_factories_def null_processor_def)
    then show "output_frame a (ot_app s2)"
    proof cases
      case 1
      with p s1 show ?thesis by (auto simp: ticker_stage_def output_frame_def split: prod.splits)
    next
      case 2
      obtain ij' b pkt2 r2 where e: "sei_injector_process im rescale grow pkt (ot_injector s1, ot_app s1) = ((ij', b), pkt2, r2)"
        by (metis prod_cases3 surj_pair)
      have "heap_group (app_queues (ot_app s1))" using s1 by (simp add: output_frame_def)
      from sei_injector_process_frame [OF e this] 2 p e s1 show ?thesis
        by (auto simp: injector_stage_def output_frame_def intro: subset_mset.order_trans)
    next
      case 3
      with p s1 show ?thesis by simp
    qed
  qed
  then show ?thesis by (simp add: a')
qed

lemma injector_thread_some: "\<exists>w' a' r. injector_thread im rescale grow sample_env spec (w, a) = Some ((w', a'), r)"
proof -
  have "\<exists>st r. remux_loop im (env_io sample_env) sc factories w s = Some (st, r)"
    for sc and factories :: "(kind \<times> output_thread factory) list" and w s
    unfolding sample_env_def av_env.simps
    by (rule remux_loop_returns [of list_io "\<lambda>w. length (li_source w)"]) (rule list_io_left, assumption?)+
  from run_stream_some [of im sample_env, OF this]
  obtain w' s' r where "run_stream im sample_env (os_source spec) (os_sink spec) (os_source_format spec) (os_sink_format spec)
      (injector_factories im rescale grow) w
      \<lparr>ot_ticker = new_clock_ticker (app_clock a) (1, 1), ot_injector = new_injector (app_clock a) (1, 1), ot_app = a\<rparr>
    = Some (w', s', r)" by blast
  then show ?thesis by (simp add: injector_thread_def)
qed

theorem output_thread_keeps_application_witness:
  "\<exists>w' a' r. injector_thread sample_impl (\<lambda>t a b. t) (\<lambda>n. None) sample_env
     \<lparr>os_source = ''s'', os_sink = ''t'', os_source_format = None, os_sink_format = None, os_ts_adjustment = 0\<rparr>
     (empty_list_io, sample_app) = Some ((w', a'), r) \<and> output_frame sample_app a'"
proof -
  have "heap_group (app_queues sample_app)" by (simp add: sample_app_def create_app_def queues_empty_heap)
  moreover obtain w' a' r where run: "injector_thread sample_impl (\<lambda>t a b. t) (\<lambda>n. None) sample_env
     \<lparr>os_source = ''s'', os_sink = ''t'', os_source_format = None, os_sink_format = None, os_ts_adjustment = 0\<rparr>
     (empty_list_io, sample_app) = Some ((w', a'), r)" using injector_thread_some by metis
  ultimately show ?thesis using output_thread_keeps_application [OF _ run] by simp
qed

end
