(* ===== verification/Options.thy ===== *)
theory Options
  imports Application
begin

text \<open>
  The options and the start of the program: \<^verbatim>\<open>src/program_options.cpp\<close>,
  \<^verbatim>\<open>src/main.cpp\<close> and the filter of \<^verbatim>\<open>src/log.cpp\<close>.  The
  option parser of Boost is not modelled: the code sees what it found, and that is the argument.
\<close>

section \<open>What was parsed\<close>

record raw_option =
  ro_string_key :: string
  ro_value :: "string list"
  ro_unregistered :: bool

datatype severity_level = Log_Trace | Log_Debug | Log_Info | Log_Warning | Log_Error | Log_Fatal

text \<open>The values of the registered options, and the options in the order they were found.\<close>

record parsed_args =
  pa_help :: bool
  pa_version :: bool
  pa_cmdline :: "raw_option list"
  pa_config :: "raw_option list option"
  pa_http_address :: string
  pa_http_port :: u16
  pa_start_input_name :: "string option"
  pa_log_level :: string
  pa_log_thread :: "string option"
  pa_no_restart :: bool
  pa_output :: output_spec

record program_options =
  po_user_inputs :: "input_spec list"
  po_output :: output_spec
  po_start_input_name :: "string option"
  po_http_address :: string
  po_http_port :: u16
  po_logging_level :: severity_level
  po_logging_thread :: "string option"
  po_norestart :: bool

section \<open>Input options\<close>

definition input_prefix :: string where
  "input_prefix = ''input.''"

text \<open>\<^verbatim>\<open>get_input_spec_or_create\<close> returns a reference; \<open>f\<close> is what is done through it.\<close>

fun update_spec :: "string \<Rightarrow> nat \<Rightarrow> (input_spec \<Rightarrow> input_spec) \<Rightarrow> input_spec list \<Rightarrow> input_spec list" where
  "update_spec input_name n f [] = [f (default_input_spec\<lparr>is_id := word_of_nat n, is_name := input_name\<rparr>)]"
| "update_spec input_name n f (is # iss) =
     (if is_name is = input_name then f is # iss else is # update_spec input_name n f iss)"

definition with_input_spec :: "string \<Rightarrow> (input_spec \<Rightarrow> input_spec) \<Rightarrow> input_spec list \<Rightarrow> input_spec list" where
  "with_input_spec input_name f iss = update_spec input_name (length iss) f iss"

definition input_param :: "string \<Rightarrow> string \<Rightarrow> (input_spec \<Rightarrow> input_spec) option" where
  "input_param param value =
     (if param = ''source'' then Some (\<lambda>is. is\<lparr>is_source := value\<rparr>)
      else if param = ''sink'' then Some (\<lambda>is. is\<lparr>is_sink := value\<rparr>)
      else if param = ''sourceformat'' then Some (\<lambda>is. is\<lparr>is_source_format := Some value\<rparr>)
      else if param = ''sinkformat'' then Some (\<lambda>is. is\<lparr>is_sink_format := Some value\<rparr>)
      else None)"

definition unknown_option :: "string \<Rightarrow> cpp_error" where
  "unknown_option key = Runtime_Error (''Unknown option '' @ key)"

definition apply_option :: "raw_option \<Rightarrow> input_spec list \<Rightarrow> input_spec list result" where
  "apply_option opt iss = (let key = ro_string_key opt in
     if take (length input_prefix) key = input_prefix then
       (case split_on CHR ''.'' key of
          [_, input_name, param] \<Rightarrow>
            (case ro_value opt of
               [] \<Rightarrow> Inl (Runtime_Error (''Missing option '' @ key @ '' value.''))
             | [value] \<Rightarrow>
                 (case input_param param value of
                    None \<Rightarrow> Inl (unknown_option key)
                  | Some f \<Rightarrow> Inr (with_input_spec input_name f iss))
             | _ \<Rightarrow> Inl (Runtime_Error (''Option '' @ key @ '' is single-value.'')))
        | _ \<Rightarrow> Inl (unknown_option key))
     else Inr iss)"

fun apply_options :: "raw_option list \<Rightarrow> input_spec list \<Rightarrow> input_spec list result" where
  "apply_options [] iss = Inr iss"
| "apply_options (opt # opts) iss = bind_res (apply_option opt iss) (apply_options opts)"

section \<open>Parsing and validation\<close>

definition log_level_map :: "string \<Rightarrow> severity_level option" where
  "log_level_map s = map_of [(''trace'', Log_Trace), (''debug'', Log_Debug), (''info'', Log_Info),
     (''warning'', Log_Warning), (''error'', Log_Error), (''fatal'', Log_Fatal)] s"

text \<open>\<open>None\<close> when help or the version was asked for: the program exits.\<close>

definition parse_options :: "parsed_args \<Rightarrow> program_options option result" where
  "parse_options pa =
     (if pa_help pa \<or> pa_version pa then Inr None
      else
        (let unrecognized = filter ro_unregistered (pa_cmdline pa) @
               (case pa_config pa of None \<Rightarrow> [] | Some opts \<Rightarrow> filter ro_unregistered opts) in
         bind_res (apply_options unrecognized []) (\<lambda>iss.
         Inr (Some \<lparr>po_user_inputs = iss, po_output = pa_output pa, po_start_input_name = pa_start_input_name pa,
           po_http_address = pa_http_address pa, po_http_port = pa_http_port pa,
           po_logging_level = (case log_level_map (pa_log_level pa) of Some l \<Rightarrow> l | None \<Rightarrow> Log_Info),
           po_logging_thread = pa_log_thread pa, po_norestart = pa_no_restart pa\<rparr>))))"

definition spec_invalid :: "input_spec \<Rightarrow> bool" where
  "spec_invalid is \<longleftrightarrow> is_name is = [] \<or> is_name is = clear_input_name \<or> is_source is = [] \<or> is_sink is = []"

definition validate_options :: "program_options \<Rightarrow> unit result" where
  "validate_options opts =
     (if po_user_inputs opts = [] \<or> list_ex spec_invalid (po_user_inputs opts) \<or>
         os_source (po_output opts) = [] \<or> os_sink (po_output opts) = []
      then Inl (Runtime_Error ''Invalid options provided, terminating'') else Inr ())"

text \<open>The log filter, for a record with a level and a thread name.\<close>

definition level_rank :: "severity_level \<Rightarrow> nat" where
  "level_rank l = (case l of Log_Trace \<Rightarrow> 0 | Log_Debug \<Rightarrow> 1 | Log_Info \<Rightarrow> 2 | Log_Warning \<Rightarrow> 3 | Log_Error \<Rightarrow> 4 | Log_Fatal \<Rightarrow> 5)"

definition log_filter :: "severity_level option \<Rightarrow> string option \<Rightarrow> severity_level \<Rightarrow> string \<Rightarrow> bool" where
  "log_filter lvl thread_name llvl lthread_name =
     (if (case lvl of Some l \<Rightarrow> level_rank llvl < level_rank l | None \<Rightarrow> False) then False
      else if (case thread_name of Some n \<Rightarrow> lthread_name \<noteq> n | None \<Rightarrow> False) then False
      else True)"

section \<open>The start of the program\<close>

text \<open>The inputs get the ids of their positions behind the clear input.\<close>

fun number_inputs :: "nat \<Rightarrow> input_spec list \<Rightarrow> input_spec list" where
  "number_inputs n [] = []"
| "number_inputs n (is # iss) = is\<lparr>is_id := word_of_nat n\<rparr> # number_inputs (n + 1) iss"

definition start_inputs :: "input_spec list \<Rightarrow> input list" where
  "start_inputs iss = clear_input 0 # map user_defined_input (number_inputs 1 iss)"

text \<open>The application as \<^verbatim>\<open>main\<close> sets it up, with the names of the extractors it starts.\<close>

definition start_app :: "program_options \<Rightarrow> (app \<times> string list) result" where
  "start_app opts =
     bind_res (validate_options opts) (\<lambda>_.
     let m = create_manager (start_inputs (po_user_inputs opts)) in
     case (case po_start_input_name opts of
         Some name \<Rightarrow> set_current_inputs_by_name \<lparr>cs_sei = Some name, cs_scte = Some name\<rparr> m
       | None \<Rightarrow> (m, None)) of
       (m, Some e) \<Rightarrow> Inl e
     | (m, None) \<Rightarrow> Inr (create_app m (po_output opts), map is_name (po_user_inputs opts)))"

section \<open>Names are unique\<close>

lemma update_spec_names:
  assumes "\<And>is. is_name (f is) = is_name is"
  shows "map is_name (update_spec name n f iss) =
    (if name \<in> set (map is_name iss) then map is_name iss else map is_name iss @ [name])"
  using assms by (induction iss) auto

lemma input_param_name: "input_param param value = Some f \<Longrightarrow> is_name (f is) = is_name is"
  by (auto simp: input_param_def split: if_splits)

lemma apply_option_distinct:
  assumes "apply_option opt iss = Inr iss'" and "distinct (map is_name iss)"
  shows "distinct (map is_name iss')"
proof -
  consider "iss' = iss" | name f param v where "iss' = with_input_spec name f iss" "input_param param v = Some f"
    using assms(1) by (auto simp: apply_option_def Let_def split: if_splits list.splits option.splits)
  then show ?thesis
  proof cases
    case 2
    have "map is_name iss' = (if name \<in> set (map is_name iss) then map is_name iss else map is_name iss @ [name])"
      unfolding 2(1) with_input_spec_def by (rule update_spec_names) (rule input_param_name [OF 2(2)])
    with assms(2) show ?thesis by simp
  qed (simp add: assms(2))
qed

lemma apply_options_distinct:
  "apply_options opts iss = Inr iss' \<Longrightarrow> distinct (map is_name iss) \<Longrightarrow> distinct (map is_name iss')"
  by (induction opts arbitrary: iss) (auto simp: bind_res_Inr_iff dest: apply_option_distinct)

section \<open>Every extractor finds its input\<close>

lemma omap_put_greater: "(\<And>k'. k' \<in> fst ` set m \<Longrightarrow> k' < k) \<Longrightarrow> omap_put k v m = m @ [(k, v)]"
  by (induction m) force+

lemma fold_omap_put:
  "sorted_wrt (<) (map (is_id \<circ> in_spec) inputs) \<Longrightarrow>
   (\<And>k inp. k \<in> fst ` set m \<Longrightarrow> inp \<in> set inputs \<Longrightarrow> k < is_id (in_spec inp)) \<Longrightarrow>
   fold (\<lambda>inp. omap_put (is_id (in_spec inp)) inp) inputs m = m @ map (\<lambda>inp. (is_id (in_spec inp), inp)) inputs"
proof (induction inputs arbitrary: m)
  case (Cons inp inputs)
  have p: "omap_put (is_id (in_spec inp)) inp m = m @ [(is_id (in_spec inp), inp)]"
    by (rule omap_put_greater) (use Cons.prems(2) in auto)
  have "fold (\<lambda>inp. omap_put (is_id (in_spec inp)) inp) inputs (m @ [(is_id (in_spec inp), inp)])
      = (m @ [(is_id (in_spec inp), inp)]) @ map (\<lambda>inp. (is_id (in_spec inp), inp)) inputs"
    by (rule Cons.IH) (use Cons.prems in auto)
  then show ?case by (simp add: p)
qed simp

lemma number_inputs_set:
  "spec \<in> set (number_inputs n iss) \<Longrightarrow> \<exists>k < length iss. \<exists>s \<in> set iss. spec = s\<lparr>is_id := word_of_nat (n + k)\<rparr>"
proof (induction iss arbitrary: n)
  case (Cons sp iss)
  then consider "spec = sp\<lparr>is_id := word_of_nat n\<rparr>" | "spec \<in> set (number_inputs (n + 1) iss)" by auto
  then show ?case
  proof cases
    case 2
    from Cons.IH [OF this] obtain k s where "k < length iss" "s \<in> set iss" "spec = s\<lparr>is_id := word_of_nat (n + 1 + k)\<rparr>" by blast
    then show ?thesis by (intro exI [of _ "Suc k"]) auto
  qed auto
qed simp

lemma number_inputs_found:
  "s \<in> set iss \<Longrightarrow> \<exists>i. s\<lparr>is_id := i\<rparr> \<in> set (number_inputs n iss)"
  by (induction iss arbitrary: n) auto

lemma word_of_nat_less_u32: "i < j \<Longrightarrow> j < 2 ^ 32 \<Longrightarrow> (word_of_nat i :: u32) < word_of_nat j"
  by (simp add: word_less_nat_alt unat_of_nat)

lemma number_inputs_sorted:
  "n + length iss \<le> 2 ^ 32 \<Longrightarrow> sorted_wrt (<) (map is_id (number_inputs n iss))"
proof (induction iss arbitrary: n)
  case (Cons sp iss)
  have "word_of_nat n < is_id spec" if "spec \<in> set (number_inputs (n + 1) iss)" for spec
  proof -
    from number_inputs_set [OF that] obtain k s where "k < length iss" "spec = s\<lparr>is_id := word_of_nat (n + 1 + k)\<rparr>" by blast
    with Cons.prems word_of_nat_less_u32 [of n "n + 1 + k"] show ?thesis by simp
  qed
  with Cons show ?case by simp
qed simp

lemma number_inputs_names: "map is_name (number_inputs n iss) = map is_name iss"
  by (induction iss arbitrary: n) simp_all

lemma start_inputs_manager:
  assumes "length iss < 2 ^ 32"
  shows "im_inputs (create_manager (start_inputs iss)) = map (\<lambda>inp. (is_id (in_spec inp), inp)) (start_inputs iss)"
    and "reachable_manager (create_manager (start_inputs iss))"
proof -
  have "sorted_wrt (<) (map is_id (number_inputs 1 iss))" using assms by (intro number_inputs_sorted) simp
  moreover have "0 < is_id spec" if "spec \<in> set (number_inputs 1 iss)" for spec
  proof -
    from number_inputs_set [OF that] obtain k s where "k < length iss" "spec = s\<lparr>is_id := word_of_nat (1 + k)\<rparr>" by blast
    with assms word_of_nat_less_u32 [of 0 "1 + k"] show ?thesis by simp
  qed
  ultimately have s: "sorted_wrt (<) (map (is_id \<circ> in_spec) (start_inputs iss))"
    by (simp add: start_inputs_def clear_input_def user_defined_input_def o_def)
  then show "im_inputs (create_manager (start_inputs iss)) = map (\<lambda>inp. (is_id (in_spec inp), inp)) (start_inputs iss)"
    using fold_omap_put [OF s, of "[]"] by (simp add: create_manager_def)
  from s have "distinct (map (is_id \<circ> in_spec) (start_inputs iss))" by (simp add: strict_sorted_iff del: map_map)
  then show "reachable_manager (create_manager (start_inputs iss))"
    by (rule reachable_manager.start) (simp add: start_inputs_def clear_input_def)
qed

lemma set_current_inputs_by_name_inputs:
  "im_inputs (fst (set_current_inputs_by_name cs m)) = im_inputs m"
  by (auto simp: set_current_inputs_by_name_def set_current_inputs_spec split: sum.splits)

lemma find_user:
  "distinct (map is_name specs) \<Longrightarrow> spec \<in> set specs \<Longrightarrow>
   map_option snd (find (\<lambda>(_, p). is_name (in_spec p) = is_name spec)
     (map (\<lambda>inp. (is_id (in_spec inp), inp)) (map user_defined_input specs))) = Some (user_defined_input spec)"
  by (induction specs) (auto simp: user_defined_input_def image_iff)

text \<open>
  C38: After a successful start every name of a user input is unique and found by the lookup of
  its extractor thread as a user defined input with the parsed source and sink, so the thread's
  unchecked dereference and cast are safe.
\<close>

theorem extractors_find_their_inputs:
  assumes "parse_options pa = Inr (Some opts)" and "start_app opts = Inr (a, names)"
    and "length (po_user_inputs opts) < 2 ^ 32" and "spec \<in> set (po_user_inputs opts)"
  shows "reachable_manager (app_manager a) \<and> distinct names \<and> is_name spec \<in> set names \<and>
    (\<exists>i. get_input_by_name (is_name spec) (app_manager a) = Some (user_defined_input (spec\<lparr>is_id := i\<rparr>)))"
proof -
  let ?iss = "po_user_inputs opts"
  let ?m = "create_manager (start_inputs ?iss)"
  have d: "distinct (map is_name ?iss)"
    using assms(1) apply_options_distinct [of _ "[]" ?iss] by (auto simp: parse_options_def Let_def bind_res_Inr_iff split: if_splits)
  have v: "validate_options opts = Inr ()" and n: "names = map is_name ?iss"
    using assms(2) by (auto simp: start_app_def bind_res_Inr_iff Let_def split: prod.splits option.splits)
  from assms(2) have m: "app_manager a = ?m \<or> (\<exists>cs. app_manager a = fst (set_current_inputs_by_name cs ?m))"
    by (auto simp: start_app_def bind_res_Inr_iff Let_def create_app_def split: prod.splits option.splits) (metis fst_conv)+
  from start_inputs_manager [OF assms(3)] m have r: "reachable_manager (app_manager a)"
    and i: "im_inputs (app_manager a) = map (\<lambda>inp. (is_id (in_spec inp), inp)) (start_inputs ?iss)"
    by (auto simp: set_current_inputs_by_name_inputs intro: reachable_manager.by_name)
  obtain j where j: "spec\<lparr>is_id := j\<rparr> \<in> set (number_inputs 1 ?iss)" using number_inputs_found [OF assms(4)] by blast
  have "is_name spec \<noteq> clear_input_name"
    using v assms(4) by (auto simp: validate_options_def spec_invalid_def list_ex_iff split: if_splits)
  then have "get_input_by_name (is_name spec) (app_manager a) = Some (user_defined_input (spec\<lparr>is_id := j\<rparr>))"
    using find_user [OF _ j] d by (simp add: get_input_by_name_def i start_inputs_def number_inputs_names clear_input_def)
  with r d n assms(4) show ?thesis by auto
qed

definition sample_args :: parsed_args where
  "sample_args = \<lparr>pa_help = False, pa_version = False,
     pa_cmdline = [\<lparr>ro_string_key = ''input.a.source'', ro_value = [''s''], ro_unregistered = True\<rparr>,
       \<lparr>ro_string_key = ''input.b.source'', ro_value = [''s2''], ro_unregistered = True\<rparr>,
       \<lparr>ro_string_key = ''input.b.sink'', ro_value = [''t2''], ro_unregistered = True\<rparr>],
     pa_config = Some [\<lparr>ro_string_key = ''input.a.sink'', ro_value = [''t''], ro_unregistered = True\<rparr>],
     pa_http_address = ''0.0.0.0'', pa_http_port = 3445, pa_start_input_name = Some ''b'', pa_log_level = ''debug'',
     pa_log_thread = None, pa_no_restart = False,
     pa_output = \<lparr>os_source = ''o'', os_sink = ''p'', os_source_format = None, os_sink_format = None, os_ts_adjustment = 0\<rparr>\<rparr>"

definition sample_specs :: "input_spec list" where
  "sample_specs = [default_input_spec\<lparr>is_id := 0, is_name := ''a'', is_source := ''s'', is_sink := ''t''\<rparr>,
     default_input_spec\<lparr>is_id := 1, is_name := ''b'', is_source := ''s2'', is_sink := ''t2''\<rparr>]"

lemma sample_args_parsed:
  "\<exists>opts. parse_options sample_args = Inr (Some opts) \<and> po_user_inputs opts = sample_specs \<and>
     (\<exists>a names. start_app opts = Inr (a, names))"
proof -
  have p: "map_sum (\<lambda>e. e) (map_option (\<lambda>opts. po_user_inputs opts)) (parse_options sample_args) = Inr (Some sample_specs)"
    and s: "(case parse_options sample_args of Inr (Some opts) \<Rightarrow> \<not> is_error (start_app opts) | _ \<Rightarrow> False)"
    by code_simp+
  from p obtain opts where "parse_options sample_args = Inr (Some opts)" "po_user_inputs opts = sample_specs"
    by (cases "parse_options sample_args") auto
  with s show ?thesis by (cases "start_app opts") auto
qed

theorem extractors_find_their_inputs_witness:
  "\<exists>opts a names i. parse_options sample_args = Inr (Some opts) \<and> start_app opts = Inr (a, names) \<and>
     get_input_by_name ''b'' (app_manager a) = Some (user_defined_input ((sample_specs ! 1)\<lparr>is_id := i\<rparr>))"
proof -
  obtain opts a names where o: "parse_options sample_args = Inr (Some opts)" "po_user_inputs opts = sample_specs"
    "start_app opts = Inr (a, names)" using sample_args_parsed by blast
  have "is_name (sample_specs ! 1) = ''b''" by (simp add: sample_specs_def)
  with extractors_find_their_inputs [OF o(1,3), of "sample_specs ! 1"] o show ?thesis
    by (auto simp: sample_specs_def)
qed

section \<open>Where an option goes\<close>

definition find_spec :: "string \<Rightarrow> input_spec list \<Rightarrow> input_spec option" where
  "find_spec name specs = find (\<lambda>spec. is_name spec = name) specs"

lemma find_update_spec:
  assumes "\<And>spec. is_name (f spec) = is_name spec"
  shows "find_spec n (update_spec name k f specs) =
    (if n = name then Some (f (case find_spec name specs of
        Some spec \<Rightarrow> spec | None \<Rightarrow> default_input_spec\<lparr>is_id := word_of_nat k, is_name := name\<rparr>))
     else find_spec n specs)"
  using assms by (induction specs) (auto simp: find_spec_def)

text \<open>
  An option of an input sets this field of the input with this name, which is made when it is
  new, and changes no other input.
\<close>

theorem input_option_sets_field:
  assumes "CHR ''.'' \<notin> set name" and "CHR ''.'' \<notin> set param" and "input_param param v = Some f"
    and "ro_string_key opt = input_prefix @ name @ ''.'' @ param" and "ro_value opt = [v]"
  shows "\<exists>specs'. apply_option opt specs = Inr specs' \<and>
    (\<forall>n. find_spec n specs' =
      (if n = name then Some (f (case find_spec name specs of
          Some spec \<Rightarrow> spec | None \<Rightarrow> default_input_spec\<lparr>is_id := word_of_nat (length specs), is_name := name\<rparr>))
       else find_spec n specs))"
proof -
  have "split_on CHR ''.'' (input_prefix @ name @ ''.'' @ param) = [''input'', name, param]"
    using split_on_first [of "CHR ''.''" "''input''" "name @ ''.'' @ param"] split_on_first [OF assms(1), of param]
      split_on_single [OF assms(2)] by (simp add: input_prefix_def)
  then have "apply_option opt specs = Inr (with_input_spec name f specs)"
    by (simp add: apply_option_def assms(3-5) Let_def)
  then show ?thesis using find_update_spec [of f, OF input_param_name [OF assms(3)]] by (simp add: with_input_spec_def)
qed

theorem input_option_sets_field_witness:
  "\<exists>specs'. apply_option \<lparr>ro_string_key = ''input.b.sink'', ro_value = [''u''], ro_unregistered = True\<rparr> sample_specs = Inr specs' \<and>
     find_spec ''b'' specs' = Some (default_input_spec\<lparr>is_id := 1, is_name := ''b'', is_source := ''s2'', is_sink := ''u''\<rparr>)"
proof -
  let ?o = "\<lparr>ro_string_key = ''input.b.sink'', ro_value = [''u''], ro_unregistered = True\<rparr>"
  have "\<exists>specs'. apply_option ?o sample_specs = Inr specs' \<and>
    (\<forall>n. find_spec n specs' =
      (if n = ''b'' then Some ((\<lambda>is. is\<lparr>is_sink := ''u''\<rparr>) (case find_spec ''b'' sample_specs of
          Some spec \<Rightarrow> spec | None \<Rightarrow> default_input_spec\<lparr>is_id := word_of_nat (length sample_specs), is_name := ''b''\<rparr>))
       else find_spec n sample_specs))"
    by (rule input_option_sets_field [where param = "''sink''" and v = "''u''"]) (simp_all add: input_param_def input_prefix_def)
  then show ?thesis by (auto simp: sample_specs_def find_spec_def)
qed

end
