(* ===== verification/Controller.thy ===== *)
theory Controller
  imports Application
begin

text \<open>
  The REST controller of \<^verbatim>\<open>src/proc/controller.cpp\<close>: routing, the handlers and
  the mapping of exceptions to status codes.  The socket loop around \<open>handle_request\<close> is not
  modelled.  The JSON parser is the argument \<open>parse\<close>; a response is its status and body value.
\<close>

section \<open>JSON values\<close>

text \<open>
  A number with a fraction or an exponent is kept by its integral part, which is all that the
  conversions use.  The conversions are those of the JSON library: any number, and for the
  unsigned id also a Boolean, is cast to the target type.
\<close>

datatype json =
    J_Null | J_Bool bool | J_Unsigned nat | J_Integer int | J_Float int | J_String string
  | J_Array "json list" | J_Object "(string \<times> json) list"

definition json_find :: "string \<Rightarrow> json \<Rightarrow> json option" where
  "json_find key j = (case j of J_Object m \<Rightarrow> map_of m key | _ \<Rightarrow> None)"

definition json_to_id :: "json \<Rightarrow> input_id result" where
  "json_to_id j = (case j of
      J_Unsigned n \<Rightarrow> Inr (word_of_nat n)
    | J_Integer i \<Rightarrow> Inr (word_of_int i)
    | J_Float t \<Rightarrow> if 0 \<le> t \<and> t < 2 ^ 32 then Inr (word_of_int t) else Inl Range_Violation
    | J_Bool b \<Rightarrow> Inr (of_bool b)
    | _ \<Rightarrow> Inl (Type_Error ''type must be number''))"

definition json_to_i64 :: "json \<Rightarrow> ts result" where
  "json_to_i64 j = (case j of
      J_Unsigned n \<Rightarrow> Inr (wrap64 (int n))
    | J_Integer i \<Rightarrow> Inr i
    | J_Float t \<Rightarrow> if in_ts t then Inr t else Inl Range_Violation
    | _ \<Rightarrow> Inl (Type_Error ''type must be number''))"

definition json_to_string :: "json \<Rightarrow> string result" where
  "json_to_string j = (case j of J_String s \<Rightarrow> Inr s | _ \<Rightarrow> Inl (Type_Error ''type must be string''))"

section \<open>Handlers\<close>

definition parse_input_ref :: "json \<Rightarrow> (input_id + string) result" where
  "parse_input_ref args = (case json_find ''name'' args of
      Some j \<Rightarrow> bind_res (json_to_string j) (\<lambda>s. Inr (Inr s))
    | None \<Rightarrow> (case json_find ''id'' args of
          Some j \<Rightarrow> bind_res (json_to_id j) (\<lambda>i. Inr (Inl i))
        | None \<Rightarrow> Inl (Invalid_Argument ''Expected \"name\" or \"id\" argument'')))"

definition get_input_by_ref :: "app \<Rightarrow> input_id + string \<Rightarrow> input result" where
  "get_input_by_ref a ref =
     (case (case ref of Inr name \<Rightarrow> get_input_by_name name (app_manager a)
                      | Inl i \<Rightarrow> get_input_by_id i (app_manager a)) of
        None \<Rightarrow> Inl (Invalid_Argument ''Unknown input name'')
      | Some inp \<Rightarrow> Inr inp)"

definition get_input_by_json :: "app \<Rightarrow> json \<Rightarrow> input result" where
  "get_input_by_json a args = bind_res (parse_input_ref args) (get_input_by_ref a)"

definition json_ok :: json where
  "json_ok = J_Object [(''ok'', J_Bool True)]"

definition get_stats :: "app \<Rightarrow> json" where
  "get_stats a = J_Object
     [(''queueSize'', J_Object
        [(api_name Sei_Kind, J_Unsigned (mq_size (g_sei (app_queues a)))),
         (api_name Scte_Kind, J_Unsigned (mq_size (g_scte (app_queues a))))]),
      (''clockNow'', J_Integer (clock_now (app_clock a)))]"

definition get_input_info :: "app \<Rightarrow> input_id \<Rightarrow> json result" where
  "get_input_info a i = (case get_input_by_id i (app_manager a) of
      None \<Rightarrow> Inl (Invalid_Argument ''Unknown input id'')
    | Some inp \<Rightarrow> (let spec = in_spec inp; caps = in_caps inp in
        Inr (J_Object
          [(''id'', J_Unsigned (unat i)), (''name'', J_String (is_name spec)),
           (''source'', J_String (is_source spec)), (''sink'', J_String (is_sink spec)),
           (''sourceFormat'', J_String (case is_source_format spec of None \<Rightarrow> [] | Some s \<Rightarrow> s)),
           (''sinkFormat'', J_String (case is_sink_format spec of None \<Rightarrow> [] | Some s \<Rightarrow> s)),
           (''isVirtual'', J_Bool (is_virtual spec)),
           (''caps'', J_Object (map (\<lambda>k. (api_name k, J_Bool (has_cap k caps))) MetadataKindPack))])))"

fun collect_infos :: "app \<Rightarrow> input_id list \<Rightarrow> json list result" where
  "collect_infos a [] = Inr []"
| "collect_infos a (i # is) = bind_res (get_input_info a i) (\<lambda>j.
     bind_res (collect_infos a is) (\<lambda>js. Inr (j # js)))"

definition get_current_input_json :: "app \<Rightarrow> json result" where
  "get_current_input_json a =
     bind_res (collect_infos a (map (\<lambda>k. get_current_input_id k (app_manager a)) MetadataKindPack))
       (\<lambda>js. Inr (J_Object (zip (map api_name MetadataKindPack) js)))"

text \<open>A value nothing was pushed to stays null.\<close>

definition get_all_inputs :: "app \<Rightarrow> json result" where
  "get_all_inputs a =
     bind_res (collect_infos a (map (is_id \<circ> in_spec) (manager_inputs (app_manager a))))
       (\<lambda>js. Inr (if js = [] then J_Null else J_Array js))"

fun changeset_of_json :: "app \<Rightarrow> json \<Rightarrow> kind list \<Rightarrow> input_id changeset \<Rightarrow> input_id changeset result" where
  "changeset_of_json a args [] cs = Inr cs"
| "changeset_of_json a args (k # ks) cs = (case json_find (api_name k) args of
      None \<Rightarrow> changeset_of_json a args ks cs
    | Some j \<Rightarrow> bind_res (get_input_by_json a j) (\<lambda>inp.
        changeset_of_json a args ks (cs_set k (Some (is_id (in_spec inp))) cs)))"

definition set_current_input :: "app \<Rightarrow> json \<Rightarrow> app \<times> json result" where
  "set_current_input a args =
     (case (if json_find ''id'' args \<noteq> None \<or> json_find ''name'' args \<noteq> None
            then bind_res (get_input_by_json a args) (\<lambda>inp.
              Inr (fold (\<lambda>k. cs_set k (Some (is_id (in_spec inp)))) MetadataKindPack empty_changeset))
            else changeset_of_json a args MetadataKindPack empty_changeset) of
        Inl e \<Rightarrow> (a, Inl e)
      | Inr cs \<Rightarrow> (case set_current_inputs cs (app_manager a) of
            (m, None) \<Rightarrow> (a\<lparr>app_manager := m\<rparr>, Inr json_ok)
          | (m, Some e) \<Rightarrow> (a\<lparr>app_manager := m\<rparr>, Inl e)))"

definition restart_input :: "app \<Rightarrow> json \<Rightarrow> app \<times> json result" where
  "restart_input a args = (case get_input_by_json a args of
      Inl e \<Rightarrow> (a, Inl e)
    | Inr inp \<Rightarrow>
        (a\<lparr>app_manager := update_input (is_id (in_spec inp)) input_schedule_restart (app_manager a)\<rparr>, Inr json_ok))"

definition get_config :: "app \<Rightarrow> json" where
  "get_config a = J_Object [(''tsAdjustment'', J_Integer (app_ts_adjustment a))]"

definition set_config :: "app \<Rightarrow> json \<Rightarrow> app \<times> json result" where
  "set_config a args = (case json_find ''tsAdjustment'' args of
      None \<Rightarrow> (a, Inr json_ok)
    | Some j \<Rightarrow> (case json_to_i64 j of
          Inl e \<Rightarrow> (a, Inl e)
        | Inr v \<Rightarrow> (set_ts_adjustment v a, Inr json_ok)))"

section \<open>Requests\<close>

datatype verb = Verb_Get | Verb_Post | Verb_Other

record request =
  rq_method :: verb
  rq_target :: string
  rq_body :: string

type_synonym response = "nat \<times> json"

fun contains_dots :: "string \<Rightarrow> bool" where
  "contains_dots (a # b # s) \<longleftrightarrow> a = CHR ''.'' \<and> b = CHR ''.'' \<or> contains_dots (b # s)"
| "contains_dots _ = False"

definition error_body :: "string \<Rightarrow> json" where
  "error_body why = J_Object [(''error'', J_String why)]"

text \<open>
  The \<^verbatim>\<open>catch\<close> clauses in their order.  What is no exception, an abort or a wild access,
  ends the program: there is no response.
\<close>

fun error_response :: "cpp_error \<Rightarrow> response option" where
  "error_response (Json_Parse_Error why) = Some (400, error_body why)"
| "error_response (Type_Error why) = Some (400, error_body why)"
| "error_response (Invalid_Argument why) = Some (400, error_body why)"
| "error_response (Out_Of_Range why) = Some (500, error_body (''Internal server error: '' @ why))"
| "error_response (Runtime_Error why) = Some (500, error_body (''Internal server error: '' @ why))"
| "error_response (Parse_Error r c l) = Some (500, error_body ''Internal server error: '')"
| "error_response Assertion_Failed = None"
| "error_response Range_Violation = None"

definition respond :: "app \<times> json result \<Rightarrow> app \<times> response option" where
  "respond x = (case x of (a, Inr j) \<Rightarrow> (a, Some (200, j)) | (a, Inl e) \<Rightarrow> (a, error_response e))"

definition with_body :: "(string \<Rightarrow> json result) \<Rightarrow> (app \<Rightarrow> json \<Rightarrow> app \<times> json result) \<Rightarrow> app \<Rightarrow> request
    \<Rightarrow> app \<times> json result" where
  "with_body parse h a rq = (case parse (rq_body rq) of Inl e \<Rightarrow> (a, Inl e) | Inr j \<Rightarrow> h a j)"

definition handle_request :: "(string \<Rightarrow> json result) \<Rightarrow> app \<Rightarrow> request \<Rightarrow> app \<times> response option" where
  "handle_request parse a rq =
     (if rq_target rq = [] \<or> hd (rq_target rq) \<noteq> CHR ''/'' \<or> contains_dots (rq_target rq)
      then (a, Some (400, error_body ''Illegal request-target.''))
      else if rq_method rq = Verb_Get \<and> rq_target rq = ''/stats'' then respond (a, Inr (get_stats a))
      else if rq_method rq = Verb_Get \<and> rq_target rq = ''/input'' then respond (a, get_all_inputs a)
      else if rq_method rq = Verb_Get \<and> rq_target rq = ''/input/current'' then
        respond (a, get_current_input_json a)
      else if rq_method rq = Verb_Post \<and> rq_target rq = ''/input/current'' then
        respond (with_body parse set_current_input a rq)
      else if rq_method rq = Verb_Post \<and> rq_target rq = ''/input/restart'' then
        respond (with_body parse restart_input a rq)
      else if rq_method rq = Verb_Get \<and> rq_target rq = ''/config'' then respond (a, Inr (get_config a))
      else if rq_method rq = Verb_Post \<and> rq_target rq = ''/config'' then
        respond (with_body parse set_config a rq)
      else (a, Some (404, error_body ''Resource does not exist.'')))"

section \<open>Properties\<close>

lemma respond_simps [simp]:
  "respond (a, Inr j) = (a, Some (200, j))" "respond (a, Inl e) = (a, error_response e)"
  by (simp_all add: respond_def)

lemma error_response_not_ok: "error_response e = Some (s, j) \<Longrightarrow> s \<noteq> 200"
  by (cases e) auto

text \<open>A handler that fails has changed nothing.\<close>

definition failure_keeps :: "(app \<times> json result) \<Rightarrow> app \<Rightarrow> bool" where
  "failure_keeps x a = (case x of (a', Inl e) \<Rightarrow> a' = a | (a', Inr j) \<Rightarrow> True)"

lemma set_current_input_atomic: "failure_keeps (set_current_input a args) a"
  by (auto simp: failure_keeps_def set_current_input_def set_current_inputs_spec
      split: sum.splits prod.splits option.splits if_splits)

lemma restart_input_atomic: "failure_keeps (restart_input a args) a"
  by (auto simp: failure_keeps_def restart_input_def split: sum.splits)

lemma set_config_atomic: "failure_keeps (set_config a args) a"
  by (auto simp: failure_keeps_def set_config_def split: sum.splits option.splits)

lemma with_body_atomic:
  "(\<And>j. failure_keeps (h a j) a) \<Longrightarrow> failure_keeps (with_body parse h a rq) a"
  by (auto simp: failure_keeps_def with_body_def split: sum.splits)

lemma respond_failure:
  "failure_keeps x a \<Longrightarrow> respond x = (a', r) \<Longrightarrow> a' \<noteq> a \<Longrightarrow> \<exists>j. r = Some (200, j)"
  by (auto simp: failure_keeps_def respond_def split: prod.splits sum.splits)

text \<open>
  C39: A request that changes the state of the application is a POST and is answered with 200;
  every request answered with an error leaves the state as it was.
\<close>

theorem failed_request_changes_nothing:
  assumes "handle_request parse a rq = (a', r)" and "a' \<noteq> a"
  shows "rq_method rq = Verb_Post \<and> (\<exists>j. r = Some (200, j))"
proof -
  from assms show ?thesis
    by (auto simp: handle_request_def respond_failure [OF with_body_atomic [OF set_current_input_atomic]]
        respond_failure [OF with_body_atomic [OF restart_input_atomic]]
        respond_failure [OF with_body_atomic [OF set_config_atomic]]
        get_all_inputs_def get_current_input_json_def split: if_splits)
      (auto simp: respond_def split: sum.splits)
qed

text \<open>A parser for the examples: it knows one text.\<close>

definition sample_parse :: "json \<Rightarrow> string \<Rightarrow> json result" where
  "sample_parse j s = (if s = ''body'' then Inr j else Inl (Json_Parse_Error ''syntax error''))"

definition sample_post :: "string \<Rightarrow> request" where
  "sample_post t = \<lparr>rq_method = Verb_Post, rq_target = t, rq_body = ''body''\<rparr>"

theorem failed_request_changes_nothing_witness:
  "rq_method (sample_post ''/config'') = Verb_Post \<and> (\<exists>j. Some (200, json_ok) = Some (200 :: nat, j))"
proof (rule failed_request_changes_nothing)
  show "handle_request (sample_parse (J_Object [(''tsAdjustment'', J_Integer 7)])) sample_app (sample_post ''/config'')
      = (set_ts_adjustment 7 sample_app, Some (200, json_ok))"
    by (simp add: handle_request_def sample_post_def with_body_def sample_parse_def set_config_def
        json_find_def json_to_i64_def)
  show "set_ts_adjustment 7 sample_app \<noteq> sample_app"
    by (simp add: set_ts_adjustment_def sample_app_def create_app_def)
qed

subsection \<open>The current inputs over the API\<close>

lemma set_current_input_manager:
  "manager_ok (app_manager a) \<Longrightarrow> manager_ok (app_manager (fst (set_current_input a args)))"
  using set_current_inputs_ok [of "app_manager a"]
  by (auto simp: set_current_input_def split: sum.splits prod.splits option.splits)
    (metis fst_conv)+

lemma handle_request_manager:
  assumes "manager_ok (app_manager a)"
  shows "manager_ok (app_manager (fst (handle_request parse a rq)))"
proof -
  have r: "fst (respond x) = fst x" for x by (auto simp: respond_def split: prod.splits sum.splits)
  have "manager_ok (app_manager (fst (restart_input a j)))" for j
    using assms update_input_ok [of "app_manager a" _ input_schedule_restart]
    by (auto simp: restart_input_def input_schedule_restart_def split: sum.splits input_class.splits)
  moreover have "manager_ok (app_manager (fst (set_config a j)))" for j
    using assms by (auto simp: set_config_def set_ts_adjustment_def split: option.splits sum.splits)
  ultimately show ?thesis
    using assms set_current_input_manager [OF assms]
    by (auto simp: handle_request_def r with_body_def split: sum.splits)
qed

inductive reachable_app :: "(string \<Rightarrow> json result) \<Rightarrow> app \<Rightarrow> bool" for parse where
  boot: "reachable_manager m \<Longrightarrow> reachable_app parse (create_app m o_spec)"
| request: "reachable_app parse a \<Longrightarrow> reachable_app parse (fst (handle_request parse a rq))"
| queued: "reachable_app parse a \<Longrightarrow> reachable_app parse (a\<lparr>app_queues := g\<rparr>)"
| ticked: "reachable_app parse a \<Longrightarrow> reachable_app parse (a\<lparr>app_clock := c\<rparr>)"
| exited: "reachable_app parse a \<Longrightarrow> reachable_app parse (fst (app_exit a))"

lemma reachable_app_ok: "reachable_app parse a \<Longrightarrow> manager_ok (app_manager a)"
  by (induction rule: reachable_app.induct)
    (simp_all add: create_app_def app_exit_def reachable_manager_ok handle_request_manager)

lemma input_info_found:
  "get_input_by_id i (app_manager a) = Some inp \<Longrightarrow> \<exists>j. get_input_info a i = Inr j"
  by (simp add: get_input_info_def Let_def)

text \<open>
  In every reachable state the request for the current inputs succeeds, changes nothing and
  describes the current input of both kinds.
\<close>

theorem current_inputs_always_reported:
  assumes "reachable_app parse a" and "rq_method rq = Verb_Get" and "rq_target rq = ''/input/current''"
  shows "\<exists>s c. handle_request parse a rq = (a, Some (200, J_Object [(''closedCaption'', s), (''adMarker'', c)]))
    \<and> get_input_info a (im_sei (app_manager a)) = Inr s \<and> get_input_info a (im_scte (app_manager a)) = Inr c"
proof -
  have ok: "manager_ok (app_manager a)" using assms(1) by (rule reachable_app_ok)
  then have "\<exists>inp. get_input_by_id (im_sei (app_manager a)) (app_manager a) = Some inp"
    and "\<exists>inp. get_input_by_id (im_scte (app_manager a)) (app_manager a) = Some inp"
    by (simp_all add: manager_ok_def valid_id_found)
  then obtain s c where "get_input_info a (im_sei (app_manager a)) = Inr s"
    "get_input_info a (im_scte (app_manager a)) = Inr c" using input_info_found by blast
  then show ?thesis
    using assms(2,3)
    by (simp add: handle_request_def get_current_input_json_def MetadataKindPack_def get_current_input_id_def
        api_name_def)
qed

theorem current_inputs_always_reported_witness:
  "\<exists>s c. handle_request (sample_parse J_Null) sample_app \<lparr>rq_method = Verb_Get, rq_target = ''/input/current'', rq_body = []\<rparr>
      = (sample_app, Some (200, J_Object [(''closedCaption'', s), (''adMarker'', c)]))
    \<and> get_input_info sample_app (im_sei (app_manager sample_app)) = Inr s
    \<and> get_input_info sample_app (im_scte (app_manager sample_app)) = Inr c"
  by (rule current_inputs_always_reported)
    (simp_all add: sample_app_def reachable_app.boot sample_manager_reachable)

text \<open>
  A request to switch to an id switches both kinds when the input exists and is answered with
  400 and changes nothing when it does not.
\<close>

theorem switching_by_id:
  assumes "manager_ok (app_manager a)" and "rq_method rq = Verb_Post" and "rq_target rq = ''/input/current''"
    and "parse (rq_body rq) = Inr (J_Object [(''id'', J_Unsigned n)])"
  shows "handle_request parse a rq =
    (if is_input_id_valid (word_of_nat n) (app_manager a)
     then (a\<lparr>app_manager := app_manager a\<lparr>im_sei := word_of_nat n, im_scte := word_of_nat n\<rparr>\<rparr>, Some (200, json_ok))
     else (a, Some (400, error_body ''Unknown input name'')))"
proof -
  let ?i = "word_of_nat n :: input_id"
  have g: "get_input_by_json a (J_Object [(''id'', J_Unsigned n)]) =
      (case get_input_by_id ?i (app_manager a) of None \<Rightarrow> Inl (Invalid_Argument ''Unknown input name'') | Some inp \<Rightarrow> Inr inp)"
    by (simp add: get_input_by_json_def parse_input_ref_def json_find_def json_to_id_def get_input_by_ref_def)
  show ?thesis
  proof (cases "get_input_by_id ?i (app_manager a)")
    case None
    then show ?thesis using assms(2-4) g
      by (simp add: handle_request_def with_body_def set_current_input_def json_find_def valid_id_found)
  next
    case (Some inp)
    have "is_id (in_spec inp) = ?i" using found_id [OF assms(1) Some] .
    then show ?thesis using assms(2-4) g Some
      by (simp add: handle_request_def with_body_def set_current_input_def json_find_def valid_id_found
          MetadataKindPack_def cs_set_def cs_get_def empty_changeset_def set_current_inputs_spec)
  qed
qed

theorem switching_by_id_witness:
  "handle_request (sample_parse (J_Object [(''id'', J_Unsigned 1)])) sample_app (sample_post ''/input/current'')
     = (sample_app\<lparr>app_manager := sample_manager\<lparr>im_sei := 1, im_scte := 1\<rparr>\<rparr>, Some (200, json_ok))"
proof -
  have "app_manager sample_app = sample_manager" by (simp add: sample_app_def create_app_def)
  moreover have "manager_ok sample_manager" using sample_manager_reachable by (rule reachable_manager_ok)
  moreover have "is_input_id_valid 1 sample_manager"
    by (simp add: is_input_id_valid_def sample_manager_def create_manager_def clear_input_def user_defined_input_def)
  ultimately show ?thesis
    using switching_by_id [of sample_app "sample_post ''/input/current''" "sample_parse (J_Object [(''id'', J_Unsigned 1)])" 1]
    by (simp add: sample_post_def sample_parse_def)
qed

text \<open>An id beyond 32 bits is not refused: it selects the input with the id it wraps to.\<close>

text \<open>
  An id beyond 32 bits in a request is taken modulo 2 to the 32.
\<close>

theorem oversized_id_wraps:
  "json_to_id (J_Unsigned (n + 2 ^ 32)) = json_to_id (J_Unsigned n)"
  by (simp add: json_to_id_def)

end
