(* ===== verification/Timeline.thy ===== *)
theory Timeline
  imports Injector
begin

text \<open>
  The output over time: frames of the output stream, and between them entries that the input
  threads queue, in any order.  The entries handed to a frame are those of its query.
\<close>

datatype play_event = Queued "sei_payload metadata" | Frame av_packet

definition frame_answer :: "cpp_impl \<Rightarrow> rescaling \<Rightarrow> av_packet \<Rightarrow> injector \<times> app \<Rightarrow> sei_payload metadata list" where
  "frame_answer im rescale pkt s = (let (ij, a) = s in
     case get_current_input Sei_Kind (app_manager a) of
       Inl e \<Rightarrow> []
     | Inr inp \<Rightarrow> (case query_sei im inp (inj_prev_pts ij) (frame_time rescale pkt ij a + 1) (app_queues a) of
           Inl e \<Rightarrow> []
         | Inr (v, g) \<Rightarrow> v))"

definition queue_entry :: "sei_payload metadata \<Rightarrow> injector \<times> app \<Rightarrow> injector \<times> app" where
  "queue_entry e s = (fst s, (snd s)\<lparr>app_queues := group_push_sei e (app_queues (snd s))\<rparr>)"

fun play ::
  "cpp_impl \<Rightarrow> rescaling \<Rightarrow> (nat \<Rightarrow> cpp_error option) \<Rightarrow> play_event list \<Rightarrow> injector \<times> app
    \<Rightarrow> (ts \<times> sei_payload metadata list) list" where
  "play im rescale grow [] s = []"
| "play im rescale grow (Queued e # es) s = play im rescale grow es (queue_entry e s)"
| "play im rescale grow (Frame pkt # es) s =
     (frame_time rescale pkt (fst s) (snd s), frame_answer im rescale pkt s)
       # play im rescale grow es (fst (sei_injector_process im rescale grow pkt s))"

text \<open>A user's input is the current one, the queue is a heap, and assertions are off.\<close>

definition playing :: "cpp_impl \<Rightarrow> input \<Rightarrow> injector \<times> app \<Rightarrow> bool" where
  "playing im inp s \<longleftrightarrow> get_current_input Sei_Kind (app_manager (snd s)) = Inr inp \<and>
     in_class inp = User_Defined_Input \<and> heap_group (app_queues (snd s)) \<and> \<not> asserts_on im"

lemma playing_queue_entry: "playing im inp s \<Longrightarrow> playing im inp (queue_entry e s)"
  by (simp add: playing_def queue_entry_def heap_group_def group_push_sei_def mq_push_def mq.push_heap_heap)

lemma queue_entry_simps:
  "inj_prev_pts (fst (queue_entry e s)) = inj_prev_pts (fst s)"
  "mset (g_sei (app_queues (snd (queue_entry e s)))) = add_mset e (mset (g_sei (app_queues (snd s))))"
  by (simp_all add: queue_entry_def group_push_sei_def mq_push_def mq.push_mset)

text \<open>One frame: what it is answered and what it leaves.\<close>

lemma playing_frame:
  assumes "playing im inp s" and "t = frame_time rescale pkt (fst s) (snd s)"
    and "s' = fst (sei_injector_process im rescale grow pkt s)"
  obtains v g where "query_sei im inp (inj_prev_pts (fst s)) (t + 1) (app_queues (snd s)) = Inr (v, g)"
    and "frame_answer im rescale pkt s = v" and "playing im inp s'" and "inj_prev_pts (fst s') = t + 1"
    and "mset (g_sei (app_queues (snd s'))) = filter_mset (\<lambda>x. t + 1 \<le> md_pts x) (mset (g_sei (app_queues (snd s))))"
proof -
  obtain ij a where s: "s = (ij, a)" by (cases s)
  have p: "get_current_input Sei_Kind (app_manager a) = Inr inp" "in_class inp = User_Defined_Input"
    "heap_group (app_queues a)" "\<not> asserts_on im" using assms(1) by (simp_all add: playing_def s)
  obtain v g where q: "query_sei im inp (inj_prev_pts ij) (t + 1) (app_queues a) = Inr (v, g)"
    using query_sei_release [OF p(4)] .
  have t: "frame_time rescale pkt ij a = t" using assms(2) by (simp add: s)
  have s': "s' = (frame_seen rescale pkt ij a (is_id (in_spec inp)), a\<lparr>app_queues := g\<rparr>)"
    using sei_injector_process_answered [OF p(1) refl t q, of grow] assms(3) by (simp add: s)
  show ?thesis
  proof (rule that)
    show "query_sei im inp (inj_prev_pts (fst s)) (t + 1) (app_queues (snd s)) = Inr (v, g)" using q by (simp add: s)
    show "frame_answer im rescale pkt s = v" using p(1) q t by (simp add: frame_answer_def s)
    show "playing im inp s'" using p query_sei_queue [OF p(3) q] by (simp add: playing_def s')
    show "inj_prev_pts (fst s') = t + 1" using t by (simp add: s' frame_seen_def)
    show "mset (g_sei (app_queues (snd s'))) = filter_mset (\<lambda>x. t + 1 \<le> md_pts x) (mset (g_sei (app_queues (snd s))))"
      using query_sei_queue [OF p(3) q] p(2) by (simp add: s' s)
  qed
qed

lemma answer_within:
  assumes "heap_group g" and "since < until" and "query_sei im inp since until g = Inr (v, g')" and "x \<in> set v"
  shows "since \<le> md_pts x \<and> md_pts x < until"
  using query_sei_spec [OF assms(1-3)] assms(4) by (auto simp: list_all_iff matches_def)

text \<open>An entry that is the only one of its input at its time is in the answer for its frame.\<close>

lemma answer_contains:
  assumes "heap_group g" and "in_class inp = User_Defined_Input" and "query_sei im inp since until g = Inr (v, g')"
    and "x \<in># mset (g_sei g)" and "matches (is_id (in_spec inp)) since until x"
    and "\<And>y. y \<in># mset (g_sei g) \<Longrightarrow> md_input_id y = md_input_id x \<Longrightarrow> md_pts y = md_pts x \<Longrightarrow> y = x"
  shows "x \<in> set v"
proof -
  obtain out q where p: "pop_all im (is_id (in_spec inp)) since until [] (g_sei g) = Inr (out, q)"
    and v: "v = (if length out > 0 then out else build_empty_sei inp since until)"
    using assms(2,3) by (auto simp: query_sei_def run_query_sei_def group_pop_all_sei_def bind_res_Inr_iff split: if_splits)
  have "heap_queue (g_sei g)" using assms(1) by (simp add: heap_group_def)
  from pop_all_spec [OF this p] have sp: "\<forall>v \<in> set out. v \<in># mset (g_sei g) \<and> matches (is_id (in_spec inp)) since until v"
    "\<forall>x \<in># mset (g_sei g). matches (is_id (in_spec inp)) since until x \<longrightarrow> (\<exists>v \<in> set out. md_pts v = md_pts x)" by auto
  from sp(2) assms(4,5) obtain y where y: "y \<in> set out" "md_pts y = md_pts x" by blast
  with sp(1) have "y \<in># mset (g_sei g)" "md_input_id y = is_id (in_spec inp)" by (auto simp: matches_def)
  with assms(5,6) y have "y = x" by (simp add: matches_def)
  with y v show ?thesis by (cases out) auto
qed

section \<open>Captions and frames\<close>

definition frames_ascend :: "ts \<Rightarrow> (ts \<times> sei_payload metadata list) list \<Rightarrow> bool" where
  "frames_ascend t0 frames \<longleftrightarrow> sorted_wrt (<) (map fst frames) \<and> list_all (\<lambda>f. t0 \<le> fst f) frames"

lemma frames_ascend_Cons:
  "frames_ascend t0 ((t, v) # frames) \<longleftrightarrow> t0 \<le> t \<and> frames_ascend (t + 1) frames"
  by (auto simp: frames_ascend_def list_all_iff)

lemma late_entry_not_played:
  assumes "playing im inp s" and "frames_ascend (inj_prev_pts (fst s)) (play im rescale grow es s)"
    and "md_pts x < inj_prev_pts (fst s)" and "(t, v) \<in> set (play im rescale grow es s)"
  shows "x \<notin> set v"
  using assms
proof (induction im rescale grow es s rule: play.induct)
  case (2 im rescale grow e es s)
  then show ?case by (simp add: playing_queue_entry queue_entry_simps)
next
  case (3 im rescale grow pkt es s)
  let ?t = "frame_time rescale pkt (fst s) (snd s)" and ?s' = "fst (sei_injector_process im rescale grow pkt s)"
  obtain v1 g where f: "query_sei im inp (inj_prev_pts (fst s)) (?t + 1) (app_queues (snd s)) = Inr (v1, g)"
    "frame_answer im rescale pkt s = v1" "playing im inp ?s'" "inj_prev_pts (fst ?s') = ?t + 1"
    using playing_frame [OF "3.prems"(1) refl refl] by metis
  have asc: "inj_prev_pts (fst s) \<le> ?t" "frames_ascend (?t + 1) (play im rescale grow es ?s')"
    using "3.prems"(2) by (simp_all add: frames_ascend_Cons)
  have "heap_group (app_queues (snd s))" using "3.prems"(1) by (simp add: playing_def)
  with answer_within [OF this _ f(1)] asc(1) "3.prems"(3) have "x \<notin> set v1" by force
  with "3.IH" [OF f(3)] f(2,4) asc "3.prems"(3,4) show ?case by auto
qed simp

text \<open>The entry is queued, not late, and the only one of its input at its time.\<close>

definition awaits :: "input \<Rightarrow> sei_payload metadata \<Rightarrow> play_event list \<Rightarrow> injector \<times> app \<Rightarrow> bool" where
  "awaits inp x es s \<longleftrightarrow> md_input_id x = is_id (in_spec inp) \<and> x \<in># mset (g_sei (app_queues (snd s))) \<and>
     inj_prev_pts (fst s) \<le> md_pts x \<and>
     (\<forall>y. y \<in># mset (g_sei (app_queues (snd s))) \<or> Queued y \<in> set es \<longrightarrow>
        md_input_id y = md_input_id x \<longrightarrow> md_pts y = md_pts x \<longrightarrow> y = x)"

lemma awaits_queued: "awaits inp x (Queued e # es) s \<Longrightarrow> awaits inp x es (queue_entry e s)"
  by (auto simp: awaits_def queue_entry_simps)

lemma queued_entry_played_once:
  assumes "playing im inp s" and "frames_ascend (inj_prev_pts (fst s)) (play im rescale grow es s)"
    and "awaits inp x es s" and "(t, v) \<in> set (play im rescale grow es s)"
  shows "x \<in> set v \<longleftrightarrow> md_pts x \<le> t \<and> (\<forall>(t', v') \<in> set (play im rescale grow es s). t' < t \<longrightarrow> t' < md_pts x)"
  using assms
proof (induction im rescale grow es s rule: play.induct)
  case (2 im rescale grow e es s)
  then show ?case by (simp add: playing_queue_entry queue_entry_simps awaits_queued)
next
  case (3 im rescale grow pkt es s)
  let ?t = "frame_time rescale pkt (fst s) (snd s)" and ?s' = "fst (sei_injector_process im rescale grow pkt s)"
  let ?rest = "play im rescale grow es ?s'"
  obtain v1 g where f: "query_sei im inp (inj_prev_pts (fst s)) (?t + 1) (app_queues (snd s)) = Inr (v1, g)"
    "frame_answer im rescale pkt s = v1" "playing im inp ?s'" "inj_prev_pts (fst ?s') = ?t + 1"
    "mset (g_sei (app_queues (snd ?s'))) = filter_mset (\<lambda>x. ?t + 1 \<le> md_pts x) (mset (g_sei (app_queues (snd s))))"
    using playing_frame [OF "3.prems"(1) refl refl] by metis
  have asc: "inj_prev_pts (fst s) \<le> ?t" "frames_ascend (?t + 1) ?rest"
    using "3.prems"(2) by (simp_all add: frames_ascend_Cons)
  then have later: "?t < t'" if "(t', v') \<in> set ?rest" for t' v'
    using that by (fastforce simp: frames_ascend_def list_all_iff)
  have h: "heap_group (app_queues (snd s))" and u: "in_class inp = User_Defined_Input"
    using "3.prems"(1) by (simp_all add: playing_def)
  have play: "play im rescale grow (Frame pkt # es) s = (?t, v1) # ?rest" using f(2) by simp
  show ?case
  proof (cases "md_pts x \<le> ?t")
    case True
    have "x \<in> set v1"
      by (rule answer_contains [OF h u f(1)]) (use "3.prems"(3) True in \<open>auto simp: awaits_def matches_def\<close>)
    moreover have "x \<notin> set v'" if "(t', v') \<in> set ?rest" for t' v'
      by (rule late_entry_not_played [OF f(3) _ _ that]) (use f(4) asc(2) True in simp_all)
    moreover have "\<not> ?t < md_pts x" using True by simp
    ultimately show ?thesis using "3.prems"(4) True later unfolding play by fastforce
  next
    case False
    have n: "x \<notin> set v1" using answer_within [OF h _ f(1)] asc(1) False by force
    have w: "awaits inp x es ?s'" using "3.prems"(3) False by (auto simp: awaits_def f(4,5))
    from "3.prems"(4) consider "t = ?t" "v = v1" | "(t, v) \<in> set ?rest" unfolding play by auto
    then show ?thesis
    proof cases
      case 1
      with n False show ?thesis by simp
    next
      case 2
      with "3.IH" [OF f(3) _ w] f(4) asc(2) False show ?thesis unfolding play by fastforce
    qed
  qed
qed simp

definition play_state :: "ts \<Rightarrow> ts \<Rightarrow> sei_payload mqueue \<Rightarrow> injector \<times> app" where
  "play_state now prev q = ((new_injector (default_clock\<lparr>c_val := now\<rparr>) (1, 90000))\<lparr>inj_prev_pts := prev\<rparr>,
     sample_app\<lparr>app_manager := sample_manager\<lparr>im_sei := 1\<rparr>, app_queues := empty_queues\<lparr>g_sei := q\<rparr>\<rparr>)"

lemma play_state_playing:
  "playing release_impl (user_defined_input
     (default_input_spec\<lparr>is_id := 1, is_name := ''a'', is_source := ''s'', is_sink := ''t''\<rparr>)) (play_state now prev [sample_entry 1 p 0])"
  by (simp add: playing_def play_state_def user_sample release_impl_def heap_group_def empty_queues_def)
    (simp add: user_defined_input_def is_heap_def)

lemma play_state_frame:
  "frame_time (\<lambda>t a b. t) sample_packet (fst (play_state now prev q)) (snd (play_state now prev q)) = now"
  by (simp add: frame_time_def rescale_to_clock_def new_injector_def clock_relative_def clock_now_def default_clock_def
      sample_app_def create_app_def play_state_def)

lemma play_state_prev: "inj_prev_pts (fst (play_state now prev q)) = prev"
  by (simp add: play_state_def)



text \<open>
  An entry whose time lies before the end of the last frame when it is queued is never in the
  answer of a frame.
\<close>

theorem late_captions_never_played:
  assumes "playing im inp s" and "frames_ascend (inj_prev_pts (fst s)) (play im rescale grow es s)"
    and "md_pts x < inj_prev_pts (fst s)" and "(t, v) \<in> set (play im rescale grow es s)"
  shows "x \<notin> set v"
  using assms by (rule late_entry_not_played)

theorem late_captions_never_played_witness:
  "\<exists>v. play release_impl (\<lambda>t a b. t) (\<lambda>n. None) [Frame sample_packet] (play_state 7 5 [sample_entry 1 3 0]) = [(7, v)] \<and>
     sample_entry 1 3 0 \<notin> set v"
proof -
  let ?s = "play_state 7 5 [sample_entry 1 3 0]"
  obtain v where p: "play release_impl (\<lambda>t a b. t) (\<lambda>n. None) [Frame sample_packet] ?s = [(7, v)]"
    by (simp add: play_state_frame)
  then have "sample_entry 1 3 0 \<notin> set v"
    using late_captions_never_played [OF play_state_playing, of 7 5 3 "\<lambda>t a b. t" "\<lambda>n. None" "[Frame sample_packet]"
        "sample_entry 1 3 0" 7 v]
    by (simp add: frames_ascend_def play_state_prev sample_entry_def)
  with p show ?thesis by blast
qed

end
