(* ===== verification/System.thy ===== *)
theory System
  imports Threads Options Controller Timeline
begin

text \<open>
  The threads that \<^verbatim>\<open>src/main.cpp\<close> starts, interleaved.  Every access to the shared
  state is under a lock or to an atomic variable, except for the capability flags of the inputs,
  which are taken to be atomic too, and each of them is one step of
  \<open>atomic_step\<close>, labelled with the thread that makes it.  The functions of the threads are shown to
  be sequences of such steps, so what every step keeps holds at every moment, in whatever order the
  scheduler lets the threads run.  A step does not say which values a thread has read before it, so
  the relation has every interleaving of the program and more.
\<close>

section \<open>Steps\<close>

datatype actor = Input_Thread input_id | Output_Thread | Control_Thread | Main_Thread

definition set_queues :: "meta_queues \<Rightarrow> app \<Rightarrow> app" where
  "set_queues g a = a\<lparr>app_queues := g\<rparr>"

definition on_input :: "input_id \<Rightarrow> (input \<Rightarrow> input) \<Rightarrow> app \<Rightarrow> app" where
  "on_input i f a = a\<lparr>app_manager := update_input i f (app_manager a)\<rparr>"

definition declare_cap :: "kind \<Rightarrow> input \<Rightarrow> input" where
  "declare_cap k inp = inp\<lparr>in_caps := set_cap k True (in_caps inp)\<rparr>"

definition user_input :: "app \<Rightarrow> input_id \<Rightarrow> input \<Rightarrow> bool" where
  "user_input a i inp \<longleftrightarrow> get_input_by_id i (app_manager a) = Some inp \<and> in_class inp = User_Defined_Input"

inductive atomic_step :: "cpp_impl \<Rightarrow> actor \<Rightarrow> app \<Rightarrow> app \<Rightarrow> bool" for im where
  restarted: "atomic_step im (Input_Thread i) a (on_input i (set_restart_scheduled False) a)"
| declared: "atomic_step im (Input_Thread i) a (on_input i (declare_cap k) a)"
| caption_queued: "user_input a i inp \<Longrightarrow> has_cap Sei_Kind (in_caps inp) \<Longrightarrow> md_input_id e = i \<Longrightarrow> is_caption (md_val e) \<Longrightarrow>
    atomic_step im (Input_Thread i) a (set_queues (group_push_sei e (app_queues a)) a)"
| section_queued: "user_input a i inp \<Longrightarrow> has_cap Scte_Kind (in_caps inp) \<Longrightarrow> md_input_id e = i \<Longrightarrow>
    atomic_step im (Input_Thread i) a (set_queues (group_push_scte e (app_queues a)) a)"
| captions_dropped: "atomic_step im (Input_Thread i) a
    (set_queues ((app_queues a)\<lparr>g_sei := snd (mq_drop_id i (g_sei (app_queues a)))\<rparr>) a)"
| sections_dropped: "atomic_step im (Input_Thread i) a
    (set_queues ((app_queues a)\<lparr>g_scte := snd (mq_drop_id i (g_scte (app_queues a)))\<rparr>) a)"
| reset_queued: "user_input a i inp \<Longrightarrow>
    atomic_step im (Input_Thread i) a (set_queues (group_push_sei (build_cc_reset_metadata i t) (app_queues a)) a)"
| ticked: "atomic_step im Output_Thread a (a\<lparr>app_clock := clock_increment d (app_clock a)\<rparr>)"
| frame_popped: "group_pop_all_sei im i since until (app_queues a) = Inr (v, g) \<Longrightarrow>
    atomic_step im Output_Thread a (set_queues g a)"
| switched: "is_input_id_valid i (app_manager a) \<Longrightarrow>
    atomic_step im Control_Thread a (a\<lparr>app_manager := exchange_current k i (app_manager a)\<rparr>)"
| restart_requested: "atomic_step im Control_Thread a (on_input i input_schedule_restart a)"
| adjusted: "atomic_step im Control_Thread a (set_ts_adjustment v a)"
| exited: "atomic_step im Main_Thread a (fst (app_exit a))"

inductive_cases input_stepE: "atomic_step im (Input_Thread i) a b"
inductive_cases output_stepE: "atomic_step im Output_Thread a b"
inductive_cases control_stepE: "atomic_step im Control_Thread a b"

abbreviation steps_of :: "cpp_impl \<Rightarrow> (actor \<Rightarrow> bool) \<Rightarrow> app \<Rightarrow> app \<Rightarrow> bool" where
  "steps_of im who \<equiv> (\<lambda>a b. \<exists>x. who x \<and> atomic_step im x a b)\<^sup>*\<^sup>*"

abbreviation run_of :: "cpp_impl \<Rightarrow> actor \<Rightarrow> app \<Rightarrow> app \<Rightarrow> bool" where
  "run_of im x \<equiv> (atomic_step im x)\<^sup>*\<^sup>*"

lemma run_of_steps: "run_of im x a b \<Longrightarrow> who x \<Longrightarrow> steps_of im who a b"
  by (erule rtranclp_mono [THEN predicate2D, rotated]) blast

lemma steps_of_mono: "steps_of im p a b \<Longrightarrow> (\<And>x. p x \<Longrightarrow> q x) \<Longrightarrow> steps_of im q a b"
  by (erule rtranclp_mono [THEN predicate2D, rotated]) blast

lemma run_of_three:
  "atomic_step im x a b \<Longrightarrow> atomic_step im x b c \<Longrightarrow> atomic_step im x c d \<Longrightarrow> run_of im x a d"
  by (meson converse_rtranclp_into_rtranclp rtranclp.rtrancl_refl)

text \<open>What every step keeps, every run keeps.\<close>

lemma run_of_keep:
  assumes "run_of im x a b" and "P a" and "\<And>a b. P a \<Longrightarrow> atomic_step im x a b \<Longrightarrow> P b"
  shows "P b"
  using assms(1,2) by (induction rule: rtranclp_induct) (blast intro: assms(3))+

lemma steps_of_keep:
  assumes "steps_of im who a b" and "P a"
    and "\<And>a b x. P a \<Longrightarrow> who x \<Longrightarrow> atomic_step im x a b \<Longrightarrow> P b"
  shows "P b"
  using assms(1,2) by (induction rule: rtranclp_induct) (blast intro: assms(3))+

section \<open>The inputs of a manager\<close>

lemma get_update_input:
  "get_input_by_id j (update_input i f m) =
     (if j = i then map_option f (get_input_by_id i m) else get_input_by_id j m)"
proof -
  have "map_of (map (\<lambda>(k, v). (k, if k = i then f v else v)) xs) j =
      (if j = i then map_option f (map_of xs i) else map_of xs j)" for xs :: "(input_id \<times> input) list"
    by (induction xs) auto
  then show ?thesis by (simp add: get_input_by_id_def update_input_def)
qed

lemma get_exchange_current [simp]: "get_input_by_id j (exchange_current k i m) = get_input_by_id j m"
  by (cases k) (simp_all add: exchange_current_def get_input_by_id_def)

text \<open>Writing an input back is an update in place.\<close>

lemma update_input_cong:
  assumes "manager_ok m" and "get_input_by_id i m = Some inp" and "f inp = h inp"
  shows "update_input i f m = update_input i h m"
proof -
  have "v = inp" if "(i, v) \<in> set (im_inputs m)" for v
  proof -
    have "distinct (map fst (im_inputs m))" using assms(1) by (simp add: manager_ok_def omap_ok_def strict_sorted_iff)
    from map_of_is_SomeI [OF this that] assms(2) show ?thesis by (simp add: get_input_by_id_def)
  qed
  with assms(3) have "map (\<lambda>(k, v). (k, if k = i then f v else v)) (im_inputs m)
      = map (\<lambda>(k, v). (k, if k = i then h v else v)) (im_inputs m)" by (intro map_cong) auto
  then show ?thesis by (simp add: update_input_def)
qed

lemma update_input_same: "update_input i (\<lambda>x. x) m = m"
  by (simp add: update_input_def case_prod_eta)

lemma update_input_twice: "update_input i f (update_input i h m) = update_input i (f \<circ> h) m"
  by (simp add: update_input_def) (simp add: case_prod_unfold if_distrib cong: if_cong)

lemma found_name_user:
  assumes "manager_ok m" and "get_input_by_name name m = Some inp"
  shows "get_input_by_id (is_id (in_spec inp)) m = Some inp"
proof -
  from assms(2) obtain i where i: "(i, inp) \<in> set (im_inputs m)"
    by (auto simp: get_input_by_name_def find_Some_iff) (metis nth_mem)
  then have "is_id (in_spec inp) = i" using assms(1) by (auto simp: manager_ok_def list_all_iff)
  moreover have "distinct (map fst (im_inputs m))" using assms(1) by (simp add: manager_ok_def omap_ok_def strict_sorted_iff)
  ultimately show ?thesis using i by (simp add: get_input_by_id_def map_of_is_SomeI)
qed

lemma input_updates_keep [simp]:
  "in_spec (set_restart_scheduled b inp) = in_spec inp" "in_spec (declare_cap k inp) = in_spec inp"
  "in_spec (input_schedule_restart inp) = in_spec inp" "in_class (set_restart_scheduled b inp) = in_class inp"
  "in_class (declare_cap k inp) = in_class inp" "in_class (input_schedule_restart inp) = in_class inp"
  "in_caps (set_restart_scheduled b inp) = in_caps inp" "in_caps (input_schedule_restart inp) = in_caps inp"
  by (simp_all add: set_restart_scheduled_def declare_cap_def input_schedule_restart_def split: input_class.splits)

lemma has_cap_declared: "has_cap k (in_caps inp) \<Longrightarrow> has_cap k (in_caps (declare_cap k' inp))"
  by (cases k; cases k') (simp_all add: has_cap_def declare_cap_def set_cap_def)

section \<open>The invariant\<close>

text \<open>
  Every entry that is queued belongs to a user's input; a caption is from an input that has
  declared captions, or is the reset of an input that has ended; a section is from an input that has
  declared sections.  The clear input is the one with id 0 and is never changed.
\<close>

definition queued_by_user :: "app \<Rightarrow> bool" where
  "queued_by_user a \<longleftrightarrow>
     (\<forall>e \<in> set (g_sei (app_queues a)). \<exists>inp. user_input a (md_input_id e) inp \<and> is_caption (md_val e) \<and>
        (has_cap Sei_Kind (in_caps inp) \<or> md_val e = RESET_SEI)) \<and>
     (\<forall>e \<in> set (g_scte (app_queues a)). \<exists>inp. user_input a (md_input_id e) inp \<and> has_cap Scte_Kind (in_caps inp))"

definition system_ok :: "app \<Rightarrow> bool" where
  "system_ok a \<longleftrightarrow> manager_ok (app_manager a) \<and> get_input_by_id 0 (app_manager a) = Some (clear_input 0) \<and> queued_by_user a"

text \<open>A step may lose inputs' entries and must keep the inputs, their classes and capabilities.\<close>

definition inputs_kept :: "app \<Rightarrow> app \<Rightarrow> bool" where
  "inputs_kept a b \<longleftrightarrow> (\<forall>i inp. get_input_by_id i (app_manager a) = Some inp \<longrightarrow>
     (\<exists>inp'. get_input_by_id i (app_manager b) = Some inp' \<and> in_class inp' = in_class inp \<and> in_spec inp' = in_spec inp \<and>
        (\<forall>k. has_cap k (in_caps inp) \<longrightarrow> has_cap k (in_caps inp'))))"

lemma atomic_step_inputs_kept: "atomic_step im x a b \<Longrightarrow> inputs_kept a b"
  by (induction rule: atomic_step.induct)
    (auto simp: inputs_kept_def set_queues_def on_input_def get_update_input set_ts_adjustment_def app_exit_def
      has_cap_declared)

lemma inputs_kept_user:
  "inputs_kept a b \<Longrightarrow> user_input a i inp \<Longrightarrow>
   \<exists>inp'. user_input b i inp' \<and> (\<forall>k. has_cap k (in_caps inp) \<longrightarrow> has_cap k (in_caps inp'))"
  by (fastforce simp: inputs_kept_def user_input_def)

text \<open>What a step may queue: nothing, a caption or a reset, or a section.\<close>

definition sei_ok :: "app \<Rightarrow> sei_payload metadata \<Rightarrow> bool" where
  "sei_ok a e \<longleftrightarrow> (\<exists>inp. user_input a (md_input_id e) inp \<and> is_caption (md_val e) \<and>
     (has_cap Sei_Kind (in_caps inp) \<or> md_val e = RESET_SEI))"

definition scte_ok :: "app \<Rightarrow> splice_info_section metadata \<Rightarrow> bool" where
  "scte_ok a e \<longleftrightarrow> (\<exists>inp. user_input a (md_input_id e) inp \<and> has_cap Scte_Kind (in_caps inp))"

lemma queued_by_user_iff:
  "queued_by_user a \<longleftrightarrow> (\<forall>e \<in># mset (g_sei (app_queues a)). sei_ok a e) \<and> (\<forall>e \<in># mset (g_scte (app_queues a)). scte_ok a e)"
  by (simp add: queued_by_user_def sei_ok_def scte_ok_def)

lemma reset_is_caption [simp]: "is_caption RESET_SEI" by (simp add: is_caption_def RESET_SEI_def)

lemma mset_queue_ops [simp]:
  "mset (g_sei (group_push_sei e g)) = add_mset e (mset (g_sei g))" "g_scte (group_push_sei e g) = g_scte g"
  "mset (g_scte (group_push_scte s g)) = add_mset s (mset (g_scte g))" "g_sei (group_push_scte s g) = g_sei g"
  "mset (snd (mq_drop_id i q)) = filter_mset (\<lambda>x. md_input_id x \<noteq> i) (mset q)"
  by (simp_all add: group_push_sei_def group_push_scte_def mq_push_def mq.push_mset mq_drop_id_def Let_def flip: mset_filter)

lemma group_pop_subset:
  "group_pop_all_sei im i since until g = Inr (v, g') \<Longrightarrow> mset (g_sei g') \<subseteq># mset (g_sei g) \<and> g_scte g' = g_scte g"
  by (auto simp: group_pop_all_sei_def bind_res_Inr_iff dest: pop_all_subset)

lemma atomic_step_queues:
  assumes "atomic_step im x a b"
  shows "mset (g_sei (app_queues b)) \<subseteq># mset (g_sei (app_queues a)) \<or>
      (\<exists>e. sei_ok a e \<and> mset (g_sei (app_queues b)) = add_mset e (mset (g_sei (app_queues a))))"
    and "mset (g_scte (app_queues b)) \<subseteq># mset (g_scte (app_queues a)) \<or>
      (\<exists>e. scte_ok a e \<and> mset (g_scte (app_queues b)) = add_mset e (mset (g_scte (app_queues a))))"
proof -
  show "mset (g_sei (app_queues b)) \<subseteq># mset (g_sei (app_queues a)) \<or>
      (\<exists>e. sei_ok a e \<and> mset (g_sei (app_queues b)) = add_mset e (mset (g_sei (app_queues a))))"
    using assms
    by (cases rule: atomic_step.cases)
      (auto simp: set_queues_def on_input_def set_ts_adjustment_def app_exit_def sei_ok_def build_cc_reset_metadata_def
        multiset_filter_subset dest: group_pop_subset)
  show "mset (g_scte (app_queues b)) \<subseteq># mset (g_scte (app_queues a)) \<or>
      (\<exists>e. scte_ok a e \<and> mset (g_scte (app_queues b)) = add_mset e (mset (g_scte (app_queues a))))"
    using assms
    by (cases rule: atomic_step.cases)
      (auto simp: set_queues_def on_input_def set_ts_adjustment_def app_exit_def scte_ok_def
        multiset_filter_subset dest: group_pop_subset)
qed

lemma entries_kept_ok: "inputs_kept a b \<Longrightarrow> sei_ok a e \<Longrightarrow> sei_ok b e" "inputs_kept a b \<Longrightarrow> scte_ok a s \<Longrightarrow> scte_ok b s"
  using inputs_kept_user by (fastforce simp: sei_ok_def scte_ok_def)+

lemma queue_step_all:
  assumes "M' \<subseteq># M \<or> (\<exists>e. P e \<and> M' = add_mset e M)" and "\<forall>e \<in># M. P e"
  shows "\<forall>e \<in># M'. P e"
  using assms by (auto dest: mset_subset_eqD)

lemma atomic_step_queued:
  assumes "atomic_step im x a b" and "queued_by_user a"
  shows "queued_by_user b"
  using queue_step_all [OF atomic_step_queues(1) [OF assms(1)]] queue_step_all [OF atomic_step_queues(2) [OF assms(1)]]
    assms(2) entries_kept_ok [OF atomic_step_inputs_kept [OF assms(1)]]
  unfolding queued_by_user_iff by blast

lemma on_input_manager:
  "manager_ok (app_manager a) \<Longrightarrow> (\<And>inp. in_spec (f inp) = in_spec inp) \<Longrightarrow> manager_ok (app_manager (on_input i f a))"
  by (simp add: on_input_def update_input_ok)

lemma exchange_current_ok:
  "manager_ok m \<Longrightarrow> is_input_id_valid i m \<Longrightarrow> manager_ok (exchange_current k i m)"
  by (cases k) (simp_all add: manager_ok_def exchange_current_def is_input_id_valid_def)

lemma atomic_step_manager: "atomic_step im x a b \<Longrightarrow> manager_ok (app_manager a) \<Longrightarrow> manager_ok (app_manager b)"
  by (induction rule: atomic_step.induct)
    (simp_all add: on_input_manager exchange_current_ok set_queues_def set_ts_adjustment_def app_exit_def)

lemma clear_input_updates [simp]:
  "set_restart_scheduled False (clear_input i) = clear_input i" "declare_cap k (clear_input i) = clear_input i"
  "input_schedule_restart (clear_input i) = clear_input i"
  by (simp_all add: set_restart_scheduled_def declare_cap_def input_schedule_restart_def clear_input_def set_cap_def split: kind.split)

lemma atomic_step_clear:
  assumes "atomic_step im x a b" and "get_input_by_id 0 (app_manager a) = Some (clear_input 0)"
  shows "get_input_by_id 0 (app_manager b) = Some (clear_input 0)"
  using assms
  by (cases rule: atomic_step.cases)
    (auto simp: set_queues_def on_input_def set_ts_adjustment_def app_exit_def get_update_input)

lemma atomic_step_ok: "system_ok a \<Longrightarrow> atomic_step im x a b \<Longrightarrow> system_ok b"
  using atomic_step_manager atomic_step_clear atomic_step_queued unfolding system_ok_def by blast


section \<open>The functions of the threads are made of steps\<close>

lemma run_of_user:
  assumes "run_of im x a b" and "user_input a i inp"
  shows "\<exists>inp'. user_input b i inp'"
proof (rule run_of_keep [OF assms(1)])
  show "\<exists>inp. user_input a i inp" using assms(2) by blast
qed (use atomic_step_inputs_kept inputs_kept_user in blast)

lemma run_of_manager: "run_of im x a b \<Longrightarrow> manager_ok (app_manager a) \<Longrightarrow> manager_ok (app_manager b)"
  by (erule run_of_keep) (blast intro: atomic_step_manager)+

subsection \<open>Inputs\<close>

lemma user_input_set_queues [simp]: "user_input (set_queues g a) i inp = user_input a i inp"
  by (simp add: user_input_def set_queues_def)

lemma set_queues_simps [simp]:
  "set_queues g (set_queues h a) = set_queues g a" "app_queues (set_queues g a) = g"
  "set_queues (app_queues a) a = a" "app_queues (on_input i f a) = app_queues a"
  by (simp_all add: set_queues_def on_input_def)

lemma captions_queued_steps:
  assumes "user_input a i inp" and "has_cap Sei_Kind (in_caps inp)"
    and "list_all (\<lambda>e. md_input_id e = i \<and> is_caption (md_val e)) es"
  shows "run_of im (Input_Thread i) a (set_queues (fold group_push_sei es (app_queues a)) a)"
  using assms
proof (induction es arbitrary: a)
  case (Cons e es)
  let ?b = "set_queues (group_push_sei e (app_queues a)) a"
  have "atomic_step im (Input_Thread i) a ?b" using Cons.prems by (intro atomic_step.caption_queued) auto
  moreover have "run_of im (Input_Thread i) ?b (set_queues (fold group_push_sei es (app_queues ?b)) ?b)"
    using Cons.prems by (intro Cons.IH) auto
  ultimately show ?case by (simp add: converse_rtranclp_into_rtranclp)
qed simp

lemma sections_queued_steps:
  assumes "user_input a i inp" and "has_cap Scte_Kind (in_caps inp)" and "\<And>sis. md_input_id (f sis) = i"
  shows "run_of im (Input_Thread i) a (set_queues (fold (group_push_scte \<circ> f) ss (app_queues a)) a)"
  using assms(1)
proof (induction ss arbitrary: a)
  case (Cons sis ss)
  let ?b = "set_queues (group_push_scte (f sis) (app_queues a)) a"
  have "atomic_step im (Input_Thread i) a ?b" using Cons.prems assms(2,3) by (intro atomic_step.section_queued) auto
  moreover have "run_of im (Input_Thread i) ?b (set_queues (fold (group_push_scte \<circ> f) ss (app_queues ?b)) ?b)"
    using Cons.prems by (intro Cons.IH) auto
  ultimately show ?case by (simp add: converse_rtranclp_into_rtranclp comp_def)
qed simp

lemma store_unchanged:
  assumes "manager_ok (app_manager a)" and "get_input_by_id i (app_manager a) = Some inp"
  shows "store_extraction i inp (app_queues a) a = a"
  using update_input_cong [OF assms, of "\<lambda>_. inp" "\<lambda>x. x"] by (simp add: store_extraction_def update_input_same)

lemma store_declared:
  assumes "manager_ok (app_manager a)" and "get_input_by_id i (app_manager a) = Some inp"
  shows "store_extraction i (declare_cap k inp) g a = set_queues g (on_input i (declare_cap k) a)"
  using update_input_cong [OF assms, of "\<lambda>_. declare_cap k inp" "declare_cap k"]
  by (simp add: store_extraction_def set_queues_def on_input_def)

lemma declared_step:
  assumes "user_input a i inp"
  shows "atomic_step im (Input_Thread i) a (on_input i (declare_cap k) a)"
    and "user_input (on_input i (declare_cap k) a) i (declare_cap k inp)"
  using assms by (auto simp: user_input_def on_input_def get_update_input intro: atomic_step.declared [unfolded on_input_def])

lemma caption_entries_all:
  "list_all is_caption seis \<Longrightarrow> list_all (\<lambda>e. md_input_id e = i \<and> is_caption (md_val e)) (caption_entries i p d k seis)"
  by (induction seis arbitrary: k) simp_all

lemma declared_has_cap [simp]:
  "has_cap Sei_Kind (in_caps (declare_cap Sei_Kind inp))" "has_cap Scte_Kind (in_caps (declare_cap Scte_Kind inp))"
  by (simp_all add: has_cap_def declare_cap_def set_cap_def)

lemma sei_stage_steps:
  assumes "manager_ok (app_manager (xt_app s))" and "user_input (xt_app s) i inp" and "sei_stage im rescale i pkt s = (s', pkt', r)"
  shows "run_of im (Input_Thread i) (xt_app s) (xt_app s')"
proof -
  let ?a = "xt_app s"
  have inp: "get_input_by_id i (app_manager ?a) = Some inp" using assms(2) by (simp add: user_input_def)
  obtain ex inp' g r' where e: "sei_extractor_process im rescale (c_time_base (app_clock ?a)) pkt (xt_sei s, inp, app_queues ?a)
      = ((ex, inp', g), r')" by (metis prod_cases3 surj_pair)
  obtain cc where cc: "list_all is_caption cc" "(ex, inp', g) = extracted rescale (c_time_base (app_clock ?a)) pkt (xt_sei s, inp, app_queues ?a) cc"
    using sei_extractor_process_extracted [OF e] by metis
  have s': "xt_app s' = store_extraction i inp' g ?a" using assms(3) by (auto simp: sei_stage_def inp e)
  show ?thesis
  proof (cases "cc = []")
    case True
    with cc(2) s' store_unchanged [OF assms(1) inp] show ?thesis by simp
  next
    case False
    let ?es = "caption_entries (is_id (in_spec inp)) (clock_pts rescale (c_time_base (app_clock ?a)) pkt (xt_sei s))
      (clock_dts rescale (c_time_base (app_clock ?a)) pkt (xt_sei s)) 0 cc"
    let ?b = "on_input i (declare_cap Sei_Kind) ?a"
    have x: "inp' = declare_cap Sei_Kind inp" "g = fold group_push_sei ?es (app_queues ?b)"
      using cc(2) False by (simp_all add: extracted_def declare_cap_def)
    have "run_of im (Input_Thread i) ?b (set_queues g ?b)" unfolding x(2)
      by (rule captions_queued_steps [OF declared_step(2) [OF assms(2)]])
        (use caption_entries_all [OF cc(1)] found_id [OF assms(1) inp] in simp_all)
    with declared_step(1) [OF assms(2), of im Sei_Kind] show ?thesis
      by (simp add: s' x(1) store_declared [OF assms(1) inp] converse_rtranclp_into_rtranclp)
  qed
qed

lemma scte_stage_steps:
  assumes "manager_ok (app_manager (xt_app s))" and "user_input (xt_app s) i inp" and "scte_stage im rescale i pkt s = (s', pkt', r)"
  shows "run_of im (Input_Thread i) (xt_app s) (xt_app s')"
proof -
  let ?a = "xt_app s"
  have inp: "get_input_by_id i (app_manager ?a) = Some inp" using assms(2) by (simp add: user_input_def)
  obtain ex inp' g r' where e: "scte_extractor_process im rescale (c_time_base (app_clock ?a)) pkt (xt_scte s, inp, app_queues ?a)
      = ((ex, inp', g), r')" by (metis prod_cases3 surj_pair)
  obtain ss where ss: "(ex, inp', g) = sections_extracted rescale (c_time_base (app_clock ?a)) pkt (xt_scte s, inp, app_queues ?a) ss"
    using scte_extractor_process_extracted [OF e] by metis
  have s': "xt_app s' = store_extraction i inp' g ?a" using assms(3) by (auto simp: scte_stage_def inp e)
  show ?thesis
  proof (cases "ss = []")
    case True
    with ss s' store_unchanged [OF assms(1) inp] show ?thesis by (simp add: sections_extracted_def)
  next
    case False
    let ?f = "section_entry (is_id (in_spec inp)) (clock_pts rescale (c_time_base (app_clock ?a)) pkt (xt_scte s))
      (clock_dts rescale (c_time_base (app_clock ?a)) pkt (xt_scte s))"
    let ?b = "on_input i (declare_cap Scte_Kind) ?a"
    have x: "inp' = declare_cap Scte_Kind inp" "g = fold (group_push_scte \<circ> ?f) ss (app_queues ?b)"
      using ss False by (simp_all add: sections_extracted_def declare_cap_def)
    have "run_of im (Input_Thread i) ?b (set_queues g ?b)" unfolding x(2)
      by (rule sections_queued_steps [OF declared_step(2) [OF assms(2)]])
        (use found_id [OF assms(1) inp] in \<open>simp_all add: section_entry_def\<close>)
    with declared_step(1) [OF assms(2), of im Scte_Kind] show ?thesis
      by (simp add: s' x(1) store_declared [OF assms(1) inp] converse_rtranclp_into_rtranclp)
  qed
qed


lemma input_stage_run:
  assumes "(k, f) \<in> set (extractor_factories im rescale i)" and "f tb t = (t', p)"
    and "manager_ok (app_manager (xt_app s))" and "user_input (xt_app s) i inp" and "p pkt s = (s', pkt', r)"
  shows "run_of im (Input_Thread i) (xt_app s) (xt_app s')"
proof -
  from assms(1,2) have "p = maintenance_stage i \<or> p = sei_stage im rescale i \<or> p = scte_stage im rescale i"
    by (auto simp: extractor_factories_def)
  moreover have "xt_app s' = xt_app s" if "p = maintenance_stage i"
    using assms(5) that by (auto simp: maintenance_stage_def split: option.splits)
  ultimately show ?thesis using sei_stage_steps [OF assms(3,4)] scte_stage_steps [OF assms(3,4)] assms(5) by auto
qed

lemma extractor_stream_run:
  assumes "run_stream im env src snk sf kf (extractor_factories im rescale i) w s = Some (w', s', r)"
    and "manager_ok (app_manager (xt_app s))" and "user_input (xt_app s) i inp"
  shows "run_of im (Input_Thread i) (xt_app s) (xt_app s')"
proof (rule run_stream_procs [OF _ _ assms(1), where P = "\<lambda>s'. run_of im (Input_Thread i) (xt_app s) (xt_app s')"])
  fix k f tb s1 s2 p
  assume "run_of im (Input_Thread i) (xt_app s) (xt_app s1)" "(k, f) \<in> set (extractor_factories im rescale i)" "f tb s1 = (s2, p)"
  then show "run_of im (Input_Thread i) (xt_app s) (xt_app s2)" by (auto simp: extractor_factories_def)
next
  fix k f tb t s1 pkt s2 p t' pkt' r
  assume f: "(k, f) \<in> set (extractor_factories im rescale i)" "f tb t = (t', p)"
    and s1: "run_of im (Input_Thread i) (xt_app s) (xt_app s1)" and p: "p pkt s1 = (s2, pkt', r)"
  obtain inp1 where "user_input (xt_app s1) i inp1" using run_of_user [OF s1 assms(3)] by blast
  from input_stage_run [OF f run_of_manager [OF s1 assms(2)] this p] s1
  show "run_of im (Input_Thread i) (xt_app s) (xt_app s2)" by (rule rtranclp_trans [rotated])
qed simp

lemma post_exit_run:
  assumes "user_input a (is_id spec) inp"
  shows "run_of im (Input_Thread (is_id spec)) a (set_queues (post_exit spec c (app_queues a)) a)"
proof -
  let ?i = "is_id spec" and ?g = "app_queues a"
  let ?b = "set_queues (?g\<lparr>g_sei := snd (mq_drop_id ?i (g_sei ?g))\<rparr>) a"
  let ?c = "set_queues ((app_queues ?b)\<lparr>g_scte := snd (mq_drop_id ?i (g_scte (app_queues ?b)))\<rparr>) ?b"
  let ?d = "set_queues (group_push_sei (build_cc_reset_metadata ?i (clock_now c + 1)) (app_queues ?c)) ?c"
  have "app_queues ?c = snd (group_drop_id ?i ?g)"
    by (intro meta_queues.equality) (simp_all add: group_drop_id_def split_def Let_def)
  then have d: "set_queues (post_exit spec c ?g) a = ?d" by (simp add: post_exit_def)
  have b: "atomic_step im (Input_Thread ?i) a ?b" by (rule atomic_step.captions_dropped)
  have c: "atomic_step im (Input_Thread ?i) ?b ?c" by (rule atomic_step.sections_dropped)
  have "atomic_step im (Input_Thread ?i) ?c ?d" by (rule atomic_step.reset_queued) (use assms in simp)
  with run_of_three [of im _ a ?b ?c ?d, OF b c] show ?thesis by (simp only: d)
qed

lemma extractor_thread_run:
  assumes "get_input_by_name name (app_manager a) = Some inp" and "in_class inp = User_Defined_Input"
    and "manager_ok (app_manager a)" and "extractor_thread im rescale env name (w, a) = Some ((w', a'), r)"
  shows "run_of im (Input_Thread (is_id (in_spec inp))) a a'"
proof -
  let ?i = "is_id (in_spec inp)"
  obtain s s' where run: "run_stream im env (is_source (in_spec inp)) (is_sink (in_spec inp)) (is_source_format (in_spec inp))
      (is_sink_format (in_spec inp)) (extractor_factories im rescale ?i) w s = Some (w', s', r)"
    and s: "xt_app s = on_input ?i (set_restart_scheduled False) a"
    and a': "a' = set_queues (post_exit (in_spec inp) (app_clock (xt_app s')) (app_queues (xt_app s'))) (xt_app s')"
    using extractor_thread_cases [OF assms(1,2,4)] by (metis on_input_def set_queues_def)
  have u: "user_input a ?i inp"
    using found_name_user [OF assms(3,1)] assms(2) by (simp add: user_input_def)
  have 1: "run_of im (Input_Thread ?i) a (xt_app s)" unfolding s by (rule r_into_rtranclp, rule atomic_step.restarted)
  obtain inp1 where u1: "user_input (xt_app s) ?i inp1" using run_of_user [OF 1 u] by blast
  have 2: "run_of im (Input_Thread ?i) (xt_app s) (xt_app s')"
    using extractor_stream_run [OF run run_of_manager [OF 1 assms(3)] u1] .
  obtain inp2 where "user_input (xt_app s') ?i inp2" using run_of_user [OF 2 u1] by blast
  then have "run_of im (Input_Thread ?i) (xt_app s') a'" unfolding a' by (rule post_exit_run)
  with 1 2 show ?thesis by (metis rtranclp_trans)
qed

subsection \<open>The output\<close>

lemma query_sei_run:
  assumes "query_sei im inp since until (app_queues a) = Inr (v, g)"
  shows "run_of im Output_Thread a (set_queues g a)"
proof -
  from assms consider "g = app_queues a"
    | out where "group_pop_all_sei im (is_id (in_spec inp)) since until (app_queues a) = Inr (out, g)"
    by (auto simp: query_sei_def run_query_sei_def bind_res_Inr_iff split: input_class.splits if_splits)
  then show ?thesis
  proof cases
    case 2
    from atomic_step.frame_popped [OF this] show ?thesis by (rule r_into_rtranclp)
  qed simp
qed

lemma sei_injector_process_run:
  assumes "sei_injector_process im rescale grow pkt (ij, a) = ((ij', a'), pkt', r)"
  shows "run_of im Output_Thread a a'"
proof (cases "get_current_input Sei_Kind (app_manager a)")
  case (Inl e)
  with assms have "a' = a" by (auto simp: sei_injector_process_def Let_def split: prod.splits)
  then show ?thesis by simp
next
  case (Inr inp)
  show ?thesis
  proof (cases "query_sei im inp (inj_prev_pts ij) (frame_time rescale pkt ij a + 1) (app_queues a)")
    case (Inl e)
    with assms Inr have "a' = a" by (auto simp: sei_injector_process_def split_def Let_def frame_time_def)
    then show ?thesis by simp
  next
    case q: (Inr vg)
    obtain v g where vg: "vg = (v, g)" by (cases vg)
    have "a' = set_queues g a"
      using assms sei_injector_process_answered [OF Inr refl refl q [unfolded vg]] by (simp add: set_queues_def)
    with query_sei_run [OF q [unfolded vg]] show ?thesis by simp
  qed
qed

lemma output_stage_run:
  assumes "(k, f) \<in> set (injector_factories im rescale grow)" and "f tb t = (t', p)" and "p pkt s = (s', pkt', r)"
  shows "run_of im Output_Thread (ot_app s) (ot_app s')"
proof -
  from assms(1,2) consider "p = ticker_stage rescale" | "p = injector_stage im rescale grow" | "p = (\<lambda>pkt s. (s, pkt, Inr False))"
    by (auto simp: injector_factories_def null_processor_def)
  then show ?thesis
  proof cases
    case 1
    then obtain d where "ot_app s' = (ot_app s)\<lparr>app_clock := clock_increment d (app_clock (ot_app s))\<rparr>"
      using assms(3) by (auto simp: ticker_stage_def clock_ticker_process_def tick_def Let_def split: prod.splits option.splits)
    then show ?thesis using atomic_step.ticked by auto
  next
    case 2
    with assms(3) obtain ij' b pkt2 r2 where
      "sei_injector_process im rescale grow pkt (ot_injector s, ot_app s) = ((ij', b), pkt2, r2)" "ot_app s' = b"
      by (auto simp: injector_stage_def split: prod.splits)
    with sei_injector_process_run show ?thesis by simp
  qed (use assms(3) in simp)
qed

lemma injector_thread_run:
  assumes "injector_thread im rescale grow env spec (w, a) = Some ((w', a'), r)"
  shows "run_of im Output_Thread a a'"
proof -
  let ?s = "\<lparr>ot_ticker = new_clock_ticker (app_clock a) (1, 1), ot_injector = new_injector (app_clock a) (1, 1), ot_app = a\<rparr>"
  obtain s' where run: "run_stream im env (os_source spec) (os_sink spec) (os_source_format spec) (os_sink_format spec)
      (injector_factories im rescale grow) w ?s = Some (w', s', r)" and a': "a' = ot_app s'"
    using assms by (auto simp: injector_thread_def split: option.splits prod.splits)
  have "run_of im Output_Thread a (ot_app s')"
  proof (rule run_stream_procs [OF _ _ run, where P = "\<lambda>s. run_of im Output_Thread a (ot_app s)"])
    fix k f tb s1 s2 p
    assume "run_of im Output_Thread a (ot_app s1)" "(k, f) \<in> set (injector_factories im rescale grow)" "f tb s1 = (s2, p)"
    then show "run_of im Output_Thread a (ot_app s2)" by (auto simp: injector_factories_def null_processor_def)
  next
    fix k f tb t s1 pkt s2 p t' pkt' r
    assume f: "(k, f) \<in> set (injector_factories im rescale grow)" "f tb t = (t', p)"
      and s1: "run_of im Output_Thread a (ot_app s1)" and p: "p pkt s1 = (s2, pkt', r)"
    from output_stage_run [OF f p] s1 show "run_of im Output_Thread a (ot_app s2)" by (rule rtranclp_trans [rotated])
  qed simp
  then show ?thesis by (simp add: a')
qed

subsection \<open>Requests\<close>

definition apply_change :: "kind \<Rightarrow> input_id option \<Rightarrow> app \<Rightarrow> app" where
  "apply_change k c a = (case c of None \<Rightarrow> a | Some i \<Rightarrow> a\<lparr>app_manager := exchange_current k i (app_manager a)\<rparr>)"

lemma apply_change_run:
  "pred_option (\<lambda>i. is_input_id_valid i (app_manager a)) c \<Longrightarrow> run_of im Control_Thread a (apply_change k c a)"
  by (cases c) (simp_all add: apply_change_def r_into_rtranclp atomic_step.switched)

lemma apply_change_valid: "is_input_id_valid i (app_manager (apply_change k c a)) = is_input_id_valid i (app_manager a)"
  by (cases k) (simp_all add: apply_change_def is_input_id_valid_def exchange_current_def split: option.split)

lemma set_current_inputs_run:
  "run_of im Control_Thread a (a\<lparr>app_manager := fst (set_current_inputs cs (app_manager a))\<rparr>)"
proof (cases "list_all (\<lambda>k. pred_option (\<lambda>i. is_input_id_valid i (app_manager a)) (cs_get k cs)) MetadataKindPack")
  case True
  let ?b = "apply_change Sei_Kind (cs_sei cs) a"
  let ?c = "apply_change Scte_Kind (cs_scte cs) ?b"
  from True have v: "pred_option (\<lambda>i. is_input_id_valid i (app_manager a)) (cs_sei cs)"
    "pred_option (\<lambda>i. is_input_id_valid i (app_manager ?b)) (cs_scte cs)"
    by (simp_all add: MetadataKindPack_def cs_get_def apply_change_valid)
  have "a\<lparr>app_manager := fst (set_current_inputs cs (app_manager a))\<rparr> = ?c"
    using True by (simp add: set_current_inputs_spec apply_change_def exchange_current_def split: option.split)
  with apply_change_run [OF v(1)] apply_change_run [OF v(2)] show ?thesis by (metis rtranclp_trans)
qed (simp add: set_current_inputs_spec)

lemma handle_request_run: "run_of im Control_Thread a (fst (handle_request parse a rq))"
proof -
  have r: "fst (respond x) = fst x" for x by (auto simp: respond_def split: prod.splits sum.splits)
  have "run_of im Control_Thread a (fst (set_current_input a j))" for j
  proof -
    have "fst (set_current_input a j) = a \<or>
        (\<exists>cs. fst (set_current_input a j) = a\<lparr>app_manager := fst (set_current_inputs cs (app_manager a))\<rparr>)"
      by (auto simp: set_current_input_def split: sum.splits prod.splits option.splits) (metis fst_conv)+
    then show ?thesis using set_current_inputs_run by fastforce
  qed
  moreover have "run_of im Control_Thread a (fst (restart_input a j))" for j
    using atomic_step.restart_requested [of im a] by (auto simp: restart_input_def on_input_def split: sum.splits)
  moreover have "run_of im Control_Thread a (fst (set_config a j))" for j
    using atomic_step.adjusted [of im a] by (auto simp: set_config_def split: option.splits sum.splits)
  ultimately show ?thesis by (auto simp: handle_request_def r with_body_def split: sum.splits)
qed


section \<open>The program\<close>

text \<open>The states of the program from its start on, whatever the threads do in whatever order.\<close>

inductive reachable_system :: "cpp_impl \<Rightarrow> app \<Rightarrow> bool" for im where
  booted: "parse_options pa = Inr (Some opts) \<Longrightarrow> start_app opts = Inr (a, names) \<Longrightarrow>
    length (po_user_inputs opts) < 2 ^ 32 \<Longrightarrow> reachable_system im a"
| stepped: "reachable_system im a \<Longrightarrow> atomic_step im x a b \<Longrightarrow> reachable_system im b"

lemma start_app_manager:
  assumes "start_app opts = Inr (a, names)"
  shows "app_queues a = empty_queues" and "app_manager a = create_manager (start_inputs (po_user_inputs opts)) \<or>
    (\<exists>cs. app_manager a = fst (set_current_inputs_by_name cs (create_manager (start_inputs (po_user_inputs opts)))))"
  using assms
  by (auto simp: start_app_def bind_res_Inr_iff Let_def create_app_def split: prod.splits option.splits) (metis fst_conv)+

lemma start_app_ok:
  assumes "start_app opts = Inr (a, names)" and "length (po_user_inputs opts) < 2 ^ 32"
  shows "system_ok a"
proof -
  note m = start_app_manager [OF assms(1)] and i = start_inputs_manager [OF assms(2)]
  have "reachable_manager (app_manager a)" using m(2) i(2) by (auto intro: reachable_manager.by_name)
  moreover have "im_inputs (app_manager a) = map (\<lambda>inp. (is_id (in_spec inp), inp)) (start_inputs (po_user_inputs opts))"
    using m(2) i(1) by (auto simp: set_current_inputs_by_name_inputs)
  then have "get_input_by_id 0 (app_manager a) = Some (clear_input 0)"
    by (simp add: get_input_by_id_def start_inputs_def clear_input_def)
  ultimately show ?thesis
    using m(1) by (simp add: system_ok_def reachable_manager_ok queued_by_user_def empty_queues_def)
qed

lemma reachable_system_ok: "reachable_system im a \<Longrightarrow> system_ok a"
  by (induction rule: reachable_system.induct) (blast intro: start_app_ok atomic_step_ok)+

lemma reachable_run: "run_of im x a b \<Longrightarrow> reachable_system im a \<Longrightarrow> reachable_system im b"
  by (induction rule: rtranclp_induct) (auto intro: reachable_system.stepped)




section \<open>Inputs do not disturb each other\<close>

definition input_view :: "input_id \<Rightarrow> app \<Rightarrow> input option \<times> sei_payload metadata multiset \<times> splice_info_section metadata multiset" where
  "input_view j a = (get_input_by_id j (app_manager a),
     filter_mset (\<lambda>e. md_input_id e = j) (mset (g_sei (app_queues a))),
     filter_mset (\<lambda>e. md_input_id e = j) (mset (g_scte (app_queues a))))"

lemma filter_other: "j \<noteq> i \<Longrightarrow> filter_mset (\<lambda>e. md_input_id e = j) (filter_mset (\<lambda>e. md_input_id e \<noteq> i) M) =
    filter_mset (\<lambda>e. md_input_id e = j) M"
  unfolding filter_filter_mset by (rule filter_mset_cong) auto

lemma input_step_view: "atomic_step im (Input_Thread i) a b \<Longrightarrow> j \<noteq> i \<Longrightarrow> input_view j b = input_view j a"
  by (erule input_stepE)
    (auto simp: input_view_def set_queues_def on_input_def get_update_input filter_other build_cc_reset_metadata_def)

lemma input_run_view: "run_of im (Input_Thread i) a b \<Longrightarrow> j \<noteq> i \<Longrightarrow> input_view j b = input_view j a"
  by (erule run_of_keep [where P = "\<lambda>b. input_view j b = input_view j a"]) (simp, metis input_step_view)

text \<open>
  C8: Whatever one input's thread does, another input and its entries in both queues stay as
  they are.
\<close>

theorem inputs_do_not_disturb_each_other:
  assumes "get_input_by_name name (app_manager a) = Some inp" and "in_class inp = User_Defined_Input"
    and "manager_ok (app_manager a)" and "j \<noteq> is_id (in_spec inp)"
    and "extractor_thread im rescale env name (w, a) = Some ((w', a'), r)"
  shows "get_input_by_id j (app_manager a') = get_input_by_id j (app_manager a) \<and>
    filter_mset (\<lambda>e. md_input_id e = j) (mset (g_sei (app_queues a')))
      = filter_mset (\<lambda>e. md_input_id e = j) (mset (g_sei (app_queues a))) \<and>
    filter_mset (\<lambda>e. md_input_id e = j) (mset (g_scte (app_queues a')))
      = filter_mset (\<lambda>e. md_input_id e = j) (mset (g_scte (app_queues a)))"
  using input_run_view [OF extractor_thread_run [OF assms(1-3,5)] assms(4)] by (simp add: input_view_def)

theorem inputs_do_not_disturb_each_other_witness:
  "\<exists>w a r. extractor_thread sample_impl (\<lambda>t a b. t) sample_env ''a''
      (empty_list_io, set_queues (empty_queues\<lparr>g_sei := [sample_entry 2 7 0]\<rparr>) sample_app) = Some ((w, a), r) \<and>
    filter_mset (\<lambda>e. md_input_id e = 2) (mset (g_sei (app_queues a))) = {#sample_entry 2 7 0#}"
proof -
  let ?a = "set_queues (empty_queues\<lparr>g_sei := [sample_entry 2 7 0]\<rparr>) sample_app"
  let ?inp = "user_defined_input (default_input_spec\<lparr>is_id := 1, is_name := ''a'', is_source := ''s'', is_sink := ''t''\<rparr>)"
  have n: "get_input_by_name ''a'' (app_manager ?a) = Some ?inp" "manager_ok (app_manager ?a)"
    using sample_user by (simp_all add: set_queues_def)
  have c: "in_class ?inp = User_Defined_Input" "2 \<noteq> is_id (in_spec ?inp)" by (simp_all add: user_defined_input_def)
  obtain w a r where run: "extractor_thread sample_impl (\<lambda>t a b. t) sample_env ''a'' (empty_list_io, ?a) = Some ((w, a), r)"
    using sample_thread_some by blast
  from inputs_do_not_disturb_each_other [OF n(1) c(1) n(2) c(2) run] run show ?thesis
    by (auto simp: sample_entry_def)
qed

section \<open>A restart request is not lost\<close>

definition restart_pending :: "input_id \<Rightarrow> app \<Rightarrow> bool" where
  "restart_pending i a \<longleftrightarrow> (\<exists>inp. user_input a i inp \<and> in_restart_scheduled inp)"

lemma restart_stays_pending:
  assumes "restart_pending i a" and "x \<noteq> Input_Thread i" and "atomic_step im x a b"
  shows "restart_pending i b"
  using assms(3,1,2)
  by (induction rule: atomic_step.induct)
    (auto simp: restart_pending_def user_input_def set_queues_def on_input_def get_update_input set_ts_adjustment_def
      app_exit_def declare_cap_def set_restart_scheduled_def input_schedule_restart_def)

lemma restart_stays_pending_steps:
  "steps_of im (\<lambda>x. x \<noteq> Input_Thread i) a b \<Longrightarrow> restart_pending i a \<Longrightarrow> restart_pending i b"
  by (erule steps_of_keep) (blast intro: restart_stays_pending)+



section \<open>The reset of an input that ends\<close>

lemma input_step_frame:
  assumes "atomic_step im (Input_Thread i) a b" and "manager_ok (app_manager a)"
  shows "input_frame a b"
  using atomic_step_manager [OF assms] assms(1)
  by (elim input_stepE) (simp_all add: input_frame_def set_queues_def on_input_def update_input_def)

lemma input_run_frame:
  assumes "run_of im (Input_Thread i) a b" and "manager_ok (app_manager a)"
  shows "input_frame a b"
proof (rule run_of_keep [OF assms(1)])
  show "input_frame a c" if "input_frame a b" "atomic_step im (Input_Thread i) b c" for b c
    using that input_step_frame [OF that(2)] by (simp add: input_frame_def)
qed (use assms(2) in \<open>simp add: input_frame_def\<close>)

text \<open>Queued before everything else in the queue, an entry comes to the front and is the answer's first.\<close>

lemma first_entry_answered:
  assumes "in_class inp = User_Defined_Input" and "is_id (in_spec inp) = md_input_id e"
    and "\<And>y. y \<in> set (g_sei g) \<Longrightarrow> meta_key e < meta_key y" and "since \<le> md_pts e" and "md_pts e < until"
    and "query_sei im inp since until (group_push_sei e g) = Inr (v, g')"
  shows "e \<in> set v"
proof -
  let ?q = "g_sei (group_push_sei e g)"
  have q: "?q = push_heap comparator (g_sei g @ [e])" by (simp add: group_push_sei_def mq_push_def)
  have h: "hd ?q = e" unfolding q by (rule push_heap_front) (simp add: comparator_key assms(3))
  have ne: "?q \<noteq> []" using mset_queue_ops(1) [of e g] by (metis mset_zero_iff add_mset_not_empty)
  obtain out q' where p: "pop_all im (is_id (in_spec inp)) since until [] ?q = Inr (out, q')"
    and v: "v = (if length out > 0 then out else build_empty_sei inp since until)"
    using assms(1,6) by (auto simp: query_sei_def run_query_sei_def group_pop_all_sei_def bind_res_Inr_iff split: if_splits)
  have "hd ?q \<in> set out"
    by (rule pop_all_front [OF ne _ p]) (use assms(2,4,5) in \<open>simp add: h matches_def\<close>)
  then show ?thesis by (cases out) (simp_all add: v h)
qed

lemma mset_all: "(\<forall>x \<in># mset xs. P x) \<longleftrightarrow> (\<forall>x \<in> set xs. P x)"
  by simp



text \<open>
  Two inputs that lag behind: the clock stands at 10, the entries were queued after the last frame.
\<close>

definition lagging_queues :: meta_queues where
  "lagging_queues = fold group_push_sei [sample_entry 2 9 0, sample_entry 1 50 0, sample_entry 1 10 0, sample_entry 1 60 0] empty_queues"

definition lagging_input :: input where
  "lagging_input = user_defined_input (default_input_spec\<lparr>is_id := 2, is_name := ''b''\<rparr>)"


section \<open>Witness of the invariant\<close>


end
