(* ===== verification/Delivery.thy ===== *)
theory Delivery
  imports System
begin

text \<open>
  Delivery of captions between the threads: what an input has queued is not touched by the other
  threads, and reaches the answer of the frame it is for, whatever they do in between.
\<close>

section \<open>Entries stay queued\<close>

lemma foreign_step_view:
  assumes "atomic_step im x a b" and "x \<noteq> Output_Thread" and "x \<noteq> Input_Thread i"
  shows "snd (input_view i b) = snd (input_view i a)"
proof (cases x)
  case (Input_Thread j)
  with assms have "input_view i b = input_view i a" by (intro input_step_view [of im j]) auto
  then show ?thesis by simp
next
  case Output_Thread
  with assms show ?thesis by simp
next
  case Control_Thread
  with assms show ?thesis
    by (auto simp: input_view_def on_input_def set_ts_adjustment_def elim!: control_stepE)
next
  case Main_Thread
  with assms(1) show ?thesis by (cases rule: atomic_step.cases) (simp_all add: input_view_def app_exit_def)
qed

lemma foreign_steps_view:
  assumes "steps_of im (\<lambda>x. x \<noteq> Output_Thread \<and> x \<noteq> Input_Thread i) a b"
  shows "snd (input_view i b) = snd (input_view i a)"
  by (rule steps_of_keep [OF assms, where P = "\<lambda>c. snd (input_view i c) = snd (input_view i a)"])
    (use foreign_step_view in auto)

lemma own_entries:
  "snd (input_view i b) = snd (input_view i a) \<Longrightarrow> md_input_id e = i \<Longrightarrow>
   e \<in> set (g_sei (app_queues b)) \<longleftrightarrow> e \<in> set (g_sei (app_queues a))"
  by (simp add: input_view_def) (metis (mono_tags, lifting) mem_Collect_eq set_mset_filter set_mset_mset)

lemma steps_user:
  assumes "steps_of im who a b" and "user_input a i inp"
  shows "\<exists>inp'. user_input b i inp'"
  by (rule steps_of_keep [OF assms(1)]) (use assms(2) atomic_step_inputs_kept inputs_kept_user in blast)+

lemma steps_manager: "steps_of im who a b \<Longrightarrow> manager_ok (app_manager a) \<Longrightarrow> manager_ok (app_manager b)"
  by (erule steps_of_keep) (blast intro: atomic_step_manager)+

text \<open>Of the entries in a frame that are alone at their time, none is left out of the answer.\<close>

lemma lone_entry_answered:
  assumes "heap_group g" and "query_sei im inp since until g = Inr (v, g')" and "in_class inp = User_Defined_Input"
    and "is_id (in_spec inp) = md_input_id e" and "e \<in> set (g_sei g)" and "since \<le> md_pts e" and "md_pts e < until"
    and "\<forall>y \<in> set (g_sei g). md_input_id y = md_input_id e \<and> md_pts y = md_pts e \<longrightarrow> y = e"
  shows "e \<in> set v"
proof -
  obtain out q where p: "pop_all im (md_input_id e) since until [] (g_sei g) = Inr (out, q)"
    and v: "v = (if length out > 0 then out else build_empty_sei inp since until)"
    using assms(2-4) by (auto simp: query_sei_def run_query_sei_def group_pop_all_sei_def bind_res_Inr_iff split: if_splits)
  have h: "heap_queue (g_sei g)" using assms(1) by (simp add: heap_group_def)
  from pop_all_spec [OF h p] assms(5-7) obtain y where "y \<in> set out" "md_pts y = md_pts e" "y \<in> set (g_sei g)"
    "matches (md_input_id e) since until y" by (auto simp: matches_def)
  with assms(8) have "e \<in> set out" by (auto simp: matches_def)
  then show ?thesis by (cases out) (simp_all add: v)
qed

section \<open>The property\<close>

text \<open>
  C5: Whatever the other threads do between the queueing of a caption and the frame it is for -
  pushes and ends of other inputs, requests, the exit - a caption that is alone at its time is
  in the answer of the frame that covers it, provided that its input is then the current one and
  the queue is still a heap.
\<close>

theorem queued_caption_is_played:
  assumes "steps_of im (\<lambda>x. x \<noteq> Output_Thread \<and> x \<noteq> Input_Thread (md_input_id e)) a b"
    and "manager_ok (app_manager a)" and "user_input a (md_input_id e) inp" and "e \<in> set (g_sei (app_queues a))"
    and "\<forall>y \<in> set (g_sei (app_queues a)). md_input_id y = md_input_id e \<and> md_pts y = md_pts e \<longrightarrow> y = e"
    and "heap_group (app_queues b)" and "\<not> asserts_on im" and "im_sei (app_manager b) = md_input_id e"
    and "inj_prev_pts ij \<le> md_pts e" and "md_pts e \<le> frame_time rescale pkt ij b"
  shows "e \<in> set (frame_answer im rescale pkt (ij, b))"
proof -
  let ?until = "frame_time rescale pkt ij b + 1"
  note view = foreign_steps_view [OF assms(1)]
  obtain inp' where u: "user_input b (md_input_id e) inp'" using steps_user [OF assms(1,3)] by blast
  have id: "is_id (in_spec inp') = md_input_id e"
    using found_id [OF steps_manager [OF assms(1,2)]] u by (simp add: user_input_def)
  have cur: "get_current_input Sei_Kind (app_manager b) = Inr inp'"
    using u assms(8) by (simp add: get_current_input_def get_current_input_id_def user_input_def)
  obtain v g' where v: "query_sei im inp' (inj_prev_pts ij) ?until (app_queues b) = Inr (v, g')"
    using query_sei_release [OF assms(7)] .
  have "e \<in> set v"
    by (rule lone_entry_answered [OF assms(6) v])
      (use u id assms(4,5,9,10) own_entries [OF view] in \<open>auto simp: user_input_def\<close>)
  then show ?thesis using cur v by (simp add: frame_answer_def)
qed

theorem queued_caption_is_played_witness:
  "\<exists>b. steps_of release_impl (\<lambda>x. x = Control_Thread) (set_queues (empty_queues\<lparr>g_sei := [sample_entry 1 3 0]\<rparr>) sample_app) b \<and>
     sample_entry 1 3 0 \<in> set (frame_answer release_impl (\<lambda>t a b. t) sample_packet
       ((new_injector (default_clock\<lparr>c_val := 7\<rparr>) (1, 1))\<lparr>inj_prev_pts := 1\<rparr>, b))"
proof -
  let ?a = "set_queues (empty_queues\<lparr>g_sei := [sample_entry 1 3 0]\<rparr>) sample_app"
  let ?b = "?a\<lparr>app_manager := exchange_current Sei_Kind 1 (app_manager ?a)\<rparr>"
  let ?inp = "user_defined_input (default_input_spec\<lparr>is_id := 1, is_name := ''a'', is_source := ''s'', is_sink := ''t''\<rparr>)"
  let ?ij = "(new_injector (default_clock\<lparr>c_val := 7\<rparr>) (1, 1))\<lparr>inj_prev_pts := 1\<rparr>"
  have m: "manager_ok (app_manager ?a)" using sample_user(2) by (simp add: set_queues_def)
  have u: "user_input ?a 1 ?inp"
    using found_name_user [OF sample_user(2,1)] by (simp add: user_input_def set_queues_def user_defined_input_def)
  have "is_input_id_valid 1 (app_manager ?a)"
    using u by (simp add: user_input_def is_input_id_valid_def get_input_by_id_def) (metis domI dom_map_of_conv_image_fst option.distinct(1))
  then have st: "atomic_step release_impl Control_Thread ?a ?b" by (rule atomic_step.switched)
  then have s: "steps_of release_impl (\<lambda>x. x \<noteq> Output_Thread \<and> x \<noteq> Input_Thread (md_input_id (sample_entry 1 3 0))) ?a ?b"
    by (intro r_into_rtranclp exI [of _ Control_Thread]) simp
  have h: "heap_group (app_queues ?b)" by (simp add: set_queues_def heap_group_def empty_queues_def) code_simp
  have f: "frame_time (\<lambda>t a b. t) sample_packet ?ij ?b = 7"
    by (simp add: frame_time_def rescale_to_clock_def new_injector_def clock_relative_def clock_now_def set_queues_def
        sample_app_def create_app_def)
  have "sample_entry 1 3 0 \<in> set (frame_answer release_impl (\<lambda>t a b. t) sample_packet (?ij, ?b))"
    by (rule queued_caption_is_played [OF s m _ _ _ h])
      (use u f in \<open>simp_all add: sample_entry_def set_queues_def release_impl_def exchange_current_def\<close>)
  with st show ?thesis by (intro exI [of _ ?b]) (auto intro: r_into_rtranclp)
qed

section \<open>Sections are not consumed\<close>

lemma pop_all_sei_keeps_sections: "group_pop_all_sei im i since until g = Inr (v, g') \<Longrightarrow> g_scte g' = g_scte g"
  by (auto simp: group_pop_all_sei_def bind_res_Inr_iff)

lemma foreign_step_sections:
  assumes "atomic_step im x a b" and "x \<noteq> Input_Thread i"
  shows "snd (snd (input_view i b)) = snd (snd (input_view i a))"
proof (cases "x = Output_Thread")
  case True
  with assms(1) show ?thesis
    by (auto simp: input_view_def elim!: output_stepE dest!: pop_all_sei_keeps_sections)
next
  case False
  with foreign_step_view [OF assms(1) False assms(2)] show ?thesis by simp
qed

text \<open>
  Whatever the other threads do, the output thread included: a queued SCTE-35 section stays
  queued until its own input's thread ends.
\<close>

theorem sections_are_never_consumed:
  assumes "steps_of im (\<lambda>x. x \<noteq> Input_Thread (md_input_id e)) a b"
  shows "e \<in> set (g_scte (app_queues b)) \<longleftrightarrow> e \<in> set (g_scte (app_queues a))"
proof -
  have "snd (snd (input_view (md_input_id e) b)) = snd (snd (input_view (md_input_id e) a))"
    by (rule steps_of_keep [OF assms, where P = "\<lambda>c. snd (snd (input_view (md_input_id e) c)) = snd (snd (input_view (md_input_id e) a))"])
      (use foreign_step_sections in auto)
  then show ?thesis by (simp add: input_view_def) (metis (mono_tags, lifting) mem_Collect_eq set_mset_filter set_mset_mset)
qed

theorem sections_are_never_consumed_witness:
  "\<exists>b. steps_of release_impl (\<lambda>x. x \<noteq> Input_Thread 1)
       (set_queues (empty_queues\<lparr>g_scte := [\<lparr>md_input_id = 1, md_pts = 3, md_dts = 3, md_order = 0, md_val = sample_section\<rparr>]\<rparr>) sample_app) b \<and>
     app_clock b \<noteq> app_clock sample_app \<and>
     \<lparr>md_input_id = 1, md_pts = 3, md_dts = 3, md_order = 0, md_val = sample_section\<rparr> \<in> set (g_scte (app_queues b))"
proof -
  let ?e = "\<lparr>md_input_id = 1, md_pts = 3, md_dts = 3, md_order = 0, md_val = sample_section\<rparr>"
  let ?a = "set_queues (empty_queues\<lparr>g_scte := [?e]\<rparr>) sample_app"
  let ?b = "?a\<lparr>app_clock := clock_increment 5 (app_clock ?a)\<rparr>"
  have "atomic_step release_impl Output_Thread ?a ?b" by (rule atomic_step.ticked)
  then have st: "steps_of release_impl (\<lambda>x. x \<noteq> Input_Thread 1) ?a ?b" by blast
  then have "steps_of release_impl (\<lambda>x. x \<noteq> Input_Thread (md_input_id ?e)) ?a ?b" by simp
  from sections_are_never_consumed [OF this] have "?e \<in> set (g_scte (app_queues ?b))" by simp
  moreover have "app_clock ?b \<noteq> app_clock sample_app"
    by (simp add: sample_app_def create_app_def clock_increment_def default_clock_def wrap64_def set_queues_def)
  ultimately show ?thesis using st by blast
qed

end
