(* ===== verification/Packet_Lifetime.thy ===== *)
theory Packet_Lifetime
  imports Packet_Refs
begin

text \<open>
  The one packet of \<^verbatim>\<open>remux_loop\<close> (\<^verbatim>\<open>src/io/remux_loop.cpp\<close>): it is
  allocated in front of the loop and owned by a \<^verbatim>\<open>std::unique_ptr\<close>, filled by every read,
  and released by a guard at the end of a round, however the round ends.
\<close>

text \<open>
  What a round does with the packet: reading fills it, the check looks at it, the processors may
  replace its data, and the muxer takes it over.
\<close>

record ('p, 'w) packet_user =
  pu_read :: "'p \<Rightarrow> 'w \<Rightarrow> bool result \<times> 'p \<times> 'w"
  pu_check :: "'p \<Rightarrow> 'w \<Rightarrow> unit result"
  pu_process :: "'p \<Rightarrow> 'w \<Rightarrow> bool result \<times> 'p \<times> 'w"
  pu_write :: "'p \<Rightarrow> 'w \<Rightarrow> unit result \<times> 'p \<times> 'w"

record ('p, 'w) packet_state =
  ps_pkt :: 'p
  ps_world :: 'w
  ps_read_trial :: nat
  ps_remux_trial :: nat

text \<open>The destructor of \<^verbatim>\<open>AVPacketUnrefGuard\<close> at the end of its scope.\<close>

definition guard_destroy :: "('p, 'w) packet_api \<Rightarrow> ('p, 'w) packet_state \<Rightarrow> ('p, 'w) packet_state" where
  "guard_destroy api st = (let (p, w) = unref_guard api (ps_pkt st) (ps_world st) in st\<lparr>ps_pkt := p, ps_world := w\<rparr>)"

definition packet_write_round ::
  "('p, 'w) packet_user \<Rightarrow> bool \<Rightarrow> ('p, 'w) packet_state \<Rightarrow> ('p, 'w) packet_state \<times> unit result option" where
  "packet_write_round u brk st = (case pu_write u (ps_pkt st) (ps_world st) of
     (Inr _, p, w) \<Rightarrow> (st\<lparr>ps_pkt := p, ps_world := w, ps_remux_trial := 0\<rparr>, if brk then Some (Inr ()) else None)
   | (Inl e, p, w) \<Rightarrow> (let st = st\<lparr>ps_pkt := p, ps_world := w\<rparr> in
       if retries (ps_remux_trial st) e
       then (st\<lparr>ps_remux_trial := ps_remux_trial st + 1\<rparr>, if brk then Some (Inr ()) else None)
       else (st, Some (Inl e))))"

definition packet_round ::
  "('p, 'w) packet_api \<Rightarrow> ('p, 'w) packet_user \<Rightarrow> ('p, 'w) packet_state \<Rightarrow> ('p, 'w) packet_state \<times> unit result option" where
  "packet_round api u st = (let (r, p, w) = pu_read u (ps_pkt st) (ps_world st); st = st\<lparr>ps_pkt := p, ps_world := w\<rparr> in
     case r of
       Inl e \<Rightarrow>
         (if retries (ps_read_trial st) e then (st\<lparr>ps_read_trial := ps_read_trial st + 1\<rparr>, None)
          else (st, Some (Inl e)))
     | Inr found \<Rightarrow>
         (let st = st\<lparr>ps_read_trial := 0\<rparr> in
          if \<not> found then (st, Some (Inr ()))
          else (case pu_check u (ps_pkt st) (ps_world st) of
              Inl e \<Rightarrow> (st, Some (Inl e))
            | Inr _ \<Rightarrow>
                (let (st, r) = (case pu_process u (ps_pkt st) (ps_world st) of
                    (Inl e, p, w) \<Rightarrow> (st\<lparr>ps_pkt := p, ps_world := w\<rparr>, Some (Inl e))
                  | (Inr brk, p, w) \<Rightarrow> packet_write_round u brk (st\<lparr>ps_pkt := p, ps_world := w\<rparr>))
                 in (guard_destroy api st, r)))))"

text \<open>\<^verbatim>\<open>av_packet_free\<close> releases the data before it frees the packet.\<close>

definition packet_delete :: "('p, 'w) packet_api \<Rightarrow> 'p \<Rightarrow> 'w \<Rightarrow> 'w" where
  "packet_delete api p w = snd (pa_unref api p w)"

text \<open>The loop from the allocation to the destruction of the packet.\<close>

definition packet_loop ::
  "('p, 'w) packet_api \<Rightarrow> ('p, 'w) packet_user \<Rightarrow> 'w \<Rightarrow> (unit result \<times> 'w) option" where
  "packet_loop api u w = (case packet_alloc api w of
     (Inl e, w) \<Rightarrow> Some (Inl e, w)
   | (Inr p, w) \<Rightarrow>
       map_option (\<lambda>(st, r). (r, packet_delete api (ps_pkt st) (ps_world st)))
         (rounds (packet_round api u) \<lparr>ps_pkt = p, ps_world = w, ps_read_trial = 0, ps_remux_trial = 0\<rparr>))"

section \<open>Balance\<close>

text \<open>
  \<open>refs\<close> counts the references outside the muxer.  A read into a blank packet takes a reference for
  it or, on errors, leaves it blank; processors and muxer change the count by what the
  packet holds before and after.
\<close>

definition user_balanced :: "('p, 'w) packet_user \<Rightarrow> ('p \<Rightarrow> nat option) \<Rightarrow> ('w \<Rightarrow> nat \<Rightarrow> nat) \<Rightarrow> bool" where
  "user_balanced u holds refs \<longleftrightarrow>
     (\<forall>p w r p' w' x. pu_read u p w = (r, p', w') \<longrightarrow> holds p = None \<longrightarrow>
        refs w' x = refs w x + held holds p' x \<and> (\<forall>e. r = Inl e \<longrightarrow> holds p' = None)) \<and>
     (\<forall>p w r p' w' x. pu_process u p w = (r, p', w') \<longrightarrow> refs w' x + held holds p x = refs w x + held holds p' x) \<and>
     (\<forall>p w r p' w' x. pu_write u p w = (r, p', w') \<longrightarrow> refs w' x + held holds p x = refs w x + held holds p' x)"

definition balanced :: "('p \<Rightarrow> nat option) \<Rightarrow> ('w \<Rightarrow> nat \<Rightarrow> nat) \<Rightarrow> (nat \<Rightarrow> nat) \<Rightarrow> ('p, 'w) packet_state \<Rightarrow> bool" where
  "balanced holds refs base st \<longleftrightarrow> (\<forall>x. refs (ps_world st) x = base x + held holds (ps_pkt st) x)"

lemma guard_balanced:
  assumes "packet_api_ok api holds refs" and "balanced holds refs base st"
  shows "balanced holds refs base (guard_destroy api st)" and "holds (ps_pkt (guard_destroy api st)) = None"
proof -
  obtain p w where u: "pa_unref api (ps_pkt st) (ps_world st) = (p, w)" by fastforce
  then have g: "guard_destroy api st = st\<lparr>ps_pkt := p, ps_world := w\<rparr>" by (simp add: guard_destroy_def unref_guard_def)
  note un = api_unref [OF assms(1) u]
  show "holds (ps_pkt (guard_destroy api st)) = None" using un(1) by (simp add: g)
  show "balanced holds refs base (guard_destroy api st)" using assms(2) un by (simp add: g balanced_def)
qed

lemma write_round_balanced:
  assumes "user_balanced u holds refs" and "balanced holds refs base st" and "packet_write_round u brk st = (st', r)"
  shows "balanced holds refs base st'"
proof -
  obtain r1 p w where wr: "pu_write u (ps_pkt st) (ps_world st) = (r1, p, w)" by (metis prod_cases3)
  then have b: "refs w x + held holds (ps_pkt st) x = refs (ps_world st) x + held holds p x" for x
    using assms(1) unfolding user_balanced_def by blast
  have "ps_pkt st' = p \<and> ps_world st' = w"
    using assms(3) by (auto simp: packet_write_round_def wr Let_def split: sum.splits if_splits)
  then show ?thesis using b assms(2) by (auto simp: balanced_def)
qed

lemma packet_round_balanced:
  assumes "packet_api_ok api holds refs" and "user_balanced u holds refs"
    and "balanced holds refs base st" and "holds (ps_pkt st) = None" and "packet_round api u st = (st', r)"
  shows "balanced holds refs base st'" and "r = None \<Longrightarrow> holds (ps_pkt st') = None"
proof -
  obtain r1 p w where rd: "pu_read u (ps_pkt st) (ps_world st) = (r1, p, w)" by (metis prod_cases3)
  let ?st = "st\<lparr>ps_pkt := p, ps_world := w\<rparr>"
  have f: "\<forall>x. refs w x = refs (ps_world st) x + held holds p x" "\<And>e. r1 = Inl e \<Longrightarrow> holds p = None"
    using assms(2) rd assms(4) unfolding user_balanced_def by blast+
  have b: "balanced holds refs base ?st" using f(1) assms(3,4) by (simp add: balanced_def)
  have "balanced holds refs base st' \<and> (r = None \<longrightarrow> holds (ps_pkt st') = None)"
  proof (cases "r1 = Inr True \<and> pu_check u p w = Inr ()")
    case False
    with assms(5) b f(2) show ?thesis
      by (auto simp: packet_round_def rd balanced_def Let_def split: sum.splits if_splits)
  next
    case True
    let ?st0 = "?st\<lparr>ps_read_trial := 0\<rparr>"
    obtain r2 p2 w2 where pr: "pu_process u p w = (r2, p2, w2)" by (metis prod_cases3)
    obtain st3 r3 where s3: "(case r2 of Inl e \<Rightarrow> (?st0\<lparr>ps_pkt := p2, ps_world := w2\<rparr>, Some (Inl e))
        | Inr brk \<Rightarrow> packet_write_round u brk (?st0\<lparr>ps_pkt := p2, ps_world := w2\<rparr>)) = (st3, r3)" by fastforce
    have e: "st' = guard_destroy api st3" using assms(5) True rd pr s3 by (auto simp: packet_round_def split: sum.splits)
    have "refs w2 x + held holds p x = refs w x + held holds p2 x" for x
      using assms(2) pr unfolding user_balanced_def by blast
    then have b2: "balanced holds refs base (?st0\<lparr>ps_pkt := p2, ps_world := w2\<rparr>)"
      using b by (auto simp: balanced_def)
    have "balanced holds refs base st3"
      using s3 b2 write_round_balanced [OF assms(2) b2] by (cases r2) auto
    from guard_balanced [OF assms(1) this] show ?thesis by (simp add: e)
  qed
  then show "balanced holds refs base st'" and "r = None \<Longrightarrow> holds (ps_pkt st') = None" by blast+
qed

text \<open>Along the loop: a round that goes on leaves the packet blank.\<close>

lemma rounds_invariant_end:
  assumes "rounds round st = Some y"
    and "\<And>st st' r. P st \<Longrightarrow> round st = (st', r) \<Longrightarrow> Q st' \<and> (r = None \<longrightarrow> P st')" and "P st"
  shows "Q (fst y)"
proof -
  let ?k = "\<lambda>round. \<forall>st st' r. P st \<longrightarrow> round st = (st', r) \<longrightarrow> Q st' \<and> (r = None \<longrightarrow> P st')"
  have "?k round \<longrightarrow> P st \<longrightarrow> Q (fst y)"
  proof (rule rounds.raw_induct [OF _ assms(1)])
    fix rounds' :: "('a \<Rightarrow> 'a \<times> 'b option) \<Rightarrow> 'a \<Rightarrow> ('a \<times> 'b) option"
      and round :: "'a \<Rightarrow> 'a \<times> 'b option" and st y
    assume ih: "\<And>round st y. rounds' round st = Some y \<Longrightarrow> ?k round \<longrightarrow> P st \<longrightarrow> Q (fst y)"
      and y: "(case round st of (st, None) \<Rightarrow> rounds' round st | (st, Some r) \<Rightarrow> Some (st, r)) = Some y"
    show "?k round \<longrightarrow> P st \<longrightarrow> Q (fst y)"
    proof (intro impI)
      assume k: "?k round" and "P st"
      obtain st1 o1 where r: "round st = (st1, o1)" by (cases "round st")
      with k \<open>P st\<close> have "Q st1 \<and> (o1 = None \<longrightarrow> P st1)" by blast
      with y r ih [of round st1 y] k show "Q (fst y)" by (cases o1) auto
    qed
  qed
  with assms(2,3) show ?thesis by blast
qed

lemma packet_rounds_balanced:
  assumes "packet_api_ok api holds refs" and "user_balanced u holds refs"
    and "rounds (packet_round api u) st = Some y" and "balanced holds refs base st" and "holds (ps_pkt st) = None"
  shows "balanced holds refs base (fst y)"
  using rounds_invariant_end [OF assms(3), where P = "\<lambda>st. balanced holds refs base st \<and> holds (ps_pkt st) = None"
      and Q = "balanced holds refs base"] packet_round_balanced [OF assms(1,2)] assms(4,5)
  by blast

text \<open>
  However the loop over packets ends, every reference to packet data that was taken in it has
  been released.
\<close>

theorem packet_loop_returns_references:
  fixes refs :: "'w \<Rightarrow> nat \<Rightarrow> nat"
  assumes "packet_api_ok api holds refs" and "user_balanced u holds refs"
    and "\<And>p w w'. pa_alloc api w = (p, w') \<Longrightarrow> refs w' = refs w \<and> (\<forall>q. p = Some q \<longrightarrow> holds q = None)"
    and "packet_loop api u w = Some (r, w')"
  shows "refs w' = refs w"
proof -
  obtain p w1 where al: "packet_alloc api w = (p, w1)" by fastforce
  have a: "refs w1 = refs w" "\<And>q. p = Inr q \<Longrightarrow> holds q = None"
    using al assms(3) by (fastforce simp: packet_alloc_def split: option.splits prod.splits)+
  show ?thesis
  proof (cases p)
    case (Inr q)
    let ?st = "\<lparr>ps_pkt = q, ps_world = w1, ps_read_trial = 0, ps_remux_trial = 0\<rparr>"
    obtain st where st: "rounds (packet_round api u) ?st = Some (st, r)"
      and w': "w' = packet_delete api (ps_pkt st) (ps_world st)"
      using assms(4) Inr al by (auto simp: packet_loop_def)
    have "balanced holds refs (refs w1) ?st" "holds (ps_pkt ?st) = None"
      using a(2) [OF Inr] by (simp_all add: balanced_def)
    from packet_rounds_balanced [OF assms(1,2) st this]
    have b: "refs (ps_world st) x = refs w x + held holds (ps_pkt st) x" for x by (simp add: balanced_def a(1))
    obtain q' w2 where u: "pa_unref api (ps_pkt st) (ps_world st) = (q', w2)" by fastforce
    show ?thesis using api_unref(2) [OF assms(1) u] b by (auto simp: w' packet_delete_def u)
  qed (use assms(4) al a in \<open>simp add: packet_loop_def\<close>)
qed

text \<open>A user whose muxer refuses every packet: the loop gives up after the retries.\<close>

definition refusing_user :: "(nat option, nat \<Rightarrow> nat) packet_user" where
  "refusing_user = \<lparr>pu_read = (\<lambda>p w. (Inr True, Some 0, w(0 := w 0 + 1))), pu_check = (\<lambda>p w. Inr ()),
     pu_process = (\<lambda>p w. (Inr False, p, w)), pu_write = (\<lambda>p w. (Inl (Runtime_Error []), p, w))\<rparr>"

lemma refusing_user_balanced: "user_balanced refusing_user (\<lambda>p. p) (\<lambda>w. w)"
  by (auto simp: user_balanced_def refusing_user_def held_def)

lemma refusing_round:
  "packet_round counting_api refusing_user \<lparr>ps_pkt = None, ps_world = w, ps_read_trial = 0, ps_remux_trial = n\<rparr> =
     (\<lparr>ps_pkt = None, ps_world = w, ps_read_trial = 0, ps_remux_trial = if n < 10 then n + 1 else n\<rparr>,
      if n < 10 then None else Some (Inl (Runtime_Error [])))"
  by (auto simp: packet_round_def refusing_user_def packet_write_round_def guard_destroy_def unref_guard_def
      counting_api_def retries_def MAX_RETRY_def Let_def fun_eq_iff)

lemma refusing_rounds:
  "n \<le> 10 \<Longrightarrow> rounds (packet_round counting_api refusing_user)
       \<lparr>ps_pkt = None, ps_world = w, ps_read_trial = 0, ps_remux_trial = n\<rparr> =
     Some (\<lparr>ps_pkt = None, ps_world = w, ps_read_trial = 0, ps_remux_trial = 10\<rparr>, Inl (Runtime_Error []))"
proof (induction rule: inc_induct)
  case base
  show ?case by (rule rounds_stop) (simp add: refusing_round)
next
  case (step n)
  then show ?case by (subst rounds.simps) (simp add: refusing_round)
qed

theorem packet_loop_returns_references_witness:
  "map_option (\<lambda>(r, w). (r, w 0)) (packet_loop counting_api refusing_user (\<lambda>b. 5)) = Some (Inl (Runtime_Error []), 5)"
proof -
  let ?l = "packet_loop counting_api refusing_user (\<lambda>b. 5)"
  have "packet_alloc counting_api (\<lambda>b. 5) = (Inr None, \<lambda>b. 5)" by (simp add: packet_alloc_def counting_api_def)
  then have l: "map_option fst ?l = Some (Inl (Runtime_Error []))"
    using refusing_rounds [of 0 "\<lambda>b. 5"] by (simp add: packet_loop_def)
  then obtain w' where w: "?l = Some (Inl (Runtime_Error []), w')" by auto
  have "w' = (\<lambda>b. 5)"
    using packet_loop_returns_references [OF counting_api_ok refusing_user_balanced _ w] by (auto simp: counting_api_def)
  with w show ?thesis by simp
qed

end
