(* ===== verification/Command_Line.thy ===== *)
theory Command_Line
  imports Options
begin

text \<open>
  The front half of \<^verbatim>\<open>ProgramOptions::parse\<close> (\<^verbatim>\<open>src/program_options.cpp\<close>): the tables
  of options, the two sources they are read from, and what is left for the loop over unregistered
  options.  Boost's parser is the record \<open>options_api\<close>; its map of values is the type variable \<open>'v\<close>.
\<close>

section \<open>The tables\<close>

text \<open>Name, short name, whether a value follows, and the default value as the parser would read it.\<close>

record option_desc =
  od_name :: string
  od_short :: "char option"
  od_value :: bool
  od_default :: "string option"

definition plain_option :: "string \<Rightarrow> option_desc" where
  "plain_option name = \<lparr>od_name = name, od_short = None, od_value = True, od_default = None\<rparr>"

definition generic_options :: "option_desc list" where
  "generic_options =
     [(plain_option ''config-file'')\<lparr>od_short := Some CHR ''c''\<rparr>,
      (plain_option ''help'')\<lparr>od_short := Some CHR ''h'', od_value := False\<rparr>,
      (plain_option ''version'')\<lparr>od_short := Some CHR ''v'', od_value := False\<rparr>]"

definition behavior_options :: "option_desc list" where
  "behavior_options =
     [(plain_option ''http-address'')\<lparr>od_default := Some ''0.0.0.0''\<rparr>,
      (plain_option ''http-port'')\<lparr>od_default := Some ''3445''\<rparr>,
      plain_option ''starting-input'',
      (plain_option ''log'')\<lparr>od_default := Some ''info''\<rparr>,
      plain_option ''log-thread'',
      (plain_option ''no-restart'')\<lparr>od_value := False\<rparr>]"

definition inputs_options :: "option_desc list" where
  "inputs_options = map plain_option
     [''input.*.source'', ''input.*.sink'', ''input.*.sourceformat'', ''input.*.sinkformat'']"

definition outputs_options :: "option_desc list" where
  "outputs_options = map plain_option
     [''output.source'', ''output.sink'', ''output.sourceformat'', ''output.sinkformat''] @
     [(plain_option ''output.ts_adjustment'')\<lparr>od_default := Some ''0''\<rparr>]"

definition cmdline_opts :: "option_desc list" where
  "cmdline_opts = generic_options @ behavior_options @ inputs_options @ outputs_options"

definition config_opts :: "option_desc list" where
  "config_opts = behavior_options @ inputs_options @ outputs_options"

section \<open>Parsing\<close>

record 'v options_api =
  oa_command_line :: "option_desc list \<Rightarrow> string list \<Rightarrow> raw_option list result"
  oa_config_file :: "option_desc list \<Rightarrow> string \<Rightarrow> raw_option list result"
  oa_empty :: 'v
  oa_store :: "raw_option list \<Rightarrow> 'v \<Rightarrow> 'v result"
  oa_notify :: "'v \<Rightarrow> unit result"
  oa_count :: "'v \<Rightarrow> string \<Rightarrow> nat"
  oa_string :: "'v \<Rightarrow> string \<Rightarrow> string option"
  oa_port :: "'v \<Rightarrow> string \<Rightarrow> u16"
  oa_ticks :: "'v \<Rightarrow> string \<Rightarrow> ts"

text \<open>\<^verbatim>\<open>store\<close> and \<^verbatim>\<open>notify\<close>: the new values, or what the parser throws.\<close>

definition store_notify :: "'v options_api \<Rightarrow> raw_option list \<Rightarrow> 'v \<Rightarrow> 'v result" where
  "store_notify api parsed vm =
     bind_res (oa_store api parsed vm) (\<lambda>vm. bind_res (oa_notify api vm) (\<lambda>_. Inr vm))"

text \<open>A variable that no option has set keeps its initial value, the empty string.\<close>

definition string_of :: "'v options_api \<Rightarrow> 'v \<Rightarrow> string \<Rightarrow> string" where
  "string_of api vm name = (case oa_string api vm name of Some s \<Rightarrow> s | None \<Rightarrow> [])"

definition collect_args :: "'v options_api \<Rightarrow> 'v \<Rightarrow> raw_option list \<Rightarrow> raw_option list option \<Rightarrow> parsed_args" where
  "collect_args api vm cmd cfg = \<lparr>pa_help = oa_count api vm ''help'' > 0, pa_version = oa_count api vm ''version'' > 0,
     pa_cmdline = cmd, pa_config = cfg,
     pa_http_address = string_of api vm ''http-address'', pa_http_port = oa_port api vm ''http-port'',
     pa_start_input_name = oa_string api vm ''starting-input'', pa_log_level = string_of api vm ''log'',
     pa_log_thread = oa_string api vm ''log-thread'', pa_no_restart = oa_count api vm ''no-restart'' > 0,
     pa_output = \<lparr>os_source = string_of api vm ''output.source'', os_sink = string_of api vm ''output.sink'',
       os_source_format = oa_string api vm ''output.sourceformat'', os_sink_format = oa_string api vm ''output.sinkformat'',
       os_ts_adjustment = oa_ticks api vm ''output.ts_adjustment''\<rparr>\<rparr>"

text \<open>Help and the version end the program before the configuration file is read.\<close>

definition parse_arguments :: "'v options_api \<Rightarrow> string list \<Rightarrow> program_options option result" where
  "parse_arguments api argv =
     bind_res (oa_command_line api cmdline_opts argv) (\<lambda>cmd.
     bind_res (store_notify api cmd (oa_empty api)) (\<lambda>vm.
     if oa_count api vm ''help'' > 0 \<or> oa_count api vm ''version'' > 0 then Inr None
     else (case oa_string api vm ''config-file'' of
         None \<Rightarrow> parse_options (collect_args api vm cmd None)
       | Some config_file \<Rightarrow>
           bind_res (oa_config_file api config_opts config_file) (\<lambda>cfg.
           bind_res (store_notify api cfg vm) (\<lambda>vm. parse_options (collect_args api vm cmd (Some cfg)))))))"

section \<open>Which inputs there are\<close>

text \<open>
  What the code relies on: of a named option (an argument without a name has the empty key) the parser
  says that it is registered exactly when the table has its name.  An asterisk in the middle of a
  name is an ordinary character for it.
\<close>

definition marked :: "option_desc list \<Rightarrow> raw_option list \<Rightarrow> bool" where
  "marked descs opts = list_all (\<lambda>opt. ro_string_key opt = [] \<or>
     (ro_unregistered opt \<longleftrightarrow> ro_string_key opt \<notin> od_name ` set descs)) opts"

definition marks_registered :: "'v options_api \<Rightarrow> bool" where
  "marks_registered api \<longleftrightarrow>
     (\<forall>argv opts. oa_command_line api cmdline_opts argv = Inr opts \<longrightarrow> marked cmdline_opts opts) \<and>
     (\<forall>path opts. oa_config_file api config_opts path = Inr opts \<longrightarrow> marked config_opts opts)"

text \<open>An option \<open>input.name.param\<close> is about the input \<open>name\<close>.\<close>

definition names_input :: "string \<Rightarrow> raw_option \<Rightarrow> bool" where
  "names_input name opt = (case split_on CHR ''.'' (ro_string_key opt) of
       [kind, n, param] \<Rightarrow> kind = ''input'' \<and> n = name
     | _ \<Rightarrow> False)"

lemmas tables = cmdline_opts_def config_opts_def generic_options_def behavior_options_def inputs_options_def
  outputs_options_def plain_option_def

lemma split_on_join:
  "split_on c xs = w # ws \<Longrightarrow> xs = w @ concat (map ((#) c) ws) \<and> c \<notin> set w \<and> (\<forall>v \<in> set ws. c \<notin> set v)"
proof (induction xs arbitrary: w ws)
  case (Cons x xs)
  obtain v vs where v: "split_on c xs = v # vs" using split_on_nonempty by (metis neq_Nil_conv)
  with Cons.prems Cons.IH [OF v] show ?case by (cases "x = c") auto
qed simp

lemma names_inputE:
  assumes "names_input name opt"
  obtains param where "split_on CHR ''.'' (ro_string_key opt) = [''input'', name, param]"
    "ro_string_key opt = input_prefix @ name @ CHR ''.'' # param"
proof -
  obtain param where s: "split_on CHR ''.'' (ro_string_key opt) = [''input'', name, param]"
    using assms by (auto simp: names_input_def split: list.splits)
  then have "ro_string_key opt = input_prefix @ name @ CHR ''.'' # param"
    using split_on_join [OF s] by (simp add: input_prefix_def)
  with s show ?thesis by (rule that)
qed

lemma apply_option_names:
  assumes "apply_option opt iss = Inr iss'"
  shows "is_name ` set iss' = is_name ` set iss \<union> {name. names_input name opt}"
proof (cases "take (length input_prefix) (ro_string_key opt) = input_prefix")
  case False
  then have "\<not> names_input name opt" for name by (auto elim!: names_inputE)
  then show ?thesis using False assms by (auto simp: apply_option_def Let_def)
next
  case True
  then obtain k where key: "ro_string_key opt = input_prefix @ k" by (metis append_take_drop_id)
  have sp: "split_on CHR ''.'' (ro_string_key opt) = ''input'' # split_on CHR ''.'' k"
    unfolding key using split_on_first [of "CHR ''.''" "''input''" k] by (simp add: input_prefix_def)
  from assms True obtain n param f v where s: "split_on CHR ''.'' (ro_string_key opt) = [''input'', n, param]"
    and f: "input_param param v = Some f" and iss': "iss' = with_input_spec n f iss"
    by (auto simp: apply_option_def Let_def sp split: list.splits option.splits)
  have "map is_name iss' = (if n \<in> set (map is_name iss) then map is_name iss else map is_name iss @ [n])"
    unfolding iss' with_input_spec_def by (rule update_spec_names) (rule input_param_name [OF f])
  then have "set (map is_name iss') = insert n (set (map is_name iss))" by auto
  moreover have "names_input name opt \<longleftrightarrow> name = n" for name by (auto simp: names_input_def s)
  ultimately show ?thesis by auto
qed

lemma apply_options_names:
  "apply_options opts iss = Inr iss' \<Longrightarrow>
   is_name ` set iss' = is_name ` set iss \<union> {name. \<exists>opt \<in> set opts. names_input name opt}"
proof (induction opts arbitrary: iss)
  case (Cons opt opts)
  then obtain iss1 where a: "apply_option opt iss = Inr iss1" "apply_options opts iss1 = Inr iss'"
    by (auto simp: bind_res_Inr_iff)
  show ?case using Cons.IH [OF a(2)] apply_option_names [OF a(1)] by auto
qed simp

text \<open>An option of an input is in the tables only when the input is called \<open>*\<close>, and then always.\<close>

definition input_params :: "string list" where
  "input_params = [''source'', ''sink'', ''sourceformat'', ''sinkformat'']"

definition other_names :: "string set" where
  "other_names = od_name ` set (generic_options @ behavior_options @ outputs_options)"

lemma cmdline_names: "od_name ` set cmdline_opts = (@) ''input.*.'' ` set input_params \<union> other_names"
  unfolding other_names_def cmdline_opts_def set_append image_Un
  by (simp add: inputs_options_def plain_option_def input_params_def Un_ac)

lemma config_names: "od_name ` set config_opts \<subseteq> (@) ''input.*.'' ` set input_params \<union> other_names"
    "(@) ''input.*.'' ` set input_params \<subseteq> od_name ` set config_opts"
  unfolding other_names_def config_opts_def set_append image_Un
  by (auto simp: inputs_options_def plain_option_def input_params_def)

lemma input_option_registered:
  assumes "split_on CHR ''.'' (ro_string_key opt) = [''input'', name, param]"
  shows "ro_string_key opt \<in> od_name ` set cmdline_opts \<longleftrightarrow> name = ''*'' \<and> param \<in> set input_params"
    "ro_string_key opt \<in> od_name ` set config_opts \<longleftrightarrow> name = ''*'' \<and> param \<in> set input_params"
proof -
  have k: "ro_string_key opt = ''input.'' @ name @ CHR ''.'' # param" using split_on_join [OF assms] by simp
  have star: "ro_string_key opt = ''input.*.'' @ q \<longleftrightarrow> name = ''*'' \<and> param = q" for q
  proof
    assume "ro_string_key opt = ''input.*.'' @ q"
    then have "split_on CHR ''.'' (ro_string_key opt) = ''input'' # ''*'' # split_on CHR ''.'' q" by simp
    with assms have "name = ''*''" by simp
    with k \<open>ro_string_key opt = ''input.*.'' @ q\<close> have "''input.'' @ ''*'' @ CHR ''.'' # param = ''input.*.'' @ q" by metis
    with \<open>name = ''*''\<close> show "name = ''*'' \<and> param = q" by simp
  qed (use k in simp)
  have inputs: "ro_string_key opt \<in> (@) ''input.*.'' ` set input_params \<longleftrightarrow> name = ''*'' \<and> param \<in> set input_params"
    unfolding image_iff star by auto
  have rest: "ro_string_key opt \<notin> other_names" by (simp add: other_names_def tables k)
  show "ro_string_key opt \<in> od_name ` set cmdline_opts \<longleftrightarrow> name = ''*'' \<and> param \<in> set input_params"
    using inputs rest by (auto simp: cmdline_names)
  show "ro_string_key opt \<in> od_name ` set config_opts \<longleftrightarrow> name = ''*'' \<and> param \<in> set input_params"
    using inputs rest config_names by blast
qed

lemma apply_option_accepts:
  assumes "apply_option opt iss = Inr iss'" and "names_input name opt"
  obtains param where "split_on CHR ''.'' (ro_string_key opt) = [''input'', name, param]" "param \<in> set input_params"
proof -
  obtain param where s: "split_on CHR ''.'' (ro_string_key opt) = [''input'', name, param]"
    and k: "ro_string_key opt = input_prefix @ name @ CHR ''.'' # param" using assms(2) by (rule names_inputE)
  have "\<exists>v f. input_param param v = Some f"
    using assms(1) s by (auto simp: apply_option_def Let_def k split: list.splits option.splits)
  then have "param \<in> set input_params" by (auto simp: input_param_def input_params_def split: if_splits)
  with s show ?thesis by (rule that)
qed

lemma apply_options_accepts:
  "apply_options opts iss = Inr iss' \<Longrightarrow> opt \<in> set opts \<Longrightarrow> \<exists>iss1 iss2. apply_option opt iss1 = Inr iss2"
  by (induction opts arbitrary: iss) (auto simp: bind_res_Inr_iff)

lemma unregistered_inputs:
  assumes m: "marked cmdline_opts cmd" "marked config_opts cfg"
    and a: "apply_options (filter ro_unregistered (cmd @ cfg)) [] = Inr iss"
  shows "is_name ` set iss = {name. name \<noteq> ''*'' \<and> (\<exists>opt \<in> set (cmd @ cfg). names_input name opt)}" (is "_ = ?R")
proof -
  have key: "ro_unregistered opt \<longleftrightarrow> \<not> (name = ''*'' \<and> param \<in> set input_params)"
    if "opt \<in> set (cmd @ cfg)" "split_on CHR ''.'' (ro_string_key opt) = [''input'', name, param]" for opt name param
  proof -
    have "ro_string_key opt \<noteq> []" using that(2) by auto
    with m that(1) input_option_registered [OF that(2)] show ?thesis unfolding marked_def list_all_iff set_append by blast
  qed
  have "(\<exists>opt \<in> set (cmd @ cfg). ro_unregistered opt \<and> names_input name opt) \<longleftrightarrow> name \<in> ?R" for name
  proof
    assume "\<exists>opt \<in> set (cmd @ cfg). ro_unregistered opt \<and> names_input name opt"
    then obtain opt where o: "opt \<in> set (cmd @ cfg)" "ro_unregistered opt" "names_input name opt" by blast
    from apply_options_accepts [OF a, of opt] o(1,2) obtain iss1 iss2 where "apply_option opt iss1 = Inr iss2" by auto
    then obtain param where p: "split_on CHR ''.'' (ro_string_key opt) = [''input'', name, param]" "param \<in> set input_params"
      using apply_option_accepts [OF _ o(3)] by blast
    from key [OF o(1) p(1)] o(2) p(2) have "name \<noteq> ''*''" by blast
    with o show "name \<in> ?R" by blast
  next
    assume "name \<in> ?R"
    then obtain opt where o: "opt \<in> set (cmd @ cfg)" "names_input name opt" "name \<noteq> ''*''" by auto
    from o(2) show "\<exists>opt \<in> set (cmd @ cfg). ro_unregistered opt \<and> names_input name opt"
      by (rule names_inputE) (use key [OF o(1)] o in blast)
  qed
  then show ?thesis using apply_options_names [OF a] by auto
qed

section \<open>The inputs of a successful parse\<close>

lemma parse_options_inputs:
  assumes "parse_options (collect_args api vm cmd cfg) = Inr (Some opts)"
  shows "apply_options (filter ro_unregistered (cmd @ (case cfg of None \<Rightarrow> [] | Some opts \<Rightarrow> opts))) [] = Inr (po_user_inputs opts)"
  using assms by (auto simp: parse_options_def collect_args_def Let_def bind_res_Inr_iff split: if_splits option.splits)

text \<open>The options read from the two sources.\<close>

definition read_options :: "'v options_api \<Rightarrow> string list \<Rightarrow> (raw_option list \<times> raw_option list) result" where
  "read_options api argv =
     bind_res (oa_command_line api cmdline_opts argv) (\<lambda>cmd.
     bind_res (store_notify api cmd (oa_empty api)) (\<lambda>vm.
     case oa_string api vm ''config-file'' of
       None \<Rightarrow> Inr (cmd, [])
     | Some config_file \<Rightarrow> bind_res (oa_config_file api config_opts config_file) (\<lambda>cfg. Inr (cmd, cfg))))"

lemma parse_arguments_read:
  assumes "parse_arguments api argv = Inr (Some opts)" and "marks_registered api"
  obtains cmd cfg where "read_options api argv = Inr (cmd, cfg)" "marked cmdline_opts cmd" "marked config_opts cfg"
    "apply_options (filter ro_unregistered (cmd @ cfg)) [] = Inr (po_user_inputs opts)"
proof -
  from assms(1) obtain cmd vm where c: "oa_command_line api cmdline_opts argv = Inr cmd"
    and v: "store_notify api cmd (oa_empty api) = Inr vm"
    and rest: "(case oa_string api vm ''config-file'' of
         None \<Rightarrow> parse_options (collect_args api vm cmd None)
       | Some config_file \<Rightarrow>
           bind_res (oa_config_file api config_opts config_file) (\<lambda>cfg.
           bind_res (store_notify api cfg vm) (\<lambda>vm. parse_options (collect_args api vm cmd (Some cfg))))) = Inr (Some opts)"
    by (auto simp: parse_arguments_def bind_res_Inr_iff split: if_splits)
  have mc: "marked cmdline_opts cmd" using assms(2) c by (simp add: marks_registered_def)
  show ?thesis
  proof (cases "oa_string api vm ''config-file''")
    case None
    with c v have "read_options api argv = Inr (cmd, [])" by (simp add: read_options_def)
    then show ?thesis using mc parse_options_inputs [of api vm cmd None opts] rest None
      by (intro that [of cmd "[]"]) (auto simp: marked_def)
  next
    case (Some config_file)
    with rest obtain cfg vm' where f: "oa_config_file api config_opts config_file = Inr cfg"
      and p: "parse_options (collect_args api vm' cmd (Some cfg)) = Inr (Some opts)"
      by (auto simp: bind_res_Inr_iff)
    have "marked config_opts cfg" using assms(2) f by (simp add: marks_registered_def)
    moreover have "read_options api argv = Inr (cmd, cfg)" using c v Some f by (simp add: read_options_def)
    ultimately show ?thesis using mc parse_options_inputs [OF p] by (intro that [of cmd cfg]) auto
  qed
qed

text \<open>
  C37: After a successful parse the inputs are exactly those that an option of the command line
  or of the configuration file names, except for an input called *, whose options are registered
  and silently dropped; the configuration file is the one that the option config-file names.
\<close>

theorem inputs_come_from_options:
  assumes "marks_registered api" and "parse_arguments api argv = Inr (Some opts)"
  shows "\<exists>cmd cfg. read_options api argv = Inr (cmd, cfg) \<and>
    is_name ` set (po_user_inputs opts) = {name. name \<noteq> ''*'' \<and> (\<exists>opt \<in> set (cmd @ cfg). names_input name opt)}"
proof -
  obtain cmd cfg where r: "read_options api argv = Inr (cmd, cfg)" and m: "marked cmdline_opts cmd" "marked config_opts cfg"
    and a: "apply_options (filter ro_unregistered (cmd @ cfg)) [] = Inr (po_user_inputs opts)"
    using assms(2,1) by (rule parse_arguments_read)
  show ?thesis by (intro exI conjI) (rule r, rule unregistered_inputs [OF m a])
qed

text \<open>A parser that reads every argument as a named option with one value, and one configuration file.\<close>

definition sample_parser :: "option_desc list \<Rightarrow> string list \<Rightarrow> raw_option list" where
  "sample_parser descs = map (\<lambda>key. \<lparr>ro_string_key = key, ro_value = [''u''],
     ro_unregistered = key \<notin> od_name ` set descs\<rparr>)"

definition sample_api :: "unit options_api" where
  "sample_api = \<lparr>oa_command_line = (\<lambda>descs argv. Inr (sample_parser descs argv)),
     oa_config_file = (\<lambda>descs path. Inr (sample_parser descs [''input.b.sink'', ''input.*.sink'', ''log''])),
     oa_empty = (), oa_store = (\<lambda>_ vm. Inr vm), oa_notify = (\<lambda>_. Inr ()), oa_count = (\<lambda>_ _. 0),
     oa_string = (\<lambda>_ name. if name = ''config-file'' then Some ''m.conf'' else None),
     oa_port = (\<lambda>_ _. 3445), oa_ticks = (\<lambda>_ _. 0)\<rparr>"

lemma sample_marks: "marks_registered sample_api"
  by (auto simp: marks_registered_def marked_def sample_api_def sample_parser_def list_all_iff)

lemma inputs_come_from_options_witness:
  "\<exists>opts. parse_arguments sample_api [''input.a.source'', ''input.*.source''] = Inr (Some opts) \<and>
    is_name ` set (po_user_inputs opts) = {''a'', ''b''} \<and>
    (\<exists>cmd cfg. read_options sample_api [''input.a.source'', ''input.*.source''] = Inr (cmd, cfg) \<and>
      {''a'', ''b''} = {name. name \<noteq> ''*'' \<and> (\<exists>opt \<in> set (cmd @ cfg). names_input name opt)})"
proof -
  have "case parse_arguments sample_api [''input.a.source'', ''input.*.source''] of
      Inr (Some opts) \<Rightarrow> map is_name (po_user_inputs opts) = [''a'', ''b''] | _ \<Rightarrow> False" by code_simp
  then obtain opts where o: "parse_arguments sample_api [''input.a.source'', ''input.*.source''] = Inr (Some opts)"
    and "map is_name (po_user_inputs opts) = [''a'', ''b'']" by (auto split: sum.splits option.splits)
  then have n: "is_name ` set (po_user_inputs opts) = {''a'', ''b''}" by (simp flip: set_map)
  show ?thesis
    by (rule exI [of _ opts], intro conjI o n, rule inputs_come_from_options [OF sample_marks o, unfolded n])
qed

end
