(* ===== verification/Server.thy ===== *)
theory Server
  imports System
begin

text \<open>
  The REST server around \<open>handle_request\<close>, \<^verbatim>\<open>src/proc/controller.cpp\<close>: responses, the
  session of one client and the loop that accepts clients.  Boost and the JSON library are the fields
  of \<open>http_env\<close>; the world of the sockets is the type variable \<open>'w\<close>.
\<close>

section \<open>Responses\<close>

record http_response =
  hr_status :: nat
  hr_version :: nat
  hr_server :: string
  hr_content_type :: string
  hr_content_length :: nat
  hr_body :: string

datatype http_read = Read_Request nat request | Read_End_Of_Stream | Read_Failed

record 'w http_env =
  he_version_string :: string
  he_dump :: "json \<Rightarrow> string"
  he_prepare_payload :: "http_response \<Rightarrow> http_response"
  he_need_eof :: "http_response \<Rightarrow> bool"
  he_read :: "'w \<Rightarrow> http_read \<times> 'w"
  he_write :: "http_response \<Rightarrow> 'w \<Rightarrow> bool \<times> 'w"

text \<open>\<^verbatim>\<open>size()\<close> of a JSON value: its elements, one for a plain value and none for null.\<close>

definition json_size :: "json \<Rightarrow> nat" where
  "json_size j = (case j of J_Null \<Rightarrow> 0 | J_Array js \<Rightarrow> length js | J_Object m \<Rightarrow> length m | _ \<Rightarrow> 1)"

definition SERVER_STRING :: "'w http_env \<Rightarrow> string" where
  "SERVER_STRING env = ''METAMIX/'' @ he_version_string env"

definition json_response :: "'w http_env \<Rightarrow> nat \<Rightarrow> response \<Rightarrow> http_response" where
  "json_response env version res = (let (status, body) = res in
     he_prepare_payload env \<lparr>hr_status = status, hr_version = version, hr_server = SERVER_STRING env,
       hr_content_type = ''text/json'', hr_content_length = json_size body, hr_body = he_dump env body\<rparr>)"

section \<open>A session\<close>

text \<open>
  How a session ends: with the shutdown of the socket, with an early return because of a socket
  error, or with the end of the program inside a handler.
\<close>

datatype session_end = Session_Closed | Session_Failed | Program_Aborted

text \<open>One round of the loop: how the session ends, or the new value of \<open>close\<close>.\<close>

definition session_round ::
  "(string \<Rightarrow> json result) \<Rightarrow> 'w http_env \<Rightarrow> 'w \<Rightarrow> app \<Rightarrow> (session_end + bool) \<times> 'w \<times> app" where
  "session_round parse env w a =
     (case he_read env w of
        (Read_End_Of_Stream, w) \<Rightarrow> (Inl Session_Closed, w, a)
      | (Read_Failed, w) \<Rightarrow> (Inl Session_Failed, w, a)
      | (Read_Request version rq, w) \<Rightarrow>
          (case handle_request parse a rq of
             (a, None) \<Rightarrow> (Inl Program_Aborted, w, a)
           | (a, Some res) \<Rightarrow>
               (let r = json_response env version res; (ok, w) = he_write env r w
                in (if ok then Inr (he_need_eof env r) else Inl Session_Failed, w, a))))"

partial_function (option) session ::
  "(string \<Rightarrow> json result) \<Rightarrow> 'w http_env \<Rightarrow> bool \<Rightarrow> 'w \<Rightarrow> app \<Rightarrow> (session_end \<times> 'w \<times> app) option" where
  "session parse env close w a =
     (if close then Some (Session_Closed, w, a)
      else case session_round parse env w a of
          (Inl e, w, a) \<Rightarrow> Some (e, w, a)
        | (Inr close, w, a) \<Rightarrow> session parse env close w a)"

definition process_session ::
  "(string \<Rightarrow> json result) \<Rightarrow> 'w http_env \<Rightarrow> 'w \<Rightarrow> app \<Rightarrow> (session_end \<times> 'w \<times> app) option" where
  "process_session parse env w a = session parse env False w a"

section \<open>The server\<close>

text \<open>
  One thread runs the handlers: an accept is outstanding, or the handler of the last one runs a
  session.  The exit signal cancels an outstanding accept, whose handler then does not start
  another; a session has no outstanding accept, and its handler starts one when the session is over.
\<close>

datatype server_phase = Accepting | In_Session | Stopped

record server =
  sv_phase :: server_phase
  sv_app :: app

datatype accept_result = Accepted | Accept_Failed | Accept_Aborted

definition start_server :: "app \<Rightarrow> server" where
  "start_server a = \<lparr>sv_phase = Accepting, sv_app = a\<rparr>"

definition on_accept :: "accept_result \<Rightarrow> server \<Rightarrow> server" where
  "on_accept r s = (case r of
      Accepted \<Rightarrow> s\<lparr>sv_phase := In_Session\<rparr>
    | Accept_Failed \<Rightarrow> s\<lparr>sv_phase := Accepting\<rparr>
    | Accept_Aborted \<Rightarrow> s\<lparr>sv_phase := Stopped\<rparr>)"

definition on_session_over :: "app \<Rightarrow> server \<Rightarrow> server" where
  "on_session_over a s = s\<lparr>sv_phase := Accepting, sv_app := a\<rparr>"

definition acceptor_cancel :: "server \<Rightarrow> server" where
  "acceptor_cancel s = (if sv_phase s = Accepting then on_accept Accept_Aborted s else s)"

definition on_exit_signal :: "server \<Rightarrow> server" where
  "on_exit_signal s = (let (a, signal) = app_exit (sv_app s); s = s\<lparr>sv_app := a\<rparr>
     in if signal then acceptor_cancel s else s)"

inductive server_step :: "(string \<Rightarrow> json result) \<Rightarrow> 'w http_env \<Rightarrow> server \<Rightarrow> server \<Rightarrow> bool" for parse env where
  accepted: "sv_phase s = Accepting \<Longrightarrow> r = Accepted \<or> r = Accept_Failed \<Longrightarrow> server_step parse env s (on_accept r s)"
| served: "sv_phase s = In_Session \<Longrightarrow> process_session parse env w (sv_app s) = Some (e, w', a) \<Longrightarrow> e \<noteq> Program_Aborted \<Longrightarrow>
    server_step parse env s (on_session_over a s)"
| exited: "server_step parse env s (on_exit_signal s)"

inductive_cases server_stepE: "server_step parse env s t"

section \<open>Sessions\<close>

lemma session_round_read:
  assumes "session_round parse env w a = (Inr close, w', a')"
  shows "\<exists>v rq w1. he_read env w = (Read_Request v rq, w1) \<and> a' = fst (handle_request parse a rq) \<and>
    (\<exists>res. handle_request parse a rq = (a', Some res) \<and> he_write env (json_response env v res) w1 = (True, w') \<and>
       close = he_need_eof env (json_response env v res))"
  using assms by (auto simp: session_round_def Let_def split: prod.splits http_read.splits option.splits if_splits)

lemma session_round_run: "session_round parse env w a = (x, w', a') \<Longrightarrow> run_of im Control_Thread a a'"
  using handle_request_run [of im a parse]
  by (auto simp: session_round_def Let_def split: prod.splits http_read.splits option.splits) (metis fst_conv)+

lemma session_returns:
  fixes left :: "'w \<Rightarrow> nat"
  assumes "\<And>w v rq w'. he_read env w = (Read_Request v rq, w') \<Longrightarrow> left w' < left w"
    and "\<And>r w. left (snd (he_write env r w)) = left w"
  shows "\<exists>y. session parse env close w a = Some y"
proof (induction "left w" arbitrary: close w a rule: less_induct)
  case less
  obtain x w' a' where r: "session_round parse env w a = (x, w', a')" by (metis prod_cases3)
  show ?case
  proof (cases x)
    case (Inl e)
    with r show ?thesis by (simp add: session.simps [of parse env close w a])
  next
    case (Inr c)
    with session_round_read [of parse env w a c w' a'] r obtain v rq w1 res where
      "he_read env w = (Read_Request v rq, w1)" "he_write env (json_response env v res) w1 = (True, w')" by blast
    then have "left w' < left w" using assms(1) assms(2) [of "json_response env v res" w1] by fastforce
    from less [OF this, of c a'] r Inr show ?thesis by (simp add: session.simps [of parse env close w a])
  qed
qed

lemma session_run:
  assumes "session parse env close w a = Some y"
  shows "run_of im Control_Thread a (snd (snd y))"
proof (rule session.raw_induct [OF _ assms])
  fix session :: "(string \<Rightarrow> json result) \<Rightarrow> 'w http_env \<Rightarrow> bool \<Rightarrow> 'w \<Rightarrow> app \<Rightarrow> (session_end \<times> 'w \<times> app) option"
    and parse env close w a y
  assume ih: "\<And>parse env close w a y. session parse env close w a = Some y \<Longrightarrow> run_of im Control_Thread a (snd (snd y))"
    and y: "(if close then Some (Session_Closed, w, a)
      else case session_round parse env w a of
          (Inl e, w, a) \<Rightarrow> Some (e, w, a) | (Inr close, w, a) \<Rightarrow> session parse env close w a) = Some y"
  obtain x w' a' where r: "session_round parse env w a = (x, w', a')" by (metis prod_cases3)
  note one = session_round_run [OF r, of im]
  from y r show "run_of im Control_Thread a (snd (snd y))"
    using one by (cases x) (auto split: if_splits dest!: ih intro: rtranclp_trans)
qed

text \<open>A client that always has another request and keeps the connection.\<close>

definition busy_client :: "'w http_env \<Rightarrow> ('w \<Rightarrow> bool) \<Rightarrow> bool" where
  "busy_client env P \<longleftrightarrow> (\<forall>w. P w \<longrightarrow> (\<exists>v rq w'. he_read env w = (Read_Request v rq, w') \<and>
     (\<forall>res. \<exists>w''. he_write env (json_response env v res) w' = (True, w'') \<and> P w'' \<and>
        \<not> he_need_eof env (json_response env v res))))"

lemma busy_round:
  assumes "busy_client env P" and "P w" and "session_round parse env w a = (x, w', a')"
  shows "x = Inl Program_Aborted \<or> x = Inr False \<and> P w'"
proof -
  obtain v rq w1 where r: "he_read env w = (Read_Request v rq, w1)" and
    wr: "\<And>res. \<exists>w''. he_write env (json_response env v res) w1 = (True, w'') \<and> P w'' \<and> \<not> he_need_eof env (json_response env v res)"
    using assms(1,2) unfolding busy_client_def by blast
  show ?thesis
  proof (cases "snd (handle_request parse a rq)")
    case None
    then show ?thesis using assms(3) r by (auto simp: session_round_def split: prod.splits)
  next
    case (Some res)
    obtain w2 where "he_write env (json_response env v res) w1 = (True, w2)" "P w2" "\<not> he_need_eof env (json_response env v res)"
      using wr by blast
    then show ?thesis using assms(3) r Some by (auto simp: session_round_def Let_def split: prod.splits)
  qed
qed

lemma busy_session:
  fixes P :: "'w \<Rightarrow> bool"
  assumes "session parse env close w a = Some y"
  shows "busy_client env P \<longrightarrow> P w \<longrightarrow> \<not> close \<longrightarrow> fst y = Program_Aborted"
proof (rule session.raw_induct [OF _ assms])
  fix session :: "(string \<Rightarrow> json result) \<Rightarrow> 'w http_env \<Rightarrow> bool \<Rightarrow> 'w \<Rightarrow> app \<Rightarrow> (session_end \<times> 'w \<times> app) option"
    and parse env close w a y
  assume ih: "\<And>parse env close w a y. session parse env close w a = Some y \<Longrightarrow>
      busy_client env P \<longrightarrow> P w \<longrightarrow> \<not> close \<longrightarrow> fst y = Program_Aborted"
    and y: "(if close then Some (Session_Closed, w, a)
      else case session_round parse env w a of
          (Inl e, w, a) \<Rightarrow> Some (e, w, a) | (Inr close, w, a) \<Rightarrow> session parse env close w a) = Some y"
  show "busy_client env P \<longrightarrow> P w \<longrightarrow> \<not> close \<longrightarrow> fst y = Program_Aborted"
  proof (intro impI)
    assume b: "busy_client env P" "P w" "\<not> close"
    obtain x w' a' where r: "session_round parse env w a = (x, w', a')" by (metis prod_cases3)
    from busy_round [OF b(1,2) r] y b(3) r ih [of parse env False w' a' y] b(1)
    show "fst y = Program_Aborted" by (cases x) auto
  qed
qed

text \<open>
  A session with a client that always has another request and keeps its connection does not
  return, unless a handler ends the program.
\<close>

theorem busy_client_keeps_server:
  assumes "busy_client env P" and "P w" and "process_session parse env w a = Some (e, w', a')"
  shows "e = Program_Aborted"
  using busy_session [OF assms(3) [unfolded process_session_def], of P] assms(1,2) by simp


section \<open>Stopping the server\<close>

text \<open>The exit signal is raised once; a server that was not stopped by it is never stopped.\<close>

definition exit_missed :: "server \<Rightarrow> bool" where
  "exit_missed s \<longleftrightarrow> \<not> app_running (sv_app s) \<and> sv_phase s \<noteq> Stopped"

lemma control_keeps_running: "run_of im Control_Thread a b \<Longrightarrow> app_running b = app_running a"
proof (erule run_of_keep)
  show "app_running c = app_running a" if "app_running b = app_running a" "atomic_step im Control_Thread b c" for b c
    using that(2,1) by (elim control_stepE) (simp_all add: on_input_def set_ts_adjustment_def)
qed simp

lemma exit_missed_step:
  assumes "server_step parse env s t" and "exit_missed s"
  shows "exit_missed t"
  using assms(1)
proof cases
  case (served w e w' a)
  then obtain y where "session parse env False w (sv_app s) = Some y" "a = snd (snd y)" by (auto simp: process_session_def)
  with control_keeps_running [OF session_run] have "app_running a = app_running (sv_app s)" by metis
  with served assms(2) show ?thesis by (simp add: exit_missed_def on_session_over_def)
qed (use assms(2) in \<open>auto simp: exit_missed_def on_accept_def on_exit_signal_def app_exit_def Let_def\<close>)

lemma exit_missed_forever: "(server_step parse env)\<^sup>*\<^sup>* s t \<Longrightarrow> exit_missed s \<Longrightarrow> exit_missed t"
  by (induction rule: rtranclp_induct) (blast intro: exit_missed_step)+

text \<open>
  After the exit signal the server can stop exactly when it was waiting for a client at that
  moment.
\<close>

theorem exit_stops_idle_server_only:
  assumes "app_running (sv_app s)" and "sv_phase s \<noteq> Stopped"
  shows "(\<exists>t. (server_step parse env)\<^sup>*\<^sup>* (on_exit_signal s) t \<and> sv_phase t = Stopped) \<longleftrightarrow> sv_phase s = Accepting"
proof
  assume "sv_phase s = Accepting"
  then have "sv_phase (on_exit_signal s) = Stopped"
    using assms(1) by (simp add: on_exit_signal_def app_exit_def acceptor_cancel_def on_accept_def Let_def)
  then show "\<exists>t. (server_step parse env)\<^sup>*\<^sup>* (on_exit_signal s) t \<and> sv_phase t = Stopped" by blast
next
  assume "\<exists>t. (server_step parse env)\<^sup>*\<^sup>* (on_exit_signal s) t \<and> sv_phase t = Stopped"
  then obtain t where t: "(server_step parse env)\<^sup>*\<^sup>* (on_exit_signal s) t" "sv_phase t = Stopped" by blast
  then have "\<not> exit_missed (on_exit_signal s)" using exit_missed_forever [OF t(1)] by (auto simp: exit_missed_def)
  then show "sv_phase s = Accepting"
    using assms by (auto simp: exit_missed_def on_exit_signal_def app_exit_def acceptor_cancel_def Let_def split: if_splits)
qed

section \<open>A client to evaluate on\<close>

text \<open>The world is the list of the requests to come and the responses written.\<close>

definition list_client :: "((nat \<times> request) list \<times> http_response list) http_env" where
  "list_client = \<lparr>he_version_string = ''1'', he_dump = (\<lambda>j. []), he_prepare_payload = (\<lambda>r. r\<lparr>hr_content_length := length (hr_body r)\<rparr>),
     he_need_eof = (\<lambda>r. hr_version r < 11),
     he_read = (\<lambda>(rqs, out). case rqs of [] \<Rightarrow> (Read_End_Of_Stream, [], out) | (v, rq) # rqs \<Rightarrow> (Read_Request v rq, rqs, out)),
     he_write = (\<lambda>r (rqs, out). (True, rqs, out @ [r]))\<rparr>"


text \<open>A client that repeats its request; it is not told apart from one that waits with the next one.\<close>

definition endless_client :: "unit http_env" where
  "endless_client = \<lparr>he_version_string = ''1'', he_dump = (\<lambda>j. []), he_prepare_payload = (\<lambda>r. r),
     he_need_eof = (\<lambda>r. hr_version r < 11), he_read = (\<lambda>w. (Read_Request 11 (sample_post ''/config''), w)),
     he_write = (\<lambda>r w. (True, w))\<rparr>"

theorem busy_client_keeps_server_witness:
  "\<not> (\<exists>w' a'. process_session (sample_parse J_Null) endless_client () sample_app = Some (Session_Closed, w', a'))"
proof -
  have "busy_client endless_client (\<lambda>w. True)"
    by (simp add: busy_client_def endless_client_def json_response_def split_def)
  from busy_client_keeps_server [OF this] show ?thesis by fastforce
qed

theorem exit_stops_idle_server_only_witness:
  "\<not> (\<exists>t. (server_step (sample_parse J_Null) list_client)\<^sup>*\<^sup>* (on_exit_signal (on_accept Accepted (start_server sample_app))) t \<and> sv_phase t = Stopped)"
  using exit_stops_idle_server_only [of "on_accept Accepted (start_server sample_app)"]
  by (simp add: on_accept_def start_server_def sample_app_def create_app_def)

end
