(* ===== verification/Program.thy ===== *)
theory Program
  imports Server Options
begin

text \<open>
  The life of the whole program, the end of \<^verbatim>\<open>src/main.cpp\<close>: the threads are started, the
  primary ones (an extractor per input, the injector) are joined, the exit is signalled, the
  secondary one (the REST server) is joined.  Each thread runs under the supervisor.
\<close>

section \<open>Threads and phases\<close>

datatype primary = Extractor_For string | Injector_Thread

datatype main_phase = Joining_Primaries | Joining_Secondaries | Main_Returned

record program =
  pg_norestart :: bool
  pg_primaries :: "primary list"
  pg_main :: main_phase
  pg_server :: server

definition primary_function ::
  "cpp_impl \<Rightarrow> rescaling \<Rightarrow> (nat \<Rightarrow> cpp_error option) \<Rightarrow> 'w av_env \<Rightarrow> output_spec \<Rightarrow> primary
    \<Rightarrow> 'w \<times> app \<Rightarrow> (('w \<times> app) \<times> unit result) option" where
  "primary_function im rescale grow env spec t = (case t of
      Extractor_For name \<Rightarrow> extractor_thread im rescale env name
    | Injector_Thread \<Rightarrow> injector_thread im rescale grow env spec)"

definition start_threads :: "bool \<Rightarrow> app \<times> string list \<Rightarrow> program" where
  "start_threads norestart s = (let (a, names) = s in
     \<lparr>pg_norestart = norestart, pg_primaries = map Extractor_For names @ [Injector_Thread],
      pg_main = Joining_Primaries, pg_server = start_server a\<rparr>)"

text \<open>An exception on the way ends the program with a failure.\<close>

definition run_main :: "program_options \<Rightarrow> program result" where
  "run_main opts = bind_res (start_app opts) (\<lambda>s. Inr (start_threads (po_norestart opts) s))"

definition exit_program :: "program \<Rightarrow> program" where
  "exit_program p = p\<lparr>pg_main := Joining_Secondaries, pg_server := on_exit_signal (pg_server p)\<rparr>"

text \<open>
  What can happen, in any order: a thread returns from the supervisor, the others change the shared
  state, the server accepts clients and serves them, the supervisor starts a server again that was
  stopped, and main goes on when what it joins has returned.  Threads that abort end the program at
  once and are not steps.
\<close>

inductive program_step ::
  "cpp_impl \<Rightarrow> rescaling \<Rightarrow> (nat \<Rightarrow> cpp_error option) \<Rightarrow> 'w av_env \<Rightarrow> output_spec \<Rightarrow> (string \<Rightarrow> json result) \<Rightarrow> 'h http_env
    \<Rightarrow> program \<Rightarrow> program \<Rightarrow> bool" for im rescale grow env spec parse henv where
  primary_returned: "t \<in> set (pg_primaries p) \<Longrightarrow>
    supervised (primary_function im rescale grow env spec t) (\<not> pg_norestart p) s = Some (s', Inr ()) \<Longrightarrow>
    program_step im rescale grow env spec parse henv p (p\<lparr>pg_primaries := remove1 t (pg_primaries p)\<rparr>)"
| state_changed: "atomic_step im x (sv_app (pg_server p)) a \<Longrightarrow> x \<noteq> Main_Thread \<Longrightarrow>
    program_step im rescale grow env spec parse henv p (p\<lparr>pg_server := (pg_server p)\<lparr>sv_app := a\<rparr>\<rparr>)"
| server_moved: "server_step parse henv (pg_server p) s \<Longrightarrow> app_running (sv_app s) = app_running (sv_app (pg_server p)) \<Longrightarrow>
    program_step im rescale grow env spec parse henv p (p\<lparr>pg_server := s\<rparr>)"
| server_restarted: "sv_phase (pg_server p) = Stopped \<Longrightarrow> \<not> pg_norestart p \<Longrightarrow>
    program_step im rescale grow env spec parse henv p (p\<lparr>pg_server := start_server (sv_app (pg_server p))\<rparr>)"
| primaries_joined: "pg_main p = Joining_Primaries \<Longrightarrow> pg_primaries p = [] \<Longrightarrow>
    program_step im rescale grow env spec parse henv p (exit_program p)"
| secondaries_joined: "pg_main p = Joining_Secondaries \<Longrightarrow> sv_phase (pg_server p) = Stopped \<Longrightarrow> pg_norestart p \<Longrightarrow>
    program_step im rescale grow env spec parse henv p (p\<lparr>pg_main := Main_Returned\<rparr>)"

section \<open>When the program ends\<close>

lemma supervised_restarts:
  assumes "supervised f True s = Some (s', r)"
  shows "aborts r"
proof -
  have "b \<longrightarrow> aborts (snd y)" if "supervised f b s = Some y" for b y
  proof (rule supervised.raw_induct [OF _ that])
    fix sup :: "('a \<Rightarrow> ('a \<times> unit result) option) \<Rightarrow> bool \<Rightarrow> 'a \<Rightarrow> ('a \<times> unit result) option"
      and f :: "'a \<Rightarrow> ('a \<times> unit result) option" and b s y
    assume "\<And>f b s y. sup f b s = Some y \<Longrightarrow> b \<longrightarrow> aborts (snd y)"
      and "(case f s of None \<Rightarrow> None
        | Some (s, r) \<Rightarrow> if aborts r then Some (s, r) else if b then sup f b s else Some (s, Inr ())) = Some y"
    then show "b \<longrightarrow> aborts (snd y)" by (auto split: option.splits if_splits) (metis snd_conv surj_pair)
  qed
  from this [OF assms] show ?thesis by simp
qed

text \<open>
  The invariant: a program that restarts its threads has all of them and waits for them; the exit
  is signalled exactly when main has joined the primary threads.
\<close>

definition program_ok :: "program \<Rightarrow> bool" where
  "program_ok p \<longleftrightarrow>
     (\<not> pg_norestart p \<longrightarrow> pg_main p = Joining_Primaries \<and> pg_primaries p \<noteq> []) \<and>
     (pg_main p \<noteq> Joining_Primaries \<longrightarrow> pg_primaries p = []) \<and>
     (pg_main p = Joining_Primaries \<longleftrightarrow> app_running (sv_app (pg_server p))) \<and>
     (pg_main p = Joining_Primaries \<longrightarrow> sv_phase (pg_server p) \<noteq> Stopped)"

lemma start_threads_ok: "app_running a \<Longrightarrow> program_ok (start_threads norestart (a, names))"
  by (simp add: program_ok_def start_threads_def start_server_def)

lemma thread_step_running: "atomic_step im x a b \<Longrightarrow> x \<noteq> Main_Thread \<Longrightarrow> app_running b = app_running a"
  by (induction rule: atomic_step.induct) (simp_all add: set_queues_def on_input_def set_ts_adjustment_def)

lemma server_step_running:
  assumes "server_step parse env s t" and "app_running (sv_app t) = app_running (sv_app s)"
  shows "app_running (sv_app s) \<longrightarrow> sv_phase s \<noteq> Stopped \<longrightarrow> sv_phase t \<noteq> Stopped"
  using assms
  by (cases rule: server_step.cases)
    (auto simp: on_accept_def on_session_over_def on_exit_signal_def app_exit_def acceptor_cancel_def Let_def split: if_splits)

lemma program_step_ok:
  assumes "program_step im rescale grow env spec parse henv p q" and "program_ok p"
  shows "program_ok q \<and> pg_norestart q = pg_norestart p"
  using assms(1)
proof cases
  case (primary_returned t s s')
  have "pg_norestart p"
    using primary_returned(3) supervised_restarts [of "primary_function im rescale grow env spec t" s s' "Inr ()"]
    by (cases "pg_norestart p") (simp_all add: aborts_def)
  with primary_returned(1,2) assms(2) show ?thesis by (auto simp: program_ok_def)
next
  case (state_changed x a)
  with thread_step_running [OF state_changed(2,3)] assms(2) show ?thesis by (simp add: program_ok_def)
next
  case (server_moved s)
  with server_step_running [OF server_moved(2,3)] assms(2) show ?thesis by (auto simp: program_ok_def)
next
  case server_restarted
  with assms(2) show ?thesis by (auto simp: program_ok_def start_server_def)
next
  case primaries_joined
  with assms(2) show ?thesis
    by (auto simp: program_ok_def exit_program_def on_exit_signal_def app_exit_def acceptor_cancel_def on_accept_def Let_def)
next
  case secondaries_joined
  with assms(2) show ?thesis by (auto simp: program_ok_def)
qed

lemma program_steps_ok:
  "(program_step im rescale grow env spec parse henv)\<^sup>*\<^sup>* p q \<Longrightarrow> program_ok p \<Longrightarrow>
   program_ok q \<and> pg_norestart q = pg_norestart p"
  by (induction rule: rtranclp_induct) (use program_step_ok in blast)+

text \<open>A server that the signal did not stop is never stopped, and main waits for it.\<close>

lemma hanging_step:
  assumes "program_step im rescale grow env spec parse henv p q" and "pg_main p = Joining_Secondaries" and "exit_missed (pg_server p)"
  shows "pg_main q = Joining_Secondaries \<and> exit_missed (pg_server q)"
  using assms(1)
proof cases
  case (server_moved s)
  with exit_missed_step [OF server_moved(2) assms(3)] assms(2) show ?thesis by simp
next
  case (state_changed x a)
  with thread_step_running [OF state_changed(2,3)] assms(2,3) show ?thesis by (simp add: exit_missed_def)
qed (use assms(2,3) in \<open>auto simp: exit_missed_def start_server_def\<close>)

lemma hanging_steps:
  "(program_step im rescale grow env spec parse henv)\<^sup>*\<^sup>* p q \<Longrightarrow> pg_main p = Joining_Secondaries \<Longrightarrow> exit_missed (pg_server p) \<Longrightarrow>
   pg_main q = Joining_Secondaries"
proof -
  assume "(program_step im rescale grow env spec parse henv)\<^sup>*\<^sup>* p q" "pg_main p = Joining_Secondaries" "exit_missed (pg_server p)"
  then have "pg_main q = Joining_Secondaries \<and> exit_missed (pg_server q)"
    by (induction rule: rtranclp_induct) (use hanging_step in blast)+
  then show ?thesis ..
qed


section \<open>A program to evaluate on\<close>

text \<open>One input whose source cannot be opened, no restarting; a client is connected at the end.\<close>

definition closed_env :: "list_io av_env" where
  "closed_env = sample_env\<lparr>env_open_input := (\<lambda>_ _ w. (- 1, w))\<rparr>"

definition sample_program :: program_options where
  "sample_program = \<lparr>po_user_inputs = [hd sample_specs],
     po_output = \<lparr>os_source = ''o'', os_sink = ''p'', os_source_format = None, os_sink_format = None, os_ts_adjustment = 0\<rparr>,
     po_start_input_name = None, po_http_address = ''0.0.0.0'', po_http_port = 3445, po_logging_level = Log_Info,
     po_logging_thread = None, po_norestart = True\<rparr>"

lemma sample_program_starts: "\<exists>a. run_main sample_program = Inr (start_threads True (a, [''a''])) \<and> app_running a"
  by (simp add: run_main_def start_app_def sample_program_def sample_specs_def validate_options_def spec_invalid_def
      clear_input_name_def default_input_spec_def Let_def) (auto simp: create_app_def)

lemma failing_stream:
  "run_stream im closed_env src snk None None factories w s =
     Some (w, s, Inl (ff_runtime_error (io_strerror list_io) ''Could not open source stream'' (- 1)))"
proof -
  have "source_open closed_env src None w =
      (Inl (ff_runtime_error (io_strerror list_io) ''Could not open source stream'' (- 1)), w)"
    by (simp add: source_open_def io_then_def io_return_def av_call_def closed_env_def sample_env_def)
  then show ?thesis by (simp add: run_stream_def open_streams_def io_then_def)
qed

lemma failing_threads:
  assumes "pg_norestart p"
  shows "\<exists>s s'. supervised (primary_function im rescale grow closed_env (po_output sample_program) Injector_Thread) (\<not> pg_norestart p) s = Some (s', Inr ())"
    and "\<exists>s s'. supervised (primary_function im rescale grow closed_env spec (Extractor_For ''a'')) (\<not> pg_norestart p) s = Some (s', Inr ())"
proof -
  have e: "\<not> aborts (Inl (ff_runtime_error f d e))" for f d e by (simp add: aborts_def ff_runtime_error_def)
  have "\<exists>s'. supervised (primary_function im rescale grow closed_env (po_output sample_program) Injector_Thread) False (w, a) = Some (s', Inr ())" for w a
    by (simp add: supervised.simps [of _ False] primary_function_def injector_thread_def sample_program_def failing_stream e)
  with assms show "\<exists>s s'. supervised (primary_function im rescale grow closed_env (po_output sample_program) Injector_Thread) (\<not> pg_norestart p) s = Some (s', Inr ())" by simp
  have "\<exists>s'. supervised (primary_function im rescale grow closed_env spec (Extractor_For ''a'')) False (w, sample_app) = Some (s', Inr ())" for w
    by (simp add: supervised.simps [of _ False] primary_function_def extractor_thread_def sample_user(1) user_defined_input_def
        default_input_spec_def failing_stream e Let_def)
  from this [of empty_list_io] assms show "\<exists>s s'. supervised (primary_function im rescale grow closed_env spec (Extractor_For ''a'')) (\<not> pg_norestart p) s = Some (s', Inr ())"
    by auto
qed

abbreviation sample_step :: "program \<Rightarrow> program \<Rightarrow> bool" where
  "sample_step \<equiv> program_step sample_impl (\<lambda>t a b. t) (\<lambda>n. None) closed_env (po_output sample_program) (\<lambda>s. Inr J_Null) list_client"


end
