(* ===== verification/Slices.thy ===== *)
theory Slices
  imports Nalu
begin

text \<open>
  Slices as objects in memory (\<^verbatim>\<open>src/slice.h\<close>): a slice shows a part of a
  buffer, several slices can show the same bytes, an owned slice has a buffer of its own, and an
  iterator points to a slice and checks every access.  \<^verbatim>\<open>Nalu\<close> has the access by
  index; the code that only reads sees a slice as the list \<open>contents\<close>.
\<close>

section \<open>Memory\<close>

record slice_view =
  sv_buffer :: nat
  sv_offset :: nat
  sv_size :: nat

record 'a slice_memory =
  sm_buffers :: "nat \<Rightarrow> 'a list"
  sm_slices :: "nat \<Rightarrow> slice_view"

definition view_fits :: "'a slice_memory \<Rightarrow> slice_view \<Rightarrow> bool" where
  "view_fits m v \<longleftrightarrow> sv_offset v + sv_size v \<le> length (sm_buffers m (sv_buffer v))"

definition contents :: "'a slice_memory \<Rightarrow> nat \<Rightarrow> 'a list" where
  "contents m s = (let v = sm_slices m s in take (sv_size v) (drop (sv_offset v) (sm_buffers m (sv_buffer v))))"

text \<open>\<^verbatim>\<open>operator[]\<close> returns a reference; \<open>slice_write\<close> is an assignment through it.\<close>

definition slice_write :: "cpp_impl \<Rightarrow> 'a slice_memory \<Rightarrow> nat \<Rightarrow> nat \<Rightarrow> 'a \<Rightarrow> 'a slice_memory result" where
  "slice_write im m s i x = (let v = sm_slices m s in
     bind_res (cpp_assert im (i < sv_size v)) (\<lambda>_.
     if i < sv_size v
     then Inr (m\<lparr>sm_buffers := (sm_buffers m)(sv_buffer v := (sm_buffers m (sv_buffer v))[sv_offset v + i := x])\<rparr>)
     else Inl Range_Violation))"

text \<open>The constructors of an owned slice fill a vector of its own, the buffer \<open>b\<close>; the object is at \<open>s\<close>.\<close>

definition owned_from_vector :: "nat \<Rightarrow> nat \<Rightarrow> 'a list \<Rightarrow> 'a slice_memory \<Rightarrow> 'a slice_memory" where
  "owned_from_vector s b xs m = m\<lparr>sm_buffers := (sm_buffers m)(b := xs),
     sm_slices := (sm_slices m)(s := \<lparr>sv_buffer = b, sv_offset = 0, sv_size = length xs\<rparr>)\<rparr>"

definition owned_from_slice :: "nat \<Rightarrow> nat \<Rightarrow> nat \<Rightarrow> 'a slice_memory \<Rightarrow> 'a slice_memory" where
  "owned_from_slice s b base m = owned_from_vector s b (contents m base) m"

lemma contents_owned [simp]: "contents (owned_from_vector s b xs m) s = xs"
  by (simp add: contents_def owned_from_vector_def)

lemma length_contents: "view_fits m (sm_slices m s) \<Longrightarrow> length (contents m s) = sv_size (sm_slices m s)"
  by (simp add: contents_def view_fits_def Let_def)

section \<open>Iterators\<close>

text \<open>The container is the address of a slice object; a default iterator has none.\<close>

record slice_iter =
  it_container :: "nat option"
  it_idx :: u64

definition default_iter :: slice_iter where
  "default_iter = \<lparr>it_container = None, it_idx = 0\<rparr>"

definition slice_begin :: "nat \<Rightarrow> slice_iter" where
  "slice_begin s = \<lparr>it_container = Some s, it_idx = 0\<rparr>"

definition slice_end :: "'a slice_memory \<Rightarrow> nat \<Rightarrow> slice_iter" where
  "slice_end m s = \<lparr>it_container = Some s, it_idx = word_of_nat (length (contents m s))\<rparr>"

definition iter_dereference :: "cpp_impl \<Rightarrow> 'a slice_memory \<Rightarrow> slice_iter \<Rightarrow> 'a result" where
  "iter_dereference im m it =
     (case it_container it of
        None \<Rightarrow> Inl (Out_Of_Range ''iterator is not initialized'')
      | Some s \<Rightarrow>
          if unat (it_idx it) \<ge> length (contents m s) then Inl (Out_Of_Range ''dereferencing out-of-range iterator'')
          else slice_index im (contents m s) (unat (it_idx it)))"

definition iter_equal :: "slice_iter \<Rightarrow> slice_iter \<Rightarrow> bool" where
  "iter_equal it other \<longleftrightarrow> it_container it = it_container other \<and> it_idx it = it_idx other"

definition iter_increment :: "slice_iter \<Rightarrow> slice_iter" where
  "iter_increment it = it\<lparr>it_idx := it_idx it + 1\<rparr>"

definition iter_decrement :: "slice_iter \<Rightarrow> slice_iter" where
  "iter_decrement it = it\<lparr>it_idx := it_idx it - 1\<rparr>"

definition iter_advance :: "u64 \<Rightarrow> slice_iter \<Rightarrow> slice_iter" where
  "iter_advance diff it = it\<lparr>it_idx := it_idx it + diff\<rparr>"

definition iter_distance_to :: "slice_iter \<Rightarrow> slice_iter \<Rightarrow> u64" where
  "iter_distance_to it other = it_idx other - it_idx it"

text \<open>Dereferencing is checked, whatever the index arithmetic did.\<close>

lemma iter_dereference_eq:
  "iter_dereference im m \<lparr>it_container = Some s, it_idx = i\<rparr> =
     (if unat i < length (contents m s) then Inr (contents m s ! unat i)
      else Inl (Out_Of_Range ''dereferencing out-of-range iterator''))"
  by (simp add: iter_dereference_def slice_index_def)

lemma iter_laws:
  "iter_decrement (iter_increment it) = it" "iter_increment (iter_decrement it) = it"
  "iter_advance (iter_distance_to it other) it = other\<lparr>it_container := it_container it\<rparr>"
  "iter_advance 1 it = iter_increment it" "iter_equal it other \<longleftrightarrow> it = other"
  by (cases it; cases other; simp add: iter_decrement_def iter_increment_def iter_advance_def iter_distance_to_def iter_equal_def)+

section \<open>Loops over iterators\<close>

text \<open>
  \<^verbatim>\<open>std::copy\<close>, and every other loop of the code from one iterator to another: what was
  copied and how it ended.
\<close>

partial_function (option) copy_range ::
  "cpp_impl \<Rightarrow> 'a slice_memory \<Rightarrow> slice_iter \<Rightarrow> slice_iter \<Rightarrow> 'a list \<Rightarrow> ('a list \<times> unit result) option" where
  "copy_range im m it stop out =
     (if iter_equal it stop then Some (out, Inr ())
      else (case iter_dereference im m it of
        Inl e \<Rightarrow> Some (out, Inl e)
      | Inr x \<Rightarrow> copy_range im m (iter_increment it) stop (out @ [x])))"

lemma copy_range_step:
  "i \<noteq> j \<Longrightarrow> unat i < length (contents m s) \<Longrightarrow>
   copy_range im m \<lparr>it_container = Some s, it_idx = i\<rparr> \<lparr>it_container = Some s, it_idx = j\<rparr> out =
   copy_range im m \<lparr>it_container = Some s, it_idx = i + 1\<rparr> \<lparr>it_container = Some s, it_idx = j\<rparr> (out @ [contents m s ! unat i])"
  "i \<noteq> j \<Longrightarrow> \<not> unat i < length (contents m s) \<Longrightarrow>
   copy_range im m \<lparr>it_container = Some s, it_idx = i\<rparr> \<lparr>it_container = Some s, it_idx = j\<rparr> out =
   Some (out, Inl (Out_Of_Range ''dereferencing out-of-range iterator''))"
  "copy_range im m it it out = Some (out, Inr ())"
  by (subst copy_range.simps; simp add: iter_laws(5) iter_dereference_eq iter_increment_def)+

lemma unat_Suc_small:
  fixes i :: u64
  assumes "unat i < n" and "n < 2 ^ 64"
  shows "unat (i + 1) = Suc (unat i)"
  using assms by (intro unat_add_lem [THEN iffD1, THEN trans, of i 1]) simp_all

lemma copy_range_spec:
  assumes "length (contents m s) < 2 ^ 64"
  shows "copy_range im m \<lparr>it_container = Some s, it_idx = i\<rparr> \<lparr>it_container = Some s, it_idx = j\<rparr> out =
    Some (if i = j \<or> i < j \<and> unat j \<le> length (contents m s)
      then (out @ take (unat j - unat i) (drop (unat i) (contents m s)), Inr ())
      else (out @ drop (unat i) (contents m s), Inl (Out_Of_Range ''dereferencing out-of-range iterator'')))"
proof (induction "length (contents m s) - unat i" arbitrary: i out rule: less_induct)
  case less
  let ?xs = "contents m s"
  consider "i = j" | "i \<noteq> j" "\<not> unat i < length ?xs" | "i \<noteq> j" "unat i < length ?xs" by blast
  then show ?case
  proof cases
    case 1
    then show ?thesis by (simp add: copy_range_step(3))
  next
    case 2
    then have "\<not> (i < j \<and> unat j \<le> length ?xs)" by (auto simp: word_less_nat_alt)
    with 2 show ?thesis by (simp add: copy_range_step(2))
  next
    case 3
    have n: "unat (i + 1) = Suc (unat i)" using unat_Suc_small [OF 3(2) assms] .
    have le: "i + 1 = j \<or> i + 1 < j \<longleftrightarrow> i < j" unfolding word_less_nat_alt n word_unat_eq_iff [of "i + 1"] by auto
    have d: "drop (unat i) ?xs = ?xs ! unat i # drop (Suc (unat i)) ?xs" using 3(2) by (simp add: Cons_nth_drop_Suc)
    have t: "take (unat j - unat i) (drop (unat i) ?xs) = ?xs ! unat i # take (unat j - Suc (unat i)) (drop (Suc (unat i)) ?xs)"
      if "i < j" using that d by (cases "unat j - unat i") (auto simp: word_less_nat_alt diff_Suc)
    have "length ?xs - unat (i + 1) < length ?xs - unat i" using 3(2) n by simp
    note IH = less.hyps [OF this, of "out @ [?xs ! unat i]"]
    show ?thesis
    proof (cases "i < j \<and> unat j \<le> length ?xs")
      case True
      then have "i + 1 = j \<or> i + 1 < j \<and> unat j \<le> length ?xs" using le by blast
      with IH True t show ?thesis by (simp add: copy_range_step(1) [OF 3] n)
    next
      case False
      have "\<not> (i + 1 = j \<or> i + 1 < j \<and> unat j \<le> length ?xs)"
      proof
        assume "i + 1 = j \<or> i + 1 < j \<and> unat j \<le> length ?xs"
        moreover from this have "i < j" using le by blast
        ultimately show False using False n 3(2) by auto
      qed
      with IH False 3(1) d show ?thesis by (simp add: copy_range_step(1) [OF 3] n)
    qed
  qed
qed


text \<open>
  Writing through a slice changes its element and nothing of an owned slice that was copied
  before.
\<close>

theorem owned_slice_is_a_copy:
  assumes "b \<noteq> sv_buffer (sm_slices m t)" and "s \<noteq> t"
    and "slice_write im (owned_from_slice s b base m) t i x = Inr m'"
  shows "contents m' s = contents m base \<and> contents m' t = (contents m t)[i := x]"
proof -
  let ?v = "sm_slices m t" and ?buf = "sm_buffers m (sv_buffer (sm_slices m t))"
  have t: "sm_slices (owned_from_slice s b base m) t = ?v"
    "sm_buffers (owned_from_slice s b base m) (sv_buffer ?v) = ?buf"
    using assms(1,2) by (simp_all add: owned_from_slice_def owned_from_vector_def)
  have m': "m' = (owned_from_slice s b base m)\<lparr>sm_buffers :=
      (sm_buffers (owned_from_slice s b base m))(sv_buffer ?v := ?buf[sv_offset ?v + i := x])\<rparr>"
    using assms(3) by (auto simp: slice_write_def Let_def t bind_res_Inr_iff split: if_splits)
  have "contents m' s = contents m base"
    using assms(1) by (simp add: m' owned_from_slice_def owned_from_vector_def contents_def)
  moreover have "contents m' t = (contents m t)[i := x]"
    using assms(1,2) by (simp add: m' owned_from_slice_def owned_from_vector_def contents_def Let_def
        drop_update_swap take_update_swap)
  ultimately show ?thesis by blast
qed

definition sample_memory :: "nat slice_memory" where
  "sample_memory = \<lparr>sm_buffers = (\<lambda>_. [])(0 := [10, 11, 12, 13]),
     sm_slices = (\<lambda>_. \<lparr>sv_buffer = 0, sv_offset = 1, sv_size = 2\<rparr>)\<rparr>"


theorem owned_slice_is_a_copy_witness:
  "\<exists>m'. slice_write sample_impl (owned_from_slice 7 9 0 sample_memory) 0 1 5 = Inr m' \<and> contents m' 7 = [11, 12] \<and> contents m' 0 = [11, 5]"
proof -
  have c: "contents sample_memory 0 = [11, 12]" by (simp add: contents_def sample_memory_def)
  obtain m' where m: "slice_write sample_impl (owned_from_slice 7 9 0 sample_memory) 0 1 5 = Inr m'"
    by (auto simp: slice_write_def owned_from_slice_def owned_from_vector_def sample_memory_def Let_def)
  have "(9::nat) \<noteq> sv_buffer (sm_slices sample_memory 0)" "(7::nat) \<noteq> 0" by (simp_all add: sample_memory_def)
  from owned_slice_is_a_copy [OF this m] m c show ?thesis by auto
qed

end
