(* ===== verification/Monitor.thy ===== *)
theory Monitor
  imports Prelude
begin

text \<open>
  Objects whose methods run under one mutex.  A call is a sequence of statements on the object's
  value; threads take turns between any two statements, and \<^verbatim>\<open>std::lock_guard\<close> is
  the only thing that keeps them apart.  The locale \<open>critical_section\<close> states what the statements
  of a method have to do with its effect as a whole; from that the calls are shown to take effect
  one after the other, at the moment at which they release the mutex.
\<close>

section \<open>Threads and their calls\<close>

text \<open>\<open>'c\<close> are the calls with their arguments, \<open>'s\<close> the places between the statements.\<close>

datatype ('c, 's) place = Outside | Waiting 'c | Inside 'c 's

record ('c, 's, 'r, 'q) monitor =
  mo_value :: 'q
  mo_owner :: "nat option"
  mo_place :: "nat \<Rightarrow> ('c, 's) place"
  mo_log :: "(nat \<times> 'c \<times> 'r) list"

definition new_monitor :: "'q \<Rightarrow> ('c, 's, 'r, 'q) monitor" where
  "new_monitor q = \<lparr>mo_value = q, mo_owner = None, mo_place = (\<lambda>_. Outside), mo_log = []\<rparr>"

text \<open>
  \<open>start\<close> is the place behind the lock guard, \<open>exec\<close> executes the statement at a place and
  \<open>reply\<close> is the value returned, at the end of the method.  \<open>mo_log\<close> has the calls in the order in
  which they released the mutex; the code has no such list.
\<close>

inductive monitor_step ::
  "('c \<Rightarrow> 's) \<Rightarrow> ('s \<Rightarrow> 'q \<Rightarrow> ('s \<times> 'q) result) \<Rightarrow> ('s \<Rightarrow> 'r option) \<Rightarrow> nat
    \<Rightarrow> ('c, 's, 'r, 'q) monitor \<Rightarrow> ('c, 's, 'r, 'q) monitor \<Rightarrow> bool"
  for start exec reply t where
  called: "mo_place m t = Outside \<Longrightarrow>
    monitor_step start exec reply t m (m\<lparr>mo_place := (mo_place m)(t := Waiting c)\<rparr>)"
| acquired: "mo_place m t = Waiting c \<Longrightarrow> mo_owner m = None \<Longrightarrow>
    monitor_step start exec reply t m (m\<lparr>mo_owner := Some t, mo_place := (mo_place m)(t := Inside c (start c))\<rparr>)"
| executed: "mo_place m t = Inside c s \<Longrightarrow> exec s (mo_value m) = Inr (s', q) \<Longrightarrow>
    monitor_step start exec reply t m (m\<lparr>mo_value := q, mo_place := (mo_place m)(t := Inside c s')\<rparr>)"
| released: "mo_place m t = Inside c s \<Longrightarrow> reply s = Some r \<Longrightarrow>
    monitor_step start exec reply t m
      (m\<lparr>mo_owner := None, mo_place := (mo_place m)(t := Outside), mo_log := mo_log m @ [(t, c, r)]\<rparr>)"

inductive_cases monitor_stepE: "monitor_step start exec reply t m m'"

abbreviation monitor_steps where
  "monitor_steps start exec reply \<equiv> (\<lambda>m m'. \<exists>t. monitor_step start exec reply t m m')\<^sup>*\<^sup>*"

text \<open>The calls one after the other, each as a whole.\<close>

fun replay :: "('c \<Rightarrow> 'q \<Rightarrow> ('r \<times> 'q) result) \<Rightarrow> (nat \<times> 'c \<times> 'r) list \<Rightarrow> 'q \<Rightarrow> 'q option" where
  "replay whole [] q = Some q"
| "replay whole ((t, c, r) # calls) q = (case whole c q of
     Inr (r', q') \<Rightarrow> if r' = r then replay whole calls q' else None
   | Inl e \<Rightarrow> None)"

lemma replay_append:
  "replay whole (calls @ [(t, c, r)]) q = Some q' \<longleftrightarrow>
   (\<exists>q1. replay whole calls q = Some q1 \<and> whole c q1 = Inr (r, q'))"
  by (induction calls arbitrary: q) (auto split: sum.splits)

text \<open>At most the owner is inside a method, and the owner is.\<close>

definition guarded :: "('c, 's, 'r, 'q) monitor \<Rightarrow> bool" where
  "guarded m \<longleftrightarrow> (\<forall>t. (\<exists>c s. mo_place m t = Inside c s) \<longleftrightarrow> mo_owner m = Some t)"

lemma guardedD:
  "guarded m \<Longrightarrow> mo_place m t = Inside c s \<Longrightarrow> mo_owner m = Some t"
  "guarded m \<Longrightarrow> mo_owner m = Some t \<Longrightarrow> \<exists>c s. mo_place m t = Inside c s"
  unfolding guarded_def by blast+

lemma guarded_step: "monitor_step start exec reply t m m' \<Longrightarrow> guarded m \<Longrightarrow> guarded m'"
proof (induction rule: monitor_step.induct)
  case (called m c)
  then show ?case by (auto simp: guarded_def split: if_splits) (metis place.distinct(3))
next
  case (acquired m c)
  then show ?case by (auto simp: guarded_def split: if_splits)
next
  case (executed m c s s' q)
  then show ?case by (auto simp: guarded_def split: if_splits)
next
  case (released m c s r)
  then show ?case by (auto simp: guarded_def split: if_splits) (metis option.inject)
qed

section \<open>What the statements promise\<close>

text \<open>
  \<open>rest\<close> is the effect of the statements that are left, \<open>whole\<close> that of a method.  \<open>left\<close> is a bound
  for the number of statements that are left.
\<close>

locale critical_section =
  fixes start :: "'c \<Rightarrow> 's" and exec :: "'s \<Rightarrow> 'q \<Rightarrow> ('s \<times> 'q) result" and reply :: "'s \<Rightarrow> 'r option"
    and rest :: "'s \<Rightarrow> 'q \<Rightarrow> ('r \<times> 'q) result" and whole :: "'c \<Rightarrow> 'q \<Rightarrow> ('r \<times> 'q) result"
    and left :: "'s \<Rightarrow> 'q \<Rightarrow> nat"
  assumes start_rest: "rest (start c) q = whole c q"
    and exec_rest: "exec s q = Inr (s', q') \<Longrightarrow> rest s' q' = rest s q"
    and exec_fails: "exec s q = Inl e \<Longrightarrow> reply s = None \<Longrightarrow> \<exists>e'. rest s q = Inl e'"
    and reply_rest: "reply s = Some r \<Longrightarrow> rest s q = Inr (r, q)"
    and exec_left: "reply s = None \<Longrightarrow> exec s q = Inr (s', q') \<Longrightarrow> left s' q' < left s q"
begin

text \<open>The value of the object when the calls of the log are over, and what becomes of it.\<close>

definition consistent :: "'q \<Rightarrow> ('c, 's, 'r, 'q) monitor \<Rightarrow> bool" where
  "consistent q0 m \<longleftrightarrow> guarded m \<and> (\<exists>q. replay whole (mo_log m) q0 = Some q \<and>
     (mo_owner m = None \<longrightarrow> mo_value m = q) \<and>
     (\<forall>t c s. mo_place m t = Inside c s \<longrightarrow> rest s (mo_value m) = whole c q))"

lemma consistent_new: "consistent q0 (new_monitor q0)"
  by (simp add: consistent_def guarded_def new_monitor_def)

lemma consistent_step:
  assumes "monitor_step start exec reply t m m'" and "consistent q0 m"
  shows "consistent q0 m'"
proof -
  have g: "guarded m" "guarded m'" using assms guarded_step by (auto simp: consistent_def)
  obtain q where q: "replay whole (mo_log m) q0 = Some q" "mo_owner m = None \<longrightarrow> mo_value m = q"
    and ins: "\<And>t c s. mo_place m t = Inside c s \<Longrightarrow> rest s (mo_value m) = whole c q"
    using assms(2) by (auto simp: consistent_def)
  note only = guardedD(1) [OF g(1)] guardedD(1) [OF g(2)]
  from assms(1) show ?thesis
  proof cases
    case (called c)
    with g(2) q ins show ?thesis by (auto simp: consistent_def split: if_splits)
  next
    case (acquired c)
    with g(2) q ins start_rest only(2) show ?thesis
      by (fastforce simp: consistent_def split: if_splits)
  next
    case (executed c s s' q')
    have o: "mo_owner m = Some t" using only(1) executed(2) .
    have "rest s' q' = whole c q" using exec_rest [OF executed(3)] ins [OF executed(2)] by simp
    moreover have "rest s'' (mo_value m') = rest s' q'" and "c' = c" if "mo_place m' t' = Inside c' s''" for t' c' s''
    proof -
      have "t' = t" using only(2) [OF that] o executed(1) by simp
      with that executed(1) show "rest s'' (mo_value m') = rest s' q'" and "c' = c" by simp_all
    qed
    ultimately have "\<forall>t c s. mo_place m' t = Inside c s \<longrightarrow> rest s (mo_value m') = whole c q" by metis
    with g(2) q(1) o executed(1) show ?thesis unfolding consistent_def by simp
  next
    case (released c s r)
    have "whole c q = Inr (r, mo_value m)" using ins [OF released(2)] reply_rest [OF released(3)] by simp
    then have "replay whole (mo_log m') q0 = Some (mo_value m')"
      using q(1) released(1) by (simp add: replay_append)
    moreover have "\<not> (\<exists>t c s. mo_place m' t = Inside c s)" using only(2) released(1) by fastforce
    ultimately show ?thesis using g(2) by (auto simp: consistent_def)
  qed
qed

lemma consistent_steps: "monitor_steps start exec reply m m' \<Longrightarrow> consistent q0 m \<Longrightarrow> consistent q0 m'"
  by (induction rule: rtranclp_induct) (use consistent_step in blast)+

text \<open>Whatever the interleaving, the replies are those of the calls one after the other.\<close>

lemma calls_linearize:
  assumes "monitor_steps start exec reply (new_monitor q0) m"
  shows "\<exists>q. replay whole (mo_log m) q0 = Some q \<and> (mo_owner m = None \<longrightarrow> mo_value m = q)"
  using consistent_steps [OF assms consistent_new] by (auto simp: consistent_def)

lemma inside_is_owner:
  assumes "monitor_steps start exec reply (new_monitor q0) m" and "mo_place m t = Inside c s"
  shows "mo_owner m = Some t"
  using consistent_steps [OF assms(1) consistent_new] assms(2) by (auto simp: consistent_def dest: guardedD(1))

text \<open>When the calls cannot fail, the thread that has the mutex gets to release it by its own steps.\<close>

lemma owner_releases:
  assumes "\<And>c q e. whole c q \<noteq> Inl e" and "consistent q0 m" and "mo_owner m = Some t"
  shows "\<exists>m' c r. (monitor_step start exec reply t)\<^sup>*\<^sup>* m m' \<and> mo_owner m' = None \<and> mo_log m' = mo_log m @ [(t, c, r)]"
  using assms(2,3)
proof (induction "case mo_place m t of Inside c s \<Rightarrow> left s (mo_value m) | _ \<Rightarrow> 0" arbitrary: m rule: less_induct)
  case less
  obtain c s where p: "mo_place m t = Inside c s"
    using less.prems guardedD(2) [of m t] by (auto simp: consistent_def)
  obtain q where rest: "rest s (mo_value m) = whole c q" using less.prems(1) p by (auto simp: consistent_def)
  show ?case
  proof (cases "reply s")
    case (Some r)
    from monitor_step.released [of m t c s reply r start exec, OF p Some]
    show ?thesis by (intro exI conjI) (rule r_into_rtranclp, assumption, simp_all)
  next
    case None
    obtain s' q' where e: "exec s (mo_value m) = Inr (s', q')"
    proof (cases "exec s (mo_value m)")
      case (Inl e)
      from exec_fails [OF Inl None] rest assms(1) show ?thesis by simp
    next
      case (Inr a)
      then show ?thesis using that [of "fst a" "snd a"] by simp
    qed
    let ?m = "m\<lparr>mo_value := q', mo_place := (mo_place m)(t := Inside c s')\<rparr>"
    have st: "monitor_step start exec reply t m ?m" using p e by (rule monitor_step.executed)
    have "left s' q' < left s (mo_value m)" using exec_left [OF None e] .
    then have "(case mo_place ?m t of Inside c s \<Rightarrow> left s (mo_value ?m) | _ \<Rightarrow> 0)
        < (case mo_place m t of Inside c s \<Rightarrow> left s (mo_value m) | _ \<Rightarrow> 0)" using p by simp
    from less.hyps [OF this consistent_step [OF st less.prems(1)]] less.prems(2)
    obtain m' c' r where "(monitor_step start exec reply t)\<^sup>*\<^sup>* ?m m'" "mo_owner m' = None" "mo_log m' = mo_log m @ [(t, c', r)]"
      by auto
    with st show ?thesis by (meson converse_rtranclp_into_rtranclp)
  qed
qed

end

end
