(* ===== verification/Queue_Lock.thy ===== *)
theory Queue_Lock
  imports Metadata_Queue Monitor
begin

text \<open>
  The methods of \<^verbatim>\<open>MetadataQueue\<close> (\<^verbatim>\<open>src/metadata_queue.h\<close>) statement by
  statement, each under the lock guard of its first line: the operations of
  \<^verbatim>\<open>Metadata_Queue\<close>, which take a call as one step, are refined to them.
\<close>

section \<open>Calls\<close>

datatype 'v queue_call =
    Push "'v metadata"
  | Pop input_id ts ts
  | Pop_All input_id ts ts
  | Drop_Id input_id

datatype 'v queue_reply =
    Pushed
  | Popped "'v metadata option"
  | Popped_All "'v metadata list" nat
  | Dropped nat

text \<open>A call as a whole.  \<^verbatim>\<open>pop_all\<close> returns the count and fills the output iterator.\<close>

definition queue_whole :: "cpp_impl \<Rightarrow> 'v queue_call \<Rightarrow> 'v mqueue \<Rightarrow> ('v queue_reply \<times> 'v mqueue) result" where
  "queue_whole im c q = (case c of
     Push v \<Rightarrow> Inr (Pushed, mq_push v q)
   | Pop i since until \<Rightarrow> bind_res (mq_pop im i since until q) (\<lambda>(v, q). Inr (Popped v, q))
   | Pop_All i since until \<Rightarrow> bind_res (pop_all im i since until [] q) (\<lambda>(vs, q). Inr (Popped_All vs (length vs), q))
   | Drop_Id i \<Rightarrow> Inr (let (n, q) = mq_drop_id i q in (Dropped n, q)))"

section \<open>Statements\<close>

text \<open>
  The variables of \<^verbatim>\<open>pop_impl\<close>: its arguments, and in \<^verbatim>\<open>pop_all\<close> what was moved to
  the output iterator and the count.
\<close>

record 'v pop_frame =
  pf_id :: input_id
  pf_since :: ts
  pf_until :: ts
  pf_all :: "('v metadata list \<times> nat) option"

text \<open>The place in front of a statement; \<open>Done\<close> is the end of the method.\<close>

datatype 'v queue_place =
    Push_Back "'v metadata"
  | Push_Heap
  | Old_Size input_id
  | Remove_If input_id nat
  | Size_Difference nat
  | Is_Empty "'v pop_frame"
  | Is_Past "'v pop_frame"
  | Pop_Heap "'v pop_frame"
  | Take_Back "'v pop_frame"
  | Pop_Back "'v pop_frame" "'v metadata"
  | Collides "'v pop_frame" "'v metadata"
  | Other_Pop_Heap "'v pop_frame" "'v metadata"
  | Other_Pop_Back "'v pop_frame" "'v metadata"
  | Done "'v queue_reply"

definition queue_start :: "'v queue_call \<Rightarrow> 'v queue_place" where
  "queue_start c = (case c of
     Push v \<Rightarrow> Push_Back v
   | Pop i since until \<Rightarrow> Is_Empty \<lparr>pf_id = i, pf_since = since, pf_until = until, pf_all = None\<rparr>
   | Pop_All i since until \<Rightarrow> Is_Empty \<lparr>pf_id = i, pf_since = since, pf_until = until, pf_all = Some ([], 0)\<rparr>
   | Drop_Id i \<Rightarrow> Old_Size i)"

definition queue_reply_at :: "'v queue_place \<Rightarrow> 'v queue_reply option" where
  "queue_reply_at s = (case s of Done r \<Rightarrow> Some r | _ \<Rightarrow> None)"

text \<open>Where \<^verbatim>\<open>pop_impl\<close> returns: to the end of \<^verbatim>\<open>pop\<close>, or into the loop of \<^verbatim>\<open>pop_all\<close>.\<close>

definition popped :: "'v pop_frame \<Rightarrow> 'v metadata option \<Rightarrow> 'v queue_place" where
  "popped f opt = (case pf_all f of
     None \<Rightarrow> Done (Popped opt)
   | Some (out, n) \<Rightarrow> (case opt of
       None \<Rightarrow> Done (Popped_All out n)
     | Some v \<Rightarrow> Is_Empty (f\<lparr>pf_all := Some (out @ [v], n + 1)\<rparr>)))"

definition wanted :: "'v pop_frame \<Rightarrow> 'v metadata \<Rightarrow> bool" where
  "wanted f v \<longleftrightarrow> md_pts v \<ge> pf_since f \<and> md_input_id v = pf_id f"

text \<open>
  \<^verbatim>\<open>pop_any_impl\<close> is the heap operation, the access to the last element and its removal.
  \<^verbatim>\<open>remove_if\<close> and \<^verbatim>\<open>erase\<close> are one statement here, because the elements in
  between are moved from and have no value.
\<close>

fun queue_exec :: "cpp_impl \<Rightarrow> 'v queue_place \<Rightarrow> 'v mqueue \<Rightarrow> ('v queue_place \<times> 'v mqueue) result" where
  "queue_exec im (Push_Back v) q = Inr (Push_Heap, q @ [v])"
| "queue_exec im Push_Heap q = Inr (Done Pushed, push_heap comparator q)"
| "queue_exec im (Old_Size i) q = Inr (Remove_If i (length q), q)"
| "queue_exec im (Remove_If i n) q = Inr (Size_Difference n, filter (\<lambda>t. md_input_id t \<noteq> i) q)"
| "queue_exec im (Size_Difference n) q = Inr (Done (Dropped (n - length q)), q)"
| "queue_exec im (Is_Empty f) q = Inr (if q = [] then popped f None else Is_Past f, q)"
| "queue_exec im (Is_Past f) q =
     (if q = [] then Inl Range_Violation
      else Inr (if md_pts (hd q) \<ge> pf_until f then popped f None else Pop_Heap f, q))"
| "queue_exec im (Pop_Heap f) q =
     (if q = [] then Inl Range_Violation else Inr (Take_Back f, pop_heap comparator q))"
| "queue_exec im (Take_Back f) q = (if q = [] then Inl Range_Violation else Inr (Pop_Back f (last q), q))"
| "queue_exec im (Pop_Back f v) q =
     (if q = [] then Inl Range_Violation else Inr (if wanted f v then Collides f v else Is_Empty f, butlast q))"
| "queue_exec im (Collides f v) q =
     (if q \<noteq> [] \<and> md_pts (hd q) = md_pts v then
        bind_res (cpp_assert im (md_input_id (hd q) \<noteq> md_input_id v)) (\<lambda>_. Inr (Other_Pop_Heap f v, q))
      else bind_res (cpp_assert im (md_pts v \<ge> pf_since f \<and> md_pts v < pf_until f \<and> md_input_id v = pf_id f)) (\<lambda>_.
        Inr (popped f (Some v), q)))"
| "queue_exec im (Other_Pop_Heap f v) q =
     (if q = [] then Inl Range_Violation else Inr (Other_Pop_Back f v, pop_heap comparator q))"
| "queue_exec im (Other_Pop_Back f v) q = (if q = [] then Inl Range_Violation else Inr (Collides f v, butlast q))"
| "queue_exec im (Done r) q = Inl Range_Violation"

section \<open>The statements make up the calls\<close>

text \<open>What is left of a call, from every place.\<close>

definition rest_popped :: "cpp_impl \<Rightarrow> 'v pop_frame \<Rightarrow> 'v metadata option \<Rightarrow> 'v mqueue \<Rightarrow> ('v queue_reply \<times> 'v mqueue) result" where
  "rest_popped im f opt q = (case pf_all f of
     None \<Rightarrow> Inr (Popped opt, q)
   | Some (out, n) \<Rightarrow> (case opt of
       None \<Rightarrow> Inr (Popped_All out n, q)
     | Some v \<Rightarrow> bind_res (pop_all im (pf_id f) (pf_since f) (pf_until f) (out @ [v]) q) (\<lambda>(vs, q).
         Inr (Popped_All vs (n + (length vs - length out)), q))))"

definition rest_pop :: "cpp_impl \<Rightarrow> 'v pop_frame \<Rightarrow> 'v mqueue \<Rightarrow> ('v queue_reply \<times> 'v mqueue) result" where
  "rest_pop im f q =
     bind_res (pop_impl im (pf_id f) (pf_since f) (pf_until f) q) (\<lambda>(opt, q). rest_popped im f opt q)"

definition rest_found :: "cpp_impl \<Rightarrow> 'v pop_frame \<Rightarrow> 'v metadata \<Rightarrow> 'v mqueue \<Rightarrow> ('v queue_reply \<times> 'v mqueue) result" where
  "rest_found im f v q =
     bind_res (drop_colliding im v q) (\<lambda>q.
     bind_res (cpp_assert im (md_pts v \<ge> pf_since f \<and> md_pts v < pf_until f \<and> md_input_id v = pf_id f)) (\<lambda>_.
     rest_popped im f (Some v) q))"

definition rest_value :: "cpp_impl \<Rightarrow> 'v pop_frame \<Rightarrow> 'v metadata \<Rightarrow> 'v mqueue \<Rightarrow> ('v queue_reply \<times> 'v mqueue) result" where
  "rest_value im f v q = (if wanted f v then rest_found im f v q else rest_pop im f q)"

fun queue_rest :: "cpp_impl \<Rightarrow> 'v queue_place \<Rightarrow> 'v mqueue \<Rightarrow> ('v queue_reply \<times> 'v mqueue) result" where
  "queue_rest im (Push_Back v) q = Inr (Pushed, push_heap comparator (q @ [v]))"
| "queue_rest im Push_Heap q = Inr (Pushed, push_heap comparator q)"
| "queue_rest im (Old_Size i) q = (let q' = filter (\<lambda>t. md_input_id t \<noteq> i) q in Inr (Dropped (length q - length q'), q'))"
| "queue_rest im (Remove_If i n) q = (let q' = filter (\<lambda>t. md_input_id t \<noteq> i) q in Inr (Dropped (n - length q'), q'))"
| "queue_rest im (Size_Difference n) q = Inr (Dropped (n - length q), q)"
| "queue_rest im (Is_Empty f) q = rest_pop im f q"
| "queue_rest im (Is_Past f) q = (if q = [] then Inl Range_Violation else rest_pop im f q)"
| "queue_rest im (Pop_Heap f) q =
     (if q = [] then Inl Range_Violation else rest_value im f (fst (pop_any_impl q)) (snd (pop_any_impl q)))"
| "queue_rest im (Take_Back f) q = (if q = [] then Inl Range_Violation else rest_value im f (last q) (butlast q))"
| "queue_rest im (Pop_Back f v) q = (if q = [] then Inl Range_Violation else rest_value im f v (butlast q))"
| "queue_rest im (Collides f v) q = rest_found im f v q"
| "queue_rest im (Other_Pop_Heap f v) q = (if q = [] then Inl Range_Violation else rest_found im f v (snd (pop_any_impl q)))"
| "queue_rest im (Other_Pop_Back f v) q = (if q = [] then Inl Range_Violation else rest_found im f v (butlast q))"
| "queue_rest im (Done r) q = Inr (r, q)"

lemma pop_heap_empty [simp]: "pop_heap comparator q = [] \<longleftrightarrow> q = []"
  using mset_eq_length [OF pop_heap_mset [of comparator q]] by auto

lemma pop_all_extends: "pop_all im i since until out q = Inr (vs, q') \<Longrightarrow> length out \<le> length vs"
proof (induction im i since until out q rule: pop_all.induct)
  case (1 im i since until out q)
  show ?case
  proof (cases "pop_impl im i since until q")
    case (Inr p)
    obtain opt q1 where p: "p = (opt, q1)" by (cases p)
    show ?thesis
    proof (cases opt)
      case None
      with 1(2) Inr p show ?thesis by (simp add: pop_all.simps [of im i since until out q])
    next
      case (Some v)
      with 1(2) Inr p have "pop_all im i since until (out @ [v]) q1 = Inr (vs, q')"
        by (simp add: pop_all.simps [of im i since until out q])
      from 1(1) [OF Inr [unfolded p] _ Some this] show ?thesis by simp
    qed
  qed (use 1(2) in \<open>simp add: pop_all.simps [of im i since until out q]\<close>)
qed

lemma rest_pop_all:
  "pf_all f = Some (out, n) \<Longrightarrow> rest_pop im f q =
   bind_res (pop_all im (pf_id f) (pf_since f) (pf_until f) out q) (\<lambda>(vs, q). Inr (Popped_All vs (n + (length vs - length out)), q))"
  by (auto simp: rest_pop_def rest_popped_def pop_all.simps [of im _ _ _ out q] split: sum.splits option.splits)

lemma rest_place_popped: "queue_rest im (popped f opt) q = rest_popped im f opt q"
proof (cases "pf_all f")
  case (Some on)
  obtain out n where on: "on = (out, n)" by (cases on)
  show ?thesis
  proof (cases opt)
    case (Some v)
    have "bind_res r (\<lambda>(vs, q). Inr (Popped_All vs (n + 1 + (length vs - length (out @ [v]))), q)) =
        bind_res r (\<lambda>(vs, q). Inr (Popped_All vs (n + (length vs - length out)), q))"
      if "r = pop_all im (pf_id f) (pf_since f) (pf_until f) (out @ [v]) q" for r
      using pop_all_extends [OF that [symmetric, THEN trans]] by (cases r) auto
    then show ?thesis using \<open>pf_all f = Some on\<close> on Some by (simp add: popped_def rest_popped_def rest_pop_all)
  qed (use \<open>pf_all f = Some on\<close> on in \<open>simp add: popped_def rest_popped_def\<close>)
qed (simp add: popped_def rest_popped_def)

lemma queue_start_rest: "queue_rest im (queue_start c) q = queue_whole im c q"
proof (cases c)
  case (Pop_All i since until)
  let ?f = "\<lparr>pf_id = i, pf_since = since, pf_until = until, pf_all = Some ([], 0)\<rparr>"
  have "queue_rest im (queue_start c) q = rest_pop im ?f q" by (simp add: Pop_All queue_start_def)
  also have "\<dots> = queue_whole im c q" by (subst rest_pop_all [of ?f "[]" 0]) (simp_all add: Pop_All queue_whole_def)
  finally show ?thesis .
qed (auto simp: queue_start_def queue_whole_def mq_push_def mq_drop_id_def mq_pop_def Let_def rest_pop_def rest_popped_def)

lemma queue_exec_rest: "queue_exec im s q = Inr (s', q') \<Longrightarrow> queue_rest im s' q' = queue_rest im s q"
proof (cases s)
  case (Is_Empty f)
  assume "queue_exec im s q = Inr (s', q')"
  with Is_Empty show ?thesis
    by (auto simp: rest_place_popped rest_pop_def pop_impl.simps [of im _ _ _ "[]"] split: if_splits)
next
  case (Is_Past f)
  assume "queue_exec im s q = Inr (s', q')"
  with Is_Past show ?thesis
    by (auto simp: rest_place_popped rest_pop_def rest_value_def rest_found_def wanted_def Let_def bind_res_assoc
      pop_impl.simps [of im _ _ _ q] split: if_splits)
next
  case (Collides f v)
  assume "queue_exec im s q = Inr (s', q')"
  with Collides show ?thesis
    by (auto simp: rest_place_popped rest_found_def bind_res_Inr_iff drop_colliding.simps [of im v q] cpp_assert_def split: if_splits)
qed (auto simp: pop_any_impl_def Let_def rest_value_def split: if_splits)

fun queue_left :: "'v queue_place \<Rightarrow> 'v mqueue \<Rightarrow> nat" where
  "queue_left (Push_Back v) q = 2"
| "queue_left Push_Heap q = 1"
| "queue_left (Old_Size i) q = 3"
| "queue_left (Remove_If i n) q = 2"
| "queue_left (Size_Difference n) q = 1"
| "queue_left (Is_Empty f) q = 10 * length q + 5"
| "queue_left (Is_Past f) q = 10 * length q + 4"
| "queue_left (Pop_Heap f) q = 10 * length q + 3"
| "queue_left (Take_Back f) q = 10 * length q + 2"
| "queue_left (Pop_Back f v) q = 10 * length q + 1"
| "queue_left (Collides f v) q = 10 * length q + 8"
| "queue_left (Other_Pop_Heap f v) q = 10 * length q + 7"
| "queue_left (Other_Pop_Back f v) q = 10 * length q + 6"
| "queue_left (Done r) q = 0"

lemma left_popped: "queue_left (popped f opt) q \<le> 10 * length q + 5"
  by (simp add: popped_def split: option.splits prod.splits)

lemma length_pop_heap [simp]: "length (pop_heap comparator q) = length q"
  using mset_eq_length [OF pop_heap_mset [of comparator q]] by (cases "q = []") auto

lemma queue_exec_left: "queue_exec im s q = Inr (s', q') \<Longrightarrow> queue_left s' q' < queue_left s q"
proof (cases s)
  case (Is_Empty f)
  assume "queue_exec im s q = Inr (s', q')"
  with Is_Empty left_popped [of f None "[]"] show ?thesis by (auto simp: popped_def split: if_splits option.splits)
next
  case (Is_Past f)
  assume "queue_exec im s q = Inr (s', q')"
  with Is_Past show ?thesis by (auto simp: popped_def split: if_splits option.splits)
next
  case (Pop_Back f v)
  assume "queue_exec im s q = Inr (s', q')"
  with Pop_Back show ?thesis by (cases q) (auto split: if_splits)
next
  case (Other_Pop_Back f v)
  assume "queue_exec im s q = Inr (s', q')"
  with Other_Pop_Back show ?thesis by (cases q) (auto split: if_splits)
next
  case (Collides f v)
  assume "queue_exec im s q = Inr (s', q')"
  with Collides left_popped [of f "Some v" q] show ?thesis
    by (auto simp: bind_res_Inr_iff split: if_splits)
qed (auto split: if_splits)

text \<open>A statement that cannot be executed is one of a call that fails.\<close>

lemma queue_exec_fails: "queue_exec im s q = Inl e \<Longrightarrow> queue_reply_at s = None \<Longrightarrow> \<exists>e'. queue_rest im s q = Inl e'"
  by (cases s) (auto simp: queue_reply_at_def rest_found_def bind_res_Inl_iff drop_colliding.simps [of im _ q] split: if_splits)

interpretation queue_lock: critical_section queue_start "queue_exec im" queue_reply_at "queue_rest im" "queue_whole im" queue_left
  for im :: cpp_impl
proof
  show "queue_reply_at s = Some r \<Longrightarrow> queue_rest im s q = Inr (r, q)" for s r q
    by (cases s) (auto simp: queue_reply_at_def)
qed (use queue_start_rest queue_exec_rest queue_exec_fails queue_exec_left in blast)+

section \<open>Many threads\<close>

type_synonym 'v queue_monitor = "('v queue_call, 'v queue_place, 'v queue_reply, 'v mqueue) monitor"

abbreviation queue_step :: "cpp_impl \<Rightarrow> nat \<Rightarrow> 'v queue_monitor \<Rightarrow> 'v queue_monitor \<Rightarrow> bool" where
  "queue_step im \<equiv> monitor_step queue_start (queue_exec im) queue_reply_at"

abbreviation queue_steps :: "cpp_impl \<Rightarrow> 'v queue_monitor \<Rightarrow> 'v queue_monitor \<Rightarrow> bool" where
  "queue_steps im \<equiv> monitor_steps queue_start (queue_exec im) queue_reply_at"

text \<open>
  What does not take the mutex: the constructors, which have no other thread yet, and copying from
  and into a queue, which may have.  A new queue gets a new mutex.
\<close>

definition reserved_queue :: "nat \<Rightarrow> 'v queue_monitor" where
  "reserved_queue n = new_monitor []"

definition queue_of_list :: "'v metadata list \<Rightarrow> 'v queue_monitor" where
  "queue_of_list xs = new_monitor (mq_from xs)"

definition copy_queue :: "'v queue_monitor \<Rightarrow> 'v queue_monitor" where
  "copy_queue other = new_monitor (mo_value other)"

definition assign_queue :: "'v queue_monitor \<Rightarrow> 'v queue_monitor \<Rightarrow> 'v queue_monitor" where
  "assign_queue self other = self\<lparr>mo_value := mo_value other\<rparr>"

lemma queue_whole_heap:
  assumes "queue_whole im c q = Inr (r, q')" and "\<not> (\<exists>i. c = Drop_Id i)" and "heap_queue q"
  shows "heap_queue q'"
  using assms by (cases c) (auto simp: queue_whole_def mq_push_def mq_pop_def bind_res_Inr_iff mq.push_heap_heap
    dest: pop_impl_spec [OF assms(3)] pop_all_spec [OF assms(3)])

lemma replay_heap:
  "replay (queue_whole im) calls q = Some q' \<Longrightarrow> \<forall>(t, c, r) \<in> set calls. \<not> (\<exists>i. c = Drop_Id i) \<Longrightarrow> heap_queue q \<Longrightarrow> heap_queue q'"
proof (induction calls arbitrary: q)
  case (Cons x calls)
  obtain t c r where x: "x = (t, c, r)" by (cases x)
  with Cons.prems(1) obtain q1 where w: "queue_whole im c q = Inr (r, q1)" and "replay (queue_whole im) calls q1 = Some q'"
    by (auto split: sum.splits if_splits)
  with Cons queue_whole_heap [OF w] x show ?case by auto
qed simp


text \<open>
  C7: In a build without assertions the thread that has the mutex gets to the end of its call
  and releases the mutex by its own statements alone, from every reachable state.
\<close>

theorem queue_lock_is_released:
  assumes "\<not> asserts_on im" and "queue_steps im (new_monitor q0) m" and "mo_owner m = Some t"
  shows "\<exists>m' c r. (queue_step im t)\<^sup>*\<^sup>* m m' \<and> mo_owner m' = None \<and> mo_log m' = mo_log m @ [(t, c, r)]"
proof (rule queue_lock.owner_releases [OF _ queue_lock.consistent_steps [OF assms(2) queue_lock.consistent_new] assms(3)])
  show "queue_whole im c q \<noteq> Inl e" for c and q :: "'a mqueue" and e
    by (cases c) (auto simp: queue_whole_def mq_pop_def bind_res_Inl_iff pop_impl_release [OF assms(1)] pop_all_release [OF assms(1)])
qed

text \<open>
  As long as no thread drops the entries of an input the vector of the queue is a heap whenever
  the mutex is free, whatever the threads do.
\<close>

theorem unlocked_queue_is_heap:
  assumes "queue_steps im (queue_of_list xs) m" and "mo_owner m = None"
    and "\<forall>(t, c, r) \<in> set (mo_log m). \<not> (\<exists>i. c = Drop_Id i)"
  shows "heap_queue (mo_value m)"
proof -
  have h: "heap_queue (mq_from xs)" by (simp add: mq_from_def mq.make_heap_heap)
  show ?thesis
    using queue_lock.calls_linearize [OF assms(1) [unfolded queue_of_list_def]] replay_heap [OF _ assms(3) h] assms(2) by blast
qed

section \<open>A run of two threads\<close>

text \<open>Thread 0 pushes while thread 1 waits for the mutex.\<close>

definition sample_waiting :: "sei_payload queue_monitor" where
  "sample_waiting = \<lparr>mo_value = [sample_entry 1 5 0], mo_owner = Some 0,
     mo_place = (\<lambda>_. Outside)(0 := Inside (Push (sample_entry 1 2 0)) (Push_Back (sample_entry 1 2 0)), 1 := Waiting (Pop 1 0 9)),
     mo_log = []\<rparr>"

definition sample_pushing :: "sei_payload queue_monitor" where
  "sample_pushing = sample_waiting\<lparr>mo_value := [sample_entry 1 5 0, sample_entry 1 2 0],
     mo_place := (mo_place sample_waiting)(0 := Inside (Push (sample_entry 1 2 0)) Push_Heap)\<rparr>"

lemma sample_waiting_reached: "queue_steps im (new_monitor (mq_from [sample_entry 1 5 0])) sample_waiting"
proof -
  let ?c = "Push (sample_entry 1 2 0)" and ?d = "Pop 1 0 9 :: sei_payload queue_call"
  let ?m0 = "new_monitor (mq_from [sample_entry 1 5 0]) :: sei_payload queue_monitor"
  let ?m1 = "?m0\<lparr>mo_place := (mo_place ?m0)(0 := Waiting ?c)\<rparr>"
  let ?m2 = "?m1\<lparr>mo_owner := Some 0, mo_place := (mo_place ?m1)(0 := Inside ?c (queue_start ?c))\<rparr>"
  let ?m3 = "?m2\<lparr>mo_place := (mo_place ?m2)(1 := Waiting ?d)\<rparr>"
  have "queue_step im 0 ?m0 ?m1" by (rule monitor_step.called) (simp add: new_monitor_def)
  moreover have "queue_step im 0 ?m1 ?m2" by (rule monitor_step.acquired) (simp_all add: new_monitor_def)
  moreover have "queue_step im 1 ?m2 ?m3" by (rule monitor_step.called) (simp add: new_monitor_def)
  ultimately have "queue_steps im ?m0 ?m3" by (intro converse_rtranclp_into_rtranclp [of _ ?m0 ?m1]
    converse_rtranclp_into_rtranclp [of _ ?m1 ?m2] converse_rtranclp_into_rtranclp [of _ ?m2 ?m3] rtranclp.rtrancl_refl) blast+
  moreover have "mq_from [sample_entry 1 5 0] = [sample_entry 1 5 0]" by code_simp
  ultimately show ?thesis by (simp add: sample_waiting_def new_monitor_def queue_start_def)
qed

lemma sample_pushing_reached: "queue_steps im (new_monitor (mq_from [sample_entry 1 5 0])) sample_pushing"
proof -
  have "queue_step im 0 sample_waiting (sample_waiting\<lparr>mo_value := [sample_entry 1 5 0, sample_entry 1 2 0],
     mo_place := (mo_place sample_waiting)(0 := Inside (Push (sample_entry 1 2 0)) Push_Heap)\<rparr>)"
    by (rule monitor_step.executed [where s = "Push_Back (sample_entry 1 2 0)"]) (simp_all add: sample_waiting_def)
  then have "queue_step im 0 sample_waiting sample_pushing" by (simp add: sample_pushing_def)
  then show ?thesis by (intro rtranclp.rtrancl_into_rtrancl [OF sample_waiting_reached]) blast
qed

text \<open>
  Copying a queue does not take the mutex: while another thread pushes, the copy can be a vector
  that is no heap, on which a pop misses an entry that is there.
\<close>

theorem unlocked_copy_is_no_heap:
  "\<exists>m. queue_steps release_impl (queue_of_list [sample_entry 1 5 0]) m \<and> mo_owner m = Some 0 \<and>
     (let q = mo_value (copy_queue m) in
      \<not> heap_queue q \<and> sample_entry 1 2 0 \<in> set q \<and> mq_pop release_impl 1 0 3 q = Inr (None, q))"
proof (intro exI conjI)
  show "queue_steps release_impl (queue_of_list [sample_entry 1 5 0]) sample_pushing"
    unfolding queue_of_list_def by (rule sample_pushing_reached)
  show "mo_owner sample_pushing = Some 0" by (simp add: sample_pushing_def sample_waiting_def)
  have v: "mo_value (copy_queue sample_pushing) = [sample_entry 1 5 0, sample_entry 1 2 0]"
    by (simp add: sample_pushing_def copy_queue_def new_monitor_def)
  show "let q = mo_value (copy_queue sample_pushing) in
      \<not> heap_queue q \<and> sample_entry 1 2 0 \<in> set q \<and> mq_pop release_impl 1 0 3 q = Inr (None, q)"
    unfolding v by code_simp
qed


theorem queue_lock_is_released_witness:
  "\<exists>m'. queue_steps release_impl sample_waiting m' \<and> mo_owner m' = None \<and> length (mo_log m') = 1"
proof -
  have "\<not> asserts_on release_impl" "mo_owner sample_waiting = Some 0" by (simp_all add: release_impl_def sample_waiting_def)
  from queue_lock_is_released [OF this(1) sample_waiting_reached this(2)]
  obtain m' c r where m: "(queue_step release_impl 0)\<^sup>*\<^sup>* sample_waiting m'" "mo_owner m' = None"
    "mo_log m' = mo_log sample_waiting @ [(0, c, r)]" by blast
  have "queue_steps release_impl sample_waiting m'" using m(1) by (rule rtranclp_mono [THEN predicate2D, rotated]) blast
  with m(2,3) show ?thesis by (auto simp: sample_waiting_def)
qed

theorem unlocked_queue_is_heap_witness:
  "\<exists>m. queue_steps release_impl sample_waiting m \<and> mo_value m = [sample_entry 1 2 0, sample_entry 1 5 0] \<and> heap_queue (mo_value m)"
proof -
  let ?m1 = "sample_pushing\<lparr>mo_value := [sample_entry 1 2 0, sample_entry 1 5 0],
     mo_place := (mo_place sample_pushing)(0 := Inside (Push (sample_entry 1 2 0)) (Done Pushed))\<rparr>"
  let ?m2 = "?m1\<lparr>mo_owner := None, mo_place := (mo_place ?m1)(0 := Outside), mo_log := mo_log ?m1 @ [(0, Push (sample_entry 1 2 0), Pushed)]\<rparr>"
  have h: "push_heap comparator [sample_entry 1 5 0, sample_entry 1 2 0] = [sample_entry 1 2 0, sample_entry 1 5 0]" by code_simp
  have "queue_step release_impl 0 sample_waiting sample_pushing"
    unfolding sample_pushing_def by (rule monitor_step.executed [where s = "Push_Back (sample_entry 1 2 0)"]) (simp_all add: sample_waiting_def)
  moreover have "queue_step release_impl 0 sample_pushing ?m1"
    by (rule monitor_step.executed [where s = Push_Heap]) (simp_all add: sample_pushing_def h)
  moreover have "queue_step release_impl 0 ?m1 ?m2"
    by (rule monitor_step.released [where s = "Done Pushed"]) (simp_all add: queue_reply_at_def)
  ultimately have s: "queue_steps release_impl sample_waiting ?m2"
    by (intro converse_rtranclp_into_rtranclp [of _ sample_waiting sample_pushing]
      converse_rtranclp_into_rtranclp [of _ sample_pushing ?m1] converse_rtranclp_into_rtranclp [of _ ?m1 ?m2] rtranclp.rtrancl_refl) blast+
  then have "queue_steps release_impl (queue_of_list [sample_entry 1 5 0]) ?m2"
    unfolding queue_of_list_def by (rule rtranclp_trans [OF sample_waiting_reached])
  from unlocked_queue_is_heap [OF this] s show ?thesis
    by (intro exI [of _ ?m2]) (auto simp: sample_pushing_def sample_waiting_def)
qed

end
