(* ===== verification/Contexts.thy ===== *)
theory Contexts
  imports Remux
begin

text \<open>
  Ownership of FFmpeg's format contexts: the handles of \<^verbatim>\<open>src/io/io_handle.h\<close>,
  \<^verbatim>\<open>source_handle\<close> and \<^verbatim>\<open>sink_handle\<close> with their owning pointer
  and the deleters of \<^verbatim>\<open>src/ffmpeg.cpp\<close>.  \<^verbatim>\<open>Handles\<close> has what opening
  does to a stream; here it is who frees what, on every path.  FFmpeg is the record
  \<open>format_api\<close>: a context is a value of type \<open>'c\<close>, the world is \<open>'w\<close>.
\<close>

record ('c, 'w) format_api =
  fa_alloc_context :: "'w \<Rightarrow> 'c option \<times> 'w"
  fa_input_format :: "string \<Rightarrow> bool"
  fa_open_input :: "'c \<Rightarrow> string \<Rightarrow> string option \<Rightarrow> 'w \<Rightarrow> int \<times> 'w"
  fa_find_stream_info :: "'c \<Rightarrow> 'w \<Rightarrow> int \<times> 'w"
  fa_alloc_output :: "string option \<Rightarrow> string \<Rightarrow> 'w \<Rightarrow> int \<times> 'c \<times> 'w"
  fa_no_file :: "'c \<Rightarrow> 'w \<Rightarrow> bool"
  fa_avio_open :: "'c \<Rightarrow> string \<Rightarrow> 'w \<Rightarrow> int \<times> 'w"
  fa_write_header :: "'c \<Rightarrow> 'w \<Rightarrow> int \<times> 'w"
  fa_write_trailer :: "'c \<Rightarrow> 'w \<Rightarrow> 'w"
  fa_close_input :: "'c option \<Rightarrow> 'w \<Rightarrow> 'c option \<times> 'w"
  fa_free_context :: "'c option \<Rightarrow> 'w \<Rightarrow> 'w"
  fa_strerror :: "int \<Rightarrow> string"

section \<open>Owning pointers\<close>

text \<open>\<^verbatim>\<open>avformat_close_input\<close> takes the pointer by reference.\<close>

definition format_context_delete :: "('c, 'w) format_api \<Rightarrow> 'c \<Rightarrow> 'w \<Rightarrow> 'w" where
  "format_context_delete api c w = (let (c, w) = fa_close_input api (Some c) w in fa_free_context api c w)"

text \<open>A \<^verbatim>\<open>std::unique_ptr\<close> calls its deleter only when it is not null.\<close>

definition context_ptr_reset :: "('c, 'w) format_api \<Rightarrow> 'c option \<Rightarrow> 'c option \<Rightarrow> 'w \<Rightarrow> 'c option \<times> 'w" where
  "context_ptr_reset api new old w = (new, case old of None \<Rightarrow> w | Some c \<Rightarrow> format_context_delete api c w)"

definition null_protect :: "'a option \<Rightarrow> string \<Rightarrow> 'a result" where
  "null_protect ptr msg = (case ptr of Some x \<Rightarrow> Inr x | None \<Rightarrow> Inl (Runtime_Error msg))"

section \<open>Handles\<close>

record 'c io_handle =
  ih_name :: string
  ih_url :: string
  ih_ctx :: "'c option"

record 'c sink_handle = "'c io_handle" +
  sh_should_write_trailer :: bool

definition new_source :: "string \<Rightarrow> string \<Rightarrow> 'c io_handle" where
  "new_source name url = \<lparr>ih_name = name, ih_url = url, ih_ctx = None\<rparr>"

definition new_sink :: "string \<Rightarrow> string \<Rightarrow> 'c sink_handle" where
  "new_sink name url = \<lparr>ih_name = name, ih_url = url, ih_ctx = None, sh_should_write_trailer = False\<rparr>"

definition io_handle_destroy :: "('c, 'w) format_api \<Rightarrow> ('c, 'z) io_handle_scheme \<Rightarrow> 'w \<Rightarrow> 'w" where
  "io_handle_destroy api h w = snd (context_ptr_reset api None (ih_ctx h) w)"

text \<open>The new handle and what is left in the old one: the flag of a sink is copied.\<close>

definition sink_handle_move :: "'c sink_handle \<Rightarrow> 'c sink_handle \<times> 'c sink_handle" where
  "sink_handle_move other = (other, other\<lparr>ih_name := [], ih_url := [], ih_ctx := None\<rparr>)"

text \<open>The sink's own destructor comes before that of its base.\<close>

definition sink_handle_destroy :: "cpp_impl \<Rightarrow> ('c, 'w) format_api \<Rightarrow> 'c sink_handle \<Rightarrow> 'w \<Rightarrow> 'w result" where
  "sink_handle_destroy im api h w =
     (if sh_should_write_trailer h then
        bind_res (cpp_assert im (ih_ctx h \<noteq> None)) (\<lambda>_.
        case ih_ctx h of
          None \<Rightarrow> Inl Range_Violation
        | Some c \<Rightarrow> Inr (io_handle_destroy api h (fa_write_trailer api c w)))
      else Inr (io_handle_destroy api h w))"

section \<open>Opening\<close>

text \<open>The context is a plain pointer until the last line.\<close>

definition source_handle_open ::
  "('c, 'w) format_api \<Rightarrow> string option \<Rightarrow> 'c io_handle \<Rightarrow> 'w \<Rightarrow> unit result \<times> 'c io_handle \<times> 'w" where
  "source_handle_open api format_name h w =
     (case fa_alloc_context api w of
        (None, w) \<Rightarrow> (Inl (Runtime_Error ''Could not allocate memory for format context''), h, w)
      | (Some ctx, w) \<Rightarrow>
          if (case format_name of Some n \<Rightarrow> \<not> fa_input_format api n | None \<Rightarrow> False)
          then (Inl (Runtime_Error (''Unknown input format '' @ the format_name)), h, w)
          else let (e, w) = fa_open_input api ctx (ih_url h) format_name w in
          if e < 0 then (Inl (ff_runtime_error (fa_strerror api) ''Could not open source stream'' e), h, w)
          else let (e, w) = fa_find_stream_info api ctx w in
          if e < 0 then (Inl (ff_runtime_error (fa_strerror api) ''Could not find stream info'' e), h, w)
          else let (ptr, w) = context_ptr_reset api (Some ctx) (ih_ctx h) w in (Inr (), h\<lparr>ih_ctx := ptr\<rparr>, w))"

definition sink_handle_open ::
  "('c, 'w) format_api \<Rightarrow> string option \<Rightarrow> 'c sink_handle \<Rightarrow> 'w \<Rightarrow> unit result \<times> 'c sink_handle \<times> 'w" where
  "sink_handle_open api format_name h w =
     (let (e, ctx, w) = fa_alloc_output api format_name (ih_url h) w in
      if e < 0 then (Inl (ff_runtime_error (fa_strerror api) ''Could not open sink stream'' e), h, w)
      else let (e, w) = (if fa_no_file api ctx w then (0, w) else fa_avio_open api ctx (ih_url h) w) in
      if e < 0 then (Inl (ff_runtime_error (fa_strerror api) (''Could not open sink '' @ ih_url h) e), h, w)
      else let (ptr, w) = context_ptr_reset api (Some ctx) (ih_ctx h) w in (Inr (), h\<lparr>ih_ctx := ptr\<rparr>, w))"

definition sink_handle_start :: "('c, 'w) format_api \<Rightarrow> 'c \<Rightarrow> 'c sink_handle \<Rightarrow> 'w \<Rightarrow> unit result \<times> 'c sink_handle \<times> 'w" where
  "sink_handle_start api ctx h w = (let (e, w) = fa_write_header api ctx w in
     if e < 0 then (Inl (ff_runtime_error (fa_strerror api) ''Could not write header in sink'' e), h, w)
     else (Inr (), h\<lparr>sh_should_write_trailer := True\<rparr>, w))"

text \<open>
  A thread's use of its handles: the sink is made first and destroyed last.  \<open>prepare\<close> stands for
  the calls between opening and the header, \<open>remux\<close> for the loop behind it; both get the contexts.
\<close>

definition use_streams ::
  "cpp_impl \<Rightarrow> ('c, 'w) format_api \<Rightarrow> ('c \<Rightarrow> 'c \<Rightarrow> 'w \<Rightarrow> unit result \<times> 'w) \<Rightarrow> ('c \<Rightarrow> 'c \<Rightarrow> 'w \<Rightarrow> unit result \<times> 'w)
    \<Rightarrow> 'c io_handle \<Rightarrow> 'c sink_handle \<Rightarrow> 'w \<Rightarrow> unit result \<times> 'c sink_handle \<times> 'w" where
  "use_streams im api prepare remux source sink w = (case (ih_ctx source, ih_ctx sink) of
     (Some i, Some ou) \<Rightarrow> (case prepare i ou w of
         (Inl e, w) \<Rightarrow> (Inl e, sink, w)
       | (Inr _, w) \<Rightarrow> (case sink_handle_start api ou sink w of
           (Inl e, sink, w) \<Rightarrow> (Inl e, sink, w)
         | (Inr _, sink, w) \<Rightarrow> (let (r, w) = remux i ou w in (r, sink, w))))
   | _ \<Rightarrow> (Inl Range_Violation, sink, w))"

definition stream_thread ::
  "cpp_impl \<Rightarrow> ('c, 'w) format_api \<Rightarrow> ('c \<Rightarrow> 'c \<Rightarrow> 'w \<Rightarrow> unit result \<times> 'w) \<Rightarrow> ('c \<Rightarrow> 'c \<Rightarrow> 'w \<Rightarrow> unit result \<times> 'w)
    \<Rightarrow> string \<Rightarrow> string \<Rightarrow> string option \<Rightarrow> string \<Rightarrow> string option \<Rightarrow> 'w \<Rightarrow> (unit result \<times> 'w) result" where
  "stream_thread im api prepare remux name source_url source_format sink_url sink_format w =
     (let sink = new_sink name sink_url; source = new_source name source_url;
          (r, source, sink, w) = (case source_handle_open api source_format source w of
            (Inl e, source, w) \<Rightarrow> (Inl e, source, sink, w)
          | (Inr _, source, w) \<Rightarrow> (case sink_handle_open api sink_format sink w of
              (Inl e, sink, w) \<Rightarrow> (Inl e, source, sink, w)
            | (Inr _, sink, w) \<Rightarrow> (let (r, sink, w) = use_streams im api prepare remux source sink w in (r, source, sink, w))))
      in bind_res (sink_handle_destroy im api sink (io_handle_destroy api source w)) (\<lambda>w. Inr (r, w)))"

section \<open>What FFmpeg promises\<close>

text \<open>
  \<open>live\<close> are the contexts that are allocated.  A failing \<^verbatim>\<open>avformat_open_input\<close> frees
  the context it was given; closing frees the context and clears the pointer.
\<close>

definition format_api_ok :: "('c, 'w) format_api \<Rightarrow> ('w \<Rightarrow> 'c set) \<Rightarrow> bool" where
  "format_api_ok api live \<longleftrightarrow>
     (\<forall>w c w'. fa_alloc_context api w = (c, w') \<longrightarrow>
        (case c of None \<Rightarrow> live w' = live w | Some c \<Rightarrow> c \<notin> live w \<and> live w' = insert c (live w))) \<and>
     (\<forall>c u n w e w'. fa_open_input api c u n w = (e, w') \<longrightarrow> live w' = (if e < 0 then live w - {c} else live w)) \<and>
     (\<forall>c w e w'. fa_find_stream_info api c w = (e, w') \<longrightarrow> live w' = live w) \<and>
     (\<forall>n u w e c w'. fa_alloc_output api n u w = (e, c, w') \<longrightarrow>
        (if e < 0 then live w' = live w else c \<notin> live w \<and> live w' = insert c (live w))) \<and>
     (\<forall>c u w e w'. fa_avio_open api c u w = (e, w') \<longrightarrow> live w' = live w) \<and>
     (\<forall>c w e w'. fa_write_header api c w = (e, w') \<longrightarrow> live w' = live w) \<and>
     (\<forall>c w. live (fa_write_trailer api c w) = live w) \<and>
     (\<forall>c w. fst (fa_close_input api (Some c) w) = None \<and> live (snd (fa_close_input api (Some c) w)) = live w - {c}) \<and>
     (\<forall>w. live (fa_free_context api None w) = live w)"

lemma format_apiD:
  assumes "format_api_ok api live"
  shows "fa_alloc_context api w = (None, w1) \<Longrightarrow> live w1 = live w"
    and "fa_alloc_context api w = (Some c, w1) \<Longrightarrow> c \<notin> live w \<and> live w1 = insert c (live w)"
    and "fa_open_input api c u n w = (e, w1) \<Longrightarrow> live w1 = (if e < 0 then live w - {c} else live w)"
    and "fa_find_stream_info api c w = (e, w1) \<Longrightarrow> live w1 = live w"
    and "fa_alloc_output api n u w = (e, c, w1) \<Longrightarrow> e < 0 \<Longrightarrow> live w1 = live w"
    and "fa_alloc_output api n u w = (e, c, w1) \<Longrightarrow> \<not> e < 0 \<Longrightarrow> c \<notin> live w \<and> live w1 = insert c (live w)"
    and "fa_avio_open api c u w = (e, w1) \<Longrightarrow> live w1 = live w"
    and "fa_write_header api c w = (e, w1) \<Longrightarrow> live w1 = live w"
    and "live (fa_write_trailer api c w) = live w"
    and "live (format_context_delete api c w) = live w - {c}"
proof -
  note ok = assms [unfolded format_api_ok_def]
  note 1 = ok [THEN conjunct1] and rest = ok [THEN conjunct2]
  note 2 = rest [THEN conjunct1] and rest = rest [THEN conjunct2]
  note 3 = rest [THEN conjunct1] and rest = rest [THEN conjunct2]
  note 4 = rest [THEN conjunct1] and rest = rest [THEN conjunct2]
  note 5 = rest [THEN conjunct1] and rest = rest [THEN conjunct2]
  note 6 = rest [THEN conjunct1] and rest = rest [THEN conjunct2]
  note 7 = rest [THEN conjunct1] and rest = rest [THEN conjunct2]
  note 8 = rest [THEN conjunct1] and 9 = rest [THEN conjunct2]
  show "live w1 = live w" if "fa_alloc_context api w = (None, w1)"
    using 1 [rule_format, OF that] by simp
  show "c \<notin> live w \<and> live w1 = insert c (live w)" if "fa_alloc_context api w = (Some c, w1)"
    using 1 [rule_format, OF that] by simp
  show "live w1 = (if e < 0 then live w - {c} else live w)" if "fa_open_input api c u n w = (e, w1)"
    using 2 [rule_format, OF that] .
  show "live w1 = live w" if "fa_find_stream_info api c w = (e, w1)" using 3 [rule_format, OF that] .
  show "live w1 = live w" if "fa_alloc_output api n u w = (e, c, w1)" "e < 0" using 4 [rule_format, OF that(1)] that(2) by simp
  show "c \<notin> live w \<and> live w1 = insert c (live w)" if "fa_alloc_output api n u w = (e, c, w1)" "\<not> e < 0"
    using 4 [rule_format, OF that(1)] that(2) by simp
  show "live w1 = live w" if "fa_avio_open api c u w = (e, w1)" using 5 [rule_format, OF that] .
  show "live w1 = live w" if "fa_write_header api c w = (e, w1)" using 6 [rule_format, OF that] .
  show "live (fa_write_trailer api c w) = live w" using 7 by simp
  show "live (format_context_delete api c w) = live w - {c}"
  proof (cases "fa_close_input api (Some c) w")
    case (Pair p w')
    have "fst (fa_close_input api (Some c) w) = None" "live (snd (fa_close_input api (Some c) w)) = live w - {c}"
      "live (fa_free_context api None w') = live w'" using 8 9 by simp_all
    with Pair show ?thesis by (simp add: format_context_delete_def)
  qed
qed

section \<open>Who frees what\<close>

text \<open>The paths on which opening ends while a context is held by a plain pointer only.\<close>

definition source_open_leaks :: "('c, 'w) format_api \<Rightarrow> string \<Rightarrow> string option \<Rightarrow> 'w \<Rightarrow> bool" where
  "source_open_leaks api url format_name w = (case fa_alloc_context api w of
     (None, w) \<Rightarrow> False
   | (Some c, w) \<Rightarrow> (case format_name of Some n \<Rightarrow> \<not> fa_input_format api n | None \<Rightarrow> False) \<or>
       (let (e, w) = fa_open_input api c url format_name w in e \<ge> 0 \<and> fst (fa_find_stream_info api c w) < 0))"

definition sink_open_leaks :: "('c, 'w) format_api \<Rightarrow> string \<Rightarrow> string option \<Rightarrow> 'w \<Rightarrow> bool" where
  "sink_open_leaks api url format_name w = (let (e, c, w) = fa_alloc_output api format_name url w in
     e \<ge> 0 \<and> \<not> fa_no_file api c w \<and> fst (fa_avio_open api c url w) < 0)"

text \<open>What a thread's handles own, and one context more if it was lost.\<close>

definition owned :: "('c, 'z) io_handle_scheme \<Rightarrow> 'c set" where
  "owned h = set_option (ih_ctx h)"

text \<open>The contexts of \<open>before\<close> are there, besides those of the handle and those that were lost.\<close>

definition opened :: "'c set \<Rightarrow> 'c set \<Rightarrow> 'c set \<Rightarrow> bool \<Rightarrow> bool" where
  "opened before own now leak \<longleftrightarrow> (\<exists>lost. now = before \<union> own \<union> lost \<and> (own \<union> lost) \<inter> before = {} \<and> own \<inter> lost = {} \<and>
     finite lost \<and> card lost = (if leak then 1 else 0))"

lemma openedI:
  "opened before {} before False"
  "c \<notin> before \<Longrightarrow> opened before {} (insert c before) True"
  "c \<notin> before \<Longrightarrow> opened before {c} (insert c before) False"
  "c \<notin> before \<Longrightarrow> opened before {} (insert c before - {c}) False"
proof -
  show "opened before {} before False" unfolding opened_def by (intro exI [of _ "{}"]) simp
  show "c \<notin> before \<Longrightarrow> opened before {} (insert c before) True" unfolding opened_def by (intro exI [of _ "{c}"]) simp
  show "c \<notin> before \<Longrightarrow> opened before {c} (insert c before) False" unfolding opened_def by (intro exI [of _ "{}"]) simp
  show "c \<notin> before \<Longrightarrow> opened before {} (insert c before - {c}) False" unfolding opened_def by (intro exI [of _ "{}"]) simp
qed

lemma source_open_contexts:
  assumes "format_api_ok api live" and "source_handle_open api fmt h w = (r, h', w')" and "ih_ctx h = None"
  shows "opened (live w) (owned h') (live w') (source_open_leaks api (ih_url h) fmt w)"
    and "r = Inr () \<longleftrightarrow> ih_ctx h' \<noteq> None"
proof -
  note d = format_apiD [OF assms(1)] and defs = source_handle_open_def source_open_leaks_def owned_def Let_def
  have "opened (live w) (owned h') (live w') (source_open_leaks api (ih_url h) fmt w) \<and> (r = Inr () \<longleftrightarrow> ih_ctx h' \<noteq> None)"
  proof (cases "fa_alloc_context api w")
    case (Pair ctx w1)
    show ?thesis
    proof (cases ctx)
      case None
      have "live w1 = live w" using d(1) Pair None by simp
      moreover have "r \<noteq> Inr ()" "h' = h" "w' = w1" using assms(2) Pair None by (auto simp: source_handle_open_def)
      ultimately show ?thesis using Pair None assms(3) by (simp add: source_open_leaks_def owned_def openedI)
    next
      case (Some c)
      note a = d(2) [OF Pair [unfolded Some]]
      let ?unknown = "case fmt of Some n \<Rightarrow> \<not> fa_input_format api n | None \<Rightarrow> False"
      obtain e1 w2 where o: "fa_open_input api c (ih_url h) fmt w1 = (e1, w2)" by fastforce
      obtain e2 w3 where i: "fa_find_stream_info api c w2 = (e2, w3)" by fastforce
      note o' = d(3) [OF o] and i' = d(4) [OF i]
      have leak: "source_open_leaks api (ih_url h) fmt w \<longleftrightarrow> ?unknown \<or> \<not> e1 < 0 \<and> e2 < 0"
        by (simp add: source_open_leaks_def Pair Some o i not_less)
      consider "?unknown" | "\<not> ?unknown" "e1 < 0" | "\<not> ?unknown" "\<not> e1 < 0" "e2 < 0" | "\<not> ?unknown" "\<not> e1 < 0" "\<not> e2 < 0"
        by blast
      then show ?thesis
      proof cases
        case 1
        then have "r \<noteq> Inr ()" "h' = h" "w' = w1" using assms(2) Pair Some by (auto simp: source_handle_open_def)
        with 1 a assms(3) show ?thesis unfolding leak owned_def by (simp add: openedI)
      next
        case 2
        then have "r \<noteq> Inr ()" "h' = h" "w' = w2" using assms(2) Pair Some o by (auto simp: source_handle_open_def)
        with 2 a o' assms(3) show ?thesis unfolding leak owned_def using openedI(4) [of c "live w"] by simp
      next
        case 3
        then have "r \<noteq> Inr ()" "h' = h" "w' = w3" using assms(2) Pair Some o i by (auto simp: source_handle_open_def)
        with 3 a o' i' assms(3) show ?thesis unfolding leak owned_def by (simp add: openedI)
      next
        case 4
        then have "r = Inr ()" "h' = h\<lparr>ih_ctx := Some c\<rparr>" "w' = w3"
          using assms(2,3) Pair Some o i by (auto simp: source_handle_open_def context_ptr_reset_def)
        with 4 a o' i' show ?thesis unfolding leak owned_def by (simp add: openedI)
      qed
    qed
  qed
  then show "opened (live w) (owned h') (live w') (source_open_leaks api (ih_url h) fmt w)"
    and "r = Inr () \<longleftrightarrow> ih_ctx h' \<noteq> None" by simp_all
qed

lemma sink_open_contexts:
  assumes "format_api_ok api live" and "sink_handle_open api fmt h w = (r, h', w')" and "ih_ctx h = None"
  shows "opened (live w) (owned h') (live w') (sink_open_leaks api (ih_url h) fmt w)"
    and "r = Inr () \<longleftrightarrow> ih_ctx h' \<noteq> None" and "sh_should_write_trailer h' = sh_should_write_trailer h"
proof -
  note d = format_apiD [OF assms(1)]
  obtain e1 c w1 where a: "fa_alloc_output api fmt (ih_url h) w = (e1, c, w1)" by (metis prod_cases3)
  obtain e2 w2 where o: "(if fa_no_file api c w1 then (0, w1) else fa_avio_open api c (ih_url h) w1) = (e2, w2)" by fastforce
  have o': "live w2 = live w1" using o d(7) by (auto split: if_splits)
  have leak: "sink_open_leaks api (ih_url h) fmt w \<longleftrightarrow> \<not> e1 < 0 \<and> e2 < 0"
    using o by (auto simp: sink_open_leaks_def a split: if_splits)
  have "opened (live w) (owned h') (live w') (sink_open_leaks api (ih_url h) fmt w) \<and> (r = Inr () \<longleftrightarrow> ih_ctx h' \<noteq> None) \<and>
    sh_should_write_trailer h' = sh_should_write_trailer h"
  proof (cases "e1 < 0")
    case True
    then have "r \<noteq> Inr ()" "h' = h" "w' = w1" using assms(2) a by (auto simp: sink_handle_open_def)
    with True d(5) [OF a True] assms(3) show ?thesis unfolding leak owned_def by (simp add: openedI)
  next
    case e1: False
    note a' = d(6) [OF a e1]
    show ?thesis
    proof (cases "e2 < 0")
      case True
      then have "r \<noteq> Inr ()" "h' = h" "w' = w2" using assms(2) a o e1 by (auto simp: sink_handle_open_def)
      with True e1 a' o' assms(3) show ?thesis unfolding leak owned_def by (simp add: openedI)
    next
      case False
      then have "r = Inr ()" "h' = h\<lparr>ih_ctx := Some c\<rparr>" "w' = w2"
        using assms(2,3) a o e1 by (auto simp: sink_handle_open_def context_ptr_reset_def)
      with False e1 a' o' show ?thesis unfolding leak owned_def by (simp add: openedI)
    qed
  qed
  then show "opened (live w) (owned h') (live w') (sink_open_leaks api (ih_url h) fmt w)"
    and "r = Inr () \<longleftrightarrow> ih_ctx h' \<noteq> None" and "sh_should_write_trailer h' = sh_should_write_trailer h" by simp_all
qed

lemma open_keeps_url [simp]: "source_handle_open api fmt h w = (r, h', w') \<Longrightarrow> ih_url h' = ih_url h"
  by (auto simp: source_handle_open_def Let_def split: prod.splits option.splits if_splits)

lemma destroy_contexts:
  assumes "format_api_ok api live"
  shows "live (io_handle_destroy api h w) = live w - owned h"
  by (auto simp: io_handle_destroy_def context_ptr_reset_def owned_def format_apiD(10) [OF assms] split: option.splits)

text \<open>The calls of a thread between opening and destruction keep the contexts.\<close>

definition keeps_contexts :: "('w \<Rightarrow> 'c set) \<Rightarrow> ('c \<Rightarrow> 'c \<Rightarrow> 'w \<Rightarrow> unit result \<times> 'w) \<Rightarrow> bool" where
  "keeps_contexts live f \<longleftrightarrow> (\<forall>i ou w. live (snd (f i ou w)) = live w)"

lemma use_streams_contexts:
  assumes "format_api_ok api live" and "keeps_contexts live prepare" and "keeps_contexts live remux"
    and "use_streams im api prepare remux source sink w = (r, sink', w')"
  shows "live w' = live w" and "ih_ctx sink' = ih_ctx sink"
    and "sh_should_write_trailer sink' \<longrightarrow> sh_should_write_trailer sink \<or> ih_ctx sink' \<noteq> None"
proof -
  have "live w' = live w \<and> ih_ctx sink' = ih_ctx sink \<and>
    (sh_should_write_trailer sink' \<longrightarrow> sh_should_write_trailer sink \<or> ih_ctx sink' \<noteq> None)"
  proof (cases "ih_ctx source = None \<or> ih_ctx sink = None")
    case True
    with assms(4) show ?thesis by (auto simp: use_streams_def split: option.splits)
  next
    case False
    then obtain i ou where c: "ih_ctx source = Some i" "ih_ctx sink = Some ou" by auto
    obtain r1 w1 where p: "prepare i ou w = (r1, w1)" by fastforce
    obtain e w2 where h: "fa_write_header api ou w1 = (e, w2)" by fastforce
    obtain r3 w3 where m: "remux i ou w2 = (r3, w3)" by fastforce
    have "live w1 = live w" using assms(2) p by (simp add: keeps_contexts_def) (metis snd_conv)
    moreover have "live w2 = live w1" using format_apiD(8) [OF assms(1) h] .
    moreover have "live w3 = live w2" using assms(3) m by (simp add: keeps_contexts_def) (metis snd_conv)
    ultimately show ?thesis
      using assms(4) c p h m by (auto simp: use_streams_def sink_handle_start_def split: sum.splits if_splits)
  qed
  then show "live w' = live w" and "ih_ctx sink' = ih_ctx sink"
    and "sh_should_write_trailer sink' \<longrightarrow> sh_should_write_trailer sink \<or> ih_ctx sink' \<noteq> None" by blast+
qed

text \<open>Which call of a thread loses a context.\<close>

definition thread_leaks :: "('c, 'w) format_api \<Rightarrow> string \<Rightarrow> string \<Rightarrow> string option \<Rightarrow> string \<Rightarrow> string option \<Rightarrow> 'w \<Rightarrow> bool" where
  "thread_leaks api name source_url source_format sink_url sink_format w \<longleftrightarrow>
     source_open_leaks api source_url source_format w \<or>
     (case source_handle_open api source_format (new_source name source_url) w of
        (Inl e, _, w) \<Rightarrow> False
      | (Inr _, _, w) \<Rightarrow> sink_open_leaks api sink_url sink_format w)"

lemma opened_source_no_leak:
  "source_handle_open api fmt h w = (Inr u, h', w') \<Longrightarrow> \<not> source_open_leaks api (ih_url h) fmt w"
proof -
  assume open_ok: "source_handle_open api fmt h w = (Inr u, h', w')"
  obtain ctx w1 where a: "fa_alloc_context api w = (ctx, w1)" by fastforce
  with open_ok obtain c where c: "ctx = Some c" by (cases ctx) (simp_all add: source_handle_open_def)
  obtain e1 w2 where o: "fa_open_input api c (ih_url h) fmt w1 = (e1, w2)" by fastforce
  obtain e2 w3 where i: "fa_find_stream_info api c w2 = (e2, w3)" by fastforce
  from open_ok show ?thesis
    by (simp add: source_handle_open_def source_open_leaks_def a c o i not_less split: if_splits)
qed

lemma opened_card:
  assumes "opened before own now leak" and "finite before"
  shows "card (now - own) = card before + (if leak then 1 else 0)" and "before \<subseteq> now - own"
proof -
  obtain lost where l: "now = before \<union> own \<union> lost" "(own \<union> lost) \<inter> before = {}" "own \<inter> lost = {}" "finite lost"
    "card lost = (if leak then 1 else 0)" using assms(1) unfolding opened_def by blast
  show "before \<subseteq> now - own" using l by auto
  have "now - own = before \<union> lost" using l by auto
  with l show "card (now - own) = card before + (if leak then 1 else 0)"
    using card_Un_disjoint [of before lost] assms(2) by (simp add: Int_commute Int_Un_distrib)
qed

lemma opened_both:
  assumes "opened before own1 mid False" and "opened mid own2 now leak"
  shows "opened before (own1 \<union> own2) now leak"
proof -
  obtain lost1 where 1: "mid = before \<union> own1 \<union> lost1" "(own1 \<union> lost1) \<inter> before = {}" "finite lost1" "card lost1 = 0"
    using assms(1) unfolding opened_def by auto
  then have "lost1 = {}" by simp
  moreover obtain lost2 where 2: "now = mid \<union> own2 \<union> lost2" "(own2 \<union> lost2) \<inter> mid = {}" "own2 \<inter> lost2 = {}" "finite lost2"
    "card lost2 = (if leak then 1 else 0)" using assms(2) unfolding opened_def by blast
  ultimately have "now = before \<union> (own1 \<union> own2) \<union> lost2" "(own1 \<union> own2 \<union> lost2) \<inter> before = {}" "(own1 \<union> own2) \<inter> lost2 = {}"
    using 1(1,2) by auto
  with 2(4,5) show ?thesis unfolding opened_def by blast
qed

lemma sink_destroy_contexts:
  assumes "format_api_ok api live" and "sh_should_write_trailer h \<longrightarrow> ih_ctx h \<noteq> None"
  shows "\<exists>w'. sink_handle_destroy im api h w = Inr w' \<and> live w' = live w - owned h"
  using assms(2) destroy_contexts [OF assms(1), of h] format_apiD(9) [OF assms(1)]
  by (auto simp: sink_handle_destroy_def split: option.splits)

lemma stream_thread_contexts:
  fixes api :: "('c, 'w) format_api"
  assumes "format_api_ok api live" and "keeps_contexts live prepare" and "keeps_contexts live remux" and "finite (live w)"
  shows "\<exists>r w'. stream_thread im api prepare remux name source_url source_format sink_url sink_format w = Inr (r, w') \<and>
    live w \<subseteq> live w' \<and>
    card (live w') = card (live w) + (if thread_leaks api name source_url source_format sink_url sink_format w then 1 else 0)"
proof -
  let ?source = "new_source name source_url :: 'c io_handle" and ?sink = "new_sink name sink_url :: 'c sink_handle"
  have new: "ih_ctx ?source = None" "ih_ctx ?sink = None" "ih_url ?source = source_url" "ih_url ?sink = sink_url"
    "\<not> sh_should_write_trailer ?sink" by (simp_all add: new_source_def new_sink_def)
  obtain r1 source w1 where o1: "source_handle_open api source_format ?source w = (r1, source, w1)" by (metis prod_cases3)
  note s1 = source_open_contexts [OF assms(1) o1 new(1)]
  obtain r source' sink w2 where all: "(case source_handle_open api source_format ?source w of
            (Inl e, source, w) \<Rightarrow> (Inl e, source, ?sink, w)
          | (Inr _, source, w) \<Rightarrow> (case sink_handle_open api sink_format ?sink w of
              (Inl e, sink, w) \<Rightarrow> (Inl e, source, sink, w)
            | (Inr _, sink, w) \<Rightarrow> (let (r, sink, w) = use_streams im api prepare remux source sink w in (r, source, sink, w))))
      = (r, source', sink, w2)"
    by (rule prod_cases4)
  have main: "opened (live w) (owned source' \<union> owned sink) (live w2) (thread_leaks api name source_url source_format sink_url sink_format w) \<and>
      (sh_should_write_trailer sink \<longrightarrow> ih_ctx sink \<noteq> None)"
  proof (cases r1)
    case (Inl e)
    then have "source' = source" "sink = ?sink" "w2 = w1" using all o1 by simp_all
    then show ?thesis using s1(1) [unfolded new] Inl o1 by (simp add: thread_leaks_def owned_def new)
  next
    case (Inr u)
    obtain r2 sink1 w3 where o2: "sink_handle_open api sink_format ?sink w1 = (r2, sink1, w3)" by (metis prod_cases3)
    note s2 = sink_open_contexts [OF assms(1) o2 new(2)]
    have nl: "\<not> source_open_leaks api source_url source_format w" using opened_source_no_leak [OF o1 [unfolded Inr], unfolded new(3)] .
    have leak: "thread_leaks api name source_url source_format sink_url sink_format w \<longleftrightarrow> sink_open_leaks api sink_url sink_format w1"
      using nl o1 Inr by (simp add: thread_leaks_def)
    have both: "opened (live w) (owned source \<union> owned sink1) (live w3) (sink_open_leaks api sink_url sink_format w1)"
      using opened_both [OF _ s2(1) [unfolded new]] s1(1) [unfolded new] nl by simp
    show ?thesis
    proof (cases r2)
      case (Inl e)
      then have "source' = source" "sink = sink1" "w2 = w3" using all o1 o2 Inr by simp_all
      then show ?thesis using both leak s2(3) new by simp
    next
      case (Inr u2)
      obtain r3 sink3 w4 where u: "use_streams im api prepare remux source sink1 w3 = (r3, sink3, w4)" by (metis prod_cases3)
      then have "source' = source" "sink = sink3" "w2 = w4" using all o1 o2 Inr \<open>r1 = Inr u\<close> by simp_all
      then show ?thesis
        using both leak s2(3) new use_streams_contexts [OF assms(1-3) u] by (simp add: owned_def)
    qed
  qed
  obtain w' where d: "sink_handle_destroy im api sink (io_handle_destroy api source' w2) = Inr w'"
    and l: "live w' = live w2 - (owned source' \<union> owned sink)"
    using sink_destroy_contexts [OF assms(1), of sink im "io_handle_destroy api source' w2"] main
    by (auto simp: destroy_contexts [OF assms(1)])
  have "stream_thread im api prepare remux name source_url source_format sink_url sink_format w = Inr (r, w')"
    using all d by (simp add: stream_thread_def Let_def)
  then show ?thesis using opened_card [OF conjunct1 [OF main] assms(4)] unfolding l [symmetric] by blast
qed

text \<open>
  C27: Whatever happens between making a thread's two handles and destroying them, every format
  context that the thread allocated is freed, except for one when the input format is unknown,
  the stream info cannot be found, or the sink's file cannot be opened; the contexts of others
  are never freed.
\<close>

theorem contexts_freed_unless_opening_fails:
  assumes "format_api_ok api live" and "keeps_contexts live prepare" and "keeps_contexts live remux" and "finite (live w)"
  shows "\<exists>r w'. stream_thread im api prepare remux name source_url source_format sink_url sink_format w = Inr (r, w') \<and>
    live w \<subseteq> live w' \<and>
    card (live w') = card (live w) + (if thread_leaks api name source_url source_format sink_url sink_format w then 1 else 0)"
  using stream_thread_contexts [OF assms] .

section \<open>Restarts\<close>

text \<open>The supervisor's loop, for \<open>n\<close> rounds: whatever an attempt returns or throws, the next one follows.\<close>

fun attempts :: "nat \<Rightarrow> ('w \<Rightarrow> (unit result \<times> 'w) result) \<Rightarrow> 'w \<Rightarrow> 'w result" where
  "attempts 0 f w = Inr w"
| "attempts (Suc n) f w = bind_res (f w) (\<lambda>(r, w). attempts n f w)"

text \<open>
  C28: A thread that can never open its stream in one of these ways loses one format context
  with every restart of the supervisor, so their number grows without bound.
\<close>

theorem failing_restarts_pile_up_contexts:
  assumes "format_api_ok api live" and "keeps_contexts live prepare" and "keeps_contexts live remux" and "finite (live w)"
    and "\<forall>w. thread_leaks api name source_url source_format sink_url sink_format w"
  shows "\<exists>w'. attempts n (stream_thread im api prepare remux name source_url source_format sink_url sink_format) w = Inr w' \<and>
    card (live w') = card (live w) + n"
  using assms(4)
proof (induction n arbitrary: w)
  case (Suc n)
  obtain r w1 where 1: "stream_thread im api prepare remux name source_url source_format sink_url sink_format w = Inr (r, w1)"
    "live w \<subseteq> live w1" "card (live w1) = card (live w) + 1"
    using stream_thread_contexts [OF assms(1-3) Suc.prems, of im name source_url source_format sink_url sink_format] assms(5) by auto
  then have "finite (live w1)" by (metis card.infinite add_is_0 zero_neq_one)
  from Suc.IH [OF this] 1 show ?case by auto
qed simp

text \<open>
  A sink that was started and then moved from fails in its destructor: the flag for the trailer
  is copied, the context is not.
\<close>

theorem moved_sink_writes_trailer:
  assumes "sh_should_write_trailer h"
  shows "is_error (sink_handle_destroy im api (snd (sink_handle_move h)) w)"
  using assms by (auto simp: sink_handle_move_def sink_handle_destroy_def is_error_iff cpp_assert_def)

section \<open>An instance\<close>

text \<open>The world is the list of the live contexts; \<open>file_ok\<close> says whether sinks can be opened.\<close>

definition list_api :: "bool \<Rightarrow> (nat, nat list) format_api" where
  "list_api file_ok = \<lparr>fa_alloc_context = (\<lambda>w. (Some (Suc (sum_list w)), Suc (sum_list w) # w)),
     fa_input_format = (\<lambda>n. n = ''mpegts''), fa_open_input = (\<lambda>c u n w. (0, w)), fa_find_stream_info = (\<lambda>c w. (0, w)),
     fa_alloc_output = (\<lambda>n u w. (0, Suc (sum_list w), Suc (sum_list w) # w)), fa_no_file = (\<lambda>c w. False),
     fa_avio_open = (\<lambda>c u w. (if file_ok then 0 else - 2, w)), fa_write_header = (\<lambda>c w. (0, w)),
     fa_write_trailer = (\<lambda>c w. w), fa_close_input = (\<lambda>c w. (None, case c of None \<Rightarrow> w | Some c \<Rightarrow> filter (\<lambda>x. x \<noteq> c) w)),
     fa_free_context = (\<lambda>c w. case c of None \<Rightarrow> w | Some c \<Rightarrow> filter (\<lambda>x. x \<noteq> c) w), fa_strerror = (\<lambda>e. [])\<rparr>"

lemma list_api_ok: "format_api_ok (list_api file_ok) set"
proof -
  have "Suc (sum_list w) \<notin> set w" for w :: "nat list" using member_le_sum_list [of "Suc (sum_list w)" w] by auto
  then show ?thesis unfolding format_api_ok_def list_api_def by auto
qed

lemma keeps_nothing: "keeps_contexts live (\<lambda>i ou w. (r, w))"
  by (simp add: keeps_contexts_def)

lemma list_api_leaks: "thread_leaks (list_api False) name su None ku None w"
  by (simp add: thread_leaks_def source_open_leaks_def sink_open_leaks_def source_handle_open_def list_api_def
    context_ptr_reset_def new_source_def)

theorem contexts_freed_unless_opening_fails_witness:
  "\<exists>r w'. stream_thread sample_impl (list_api False) (\<lambda>i ou w. (Inr (), w)) (\<lambda>i ou w. (Inr (), w))
      ''output'' ''rtmp://a'' None ''rtmp://b'' None [7] = Inr (r, w') \<and> 7 \<in> set w' \<and> card (set w') = 2"
  using contexts_freed_unless_opening_fails [OF list_api_ok [of False] keeps_nothing [of _ "Inr ()"] keeps_nothing [of _ "Inr ()"],
    of "[7]" sample_impl "''output''" "''rtmp://a''" None "''rtmp://b''" None] by (simp add: list_api_leaks numeral_2_eq_2)

theorem failing_restarts_pile_up_contexts_witness:
  "\<exists>w'. attempts 1000 (stream_thread sample_impl (list_api False) (\<lambda>i ou w. (Inr (), w)) (\<lambda>i ou w. (Inr (), w))
      ''output'' ''rtmp://a'' None ''rtmp://b'' None) [] = Inr w' \<and> card (set w') = 1000"
proof -
  have "\<forall>w. thread_leaks (list_api False) ''output'' ''rtmp://a'' None ''rtmp://b'' None w" by (simp add: list_api_leaks)
  from failing_restarts_pile_up_contexts [OF list_api_ok [of False] keeps_nothing [of _ "Inr ()"] keeps_nothing [of _ "Inr ()"] _ this,
    of "[]" 1000 sample_impl] show ?thesis by simp
qed

theorem moved_sink_writes_trailer_witness:
  "is_error (sink_handle_destroy sample_impl (list_api True)
     (snd (sink_handle_move ((new_sink ''output'' ''u'')\<lparr>ih_ctx := Some 1, sh_should_write_trailer := True\<rparr>))) [1])"
  by (rule moved_sink_writes_trailer) simp

end
