(* ===== verification/Logging.thy ===== *)
theory Logging
  imports Printing Options
begin

text \<open>
  What reaches the log and the standard output: \<^verbatim>\<open>src/log.cpp\<close>,
  \<^verbatim>\<open>version.cpp\<close> and \<^verbatim>\<open>util.h\<close>.  The time of a record is the
  text that Boost formats, and the dump of bytes is FFmpeg's.
\<close>

section \<open>Records\<close>

record log_record =
  lr_time :: string
  lr_severity :: severity_level
  lr_thread_name :: "string option"
  lr_thread_id :: string
  lr_message :: string

definition severity_name :: "severity_level \<Rightarrow> string" where
  "severity_name l = (case l of Log_Trace \<Rightarrow> ''trace'' | Log_Debug \<Rightarrow> ''debug'' | Log_Info \<Rightarrow> ''info''
     | Log_Warning \<Rightarrow> ''warning'' | Log_Error \<Rightarrow> ''error'' | Log_Fatal \<Rightarrow> ''fatal'')"

text \<open>\<^verbatim>\<open>setw(18)\<close> with \<^verbatim>\<open>left\<close> fills up, \<^verbatim>\<open>max_size_decor\<close> cuts off.\<close>

definition COLUMN_WIDTH :: nat where
  "COLUMN_WIDTH = 18"

definition thread_column :: "log_record \<Rightarrow> string" where
  "thread_column r = (let name = (case lr_thread_name r of Some n \<Rightarrow> n | None \<Rightarrow> lr_thread_id r) in
     take COLUMN_WIDTH (name @ replicate (COLUMN_WIDTH - length name) CHR '' ''))"

definition log_line :: "log_record \<Rightarrow> string" where
  "log_line r = ''['' @ lr_time r @ ''] '' @ ''['' @ thread_column r @ ''] '' @
     ''['' @ severity_name (lr_severity r) @ ''] '' @ lr_message r"

text \<open>
  The name of a thread is an attribute that is added to the thread; Boost leaves an attribute alone
  that is already there.
\<close>

definition set_thread_name :: "string \<Rightarrow> string option \<Rightarrow> string option" where
  "set_thread_name thread_name attr = (case attr of Some n \<Rightarrow> Some n | None \<Rightarrow> Some thread_name)"

text \<open>The threads of the program and the names they give themselves.\<close>

datatype named_thread = Main | Controller | Output | Input string

definition thread_log_name :: "named_thread \<Rightarrow> string" where
  "thread_log_name t = (case t of Main \<Rightarrow> ''main'' | Controller \<Rightarrow> ''controller'' | Output \<Rightarrow> ''output''
     | Input input_name \<Rightarrow> ''input:'' @ input_name)"

lemma length_thread_column [simp]: "length (thread_column r) = COLUMN_WIDTH"
  by (simp add: thread_column_def Let_def)

lemma thread_log_name_inject: "thread_log_name s = thread_log_name t \<longleftrightarrow> s = t"
  by (cases s; cases t) (simp_all add: thread_log_name_def)

lemma severity_name_delimited:
  "severity_name l @ CHR '']'' # xs = severity_name k @ CHR '']'' # ys \<longleftrightarrow> l = k \<and> xs = ys"
  by (cases l; cases k) (simp_all add: severity_name_def)

text \<open>
  With times of equal length, two records have the same line exactly when time, severity,
  message and the thread's column agree.
\<close>

theorem log_line_determines_record:
  assumes "length (lr_time r) = length (lr_time s)"
  shows "log_line r = log_line s \<longleftrightarrow> lr_time r = lr_time s \<and> lr_severity r = lr_severity s \<and>
    lr_message r = lr_message s \<and> thread_column r = thread_column s"
  using assms by (auto simp: log_line_def severity_name_delimited)

text \<open>
  With a thread's name as the filter exactly the records of this thread pass, at the levels of
  the other filter.
\<close>

theorem thread_filter_selects_one_thread:
  "log_filter lvl (Some (thread_log_name t)) l (thread_log_name s) \<longleftrightarrow>
     s = t \<and> (case lvl of Some k \<Rightarrow> level_rank k \<le> level_rank l | None \<Rightarrow> True)"
  by (auto simp: log_filter_def thread_log_name_inject not_less split: option.splits)

text \<open>
  Two inputs whose names agree in the first twelve characters have the same lines in the log.
\<close>

theorem long_input_names_look_alike:
  assumes "take 12 m = take 12 n" and "length m \<ge> 12" and "length n \<ge> 12"
  shows "log_line (r\<lparr>lr_thread_name := Some (thread_log_name (Input m))\<rparr>) =
    log_line (r\<lparr>lr_thread_name := Some (thread_log_name (Input n))\<rparr>)"
proof -
  have "take 18 (thread_log_name (Input k)) = ''input:'' @ take 12 k" for k by (simp add: thread_log_name_def)
  with assms show ?thesis by (simp add: log_line_def thread_column_def thread_log_name_def COLUMN_WIDTH_def Let_def)
qed

section \<open>The version\<close>

text \<open>Boost's version is one number.\<close>

definition boost_version :: "nat \<Rightarrow> nat \<times> nat \<times> nat" where
  "boost_version n = (n div 100000, n div 100 mod 1000, n mod 100)"

definition put_version :: "nat \<times> nat \<times> nat \<Rightarrow> ostream \<Rightarrow> ostream" where
  "put_version v = (let (major, minor, patch) = v in
     emits [put_number major, put ''.'', put_number minor, put ''.'', put_number patch])"

record versions =
  ve_metamix :: string
  ve_boost :: nat
  ve_json :: "nat \<times> nat \<times> nat"
  ve_ffmpeg :: string
  ve_configuration :: string

definition print_version :: "versions \<Rightarrow> ostream \<Rightarrow> ostream" where
  "print_version v = (let endl = put (CHR 0x0A # []) in
     emits [put ''Metamix '', put (ve_metamix v), endl,
       put ''Developed by Software Mansion for 5stream/Cloudmix'', endl, endl,
       put ''Boost C++ Libraries  '', put (text_of (put_version (boost_version (ve_boost v)))), endl,
       put ''FFmpeg               '', put (ve_ffmpeg v), endl,
       put ''nlohmann/json.hpp    '', put (text_of (put_version (ve_json v))), endl, endl,
       put ''FFmpeg configuration:'', endl, put (ve_configuration v), endl])"

lemma digits_dot:
  assumes "digits 10 m @ CHR ''.'' # u = digits 10 n @ CHR ''.'' # v"
  shows "m = n \<and> u = v"
proof -
  have "CHR ''.'' \<notin> digit_set" by (simp add: digit_set_def)
  then have "digits 10 m = digits 10 n \<and> CHR ''.'' # u = CHR ''.'' # v"
    by (intro same_head [OF digits_set digits_set _ _ assms]) auto
  then show ?thesis by (simp add: digits_inject)
qed

lemma version_text: "text_of (put_version (a, b, c)) = digits 10 a @ CHR ''.'' # digits 10 b @ CHR ''.'' # digits 10 c"
  by (simp add: put_version_def prints)

text \<open>
  The text of a version determines its three numbers.
\<close>

theorem version_text_determines_version:
  "text_of (put_version v) = text_of (put_version w) \<longleftrightarrow> v = w"
proof
  assume e: "text_of (put_version v) = text_of (put_version w)"
  obtain a b c where v: "v = (a, b, c)" by (cases v)
  obtain a' b' c' where w: "w = (a', b', c')" by (cases w)
  from e have 1: "a = a' \<and> digits 10 b @ CHR ''.'' # digits 10 c = digits 10 b' @ CHR ''.'' # digits 10 c'"
    unfolding v w version_text by (rule digits_dot)
  then have "b = b' \<and> digits 10 c = digits 10 c'" by (intro digits_dot) blast
  with 1 show "v = w" by (simp add: v w digits_inject)
qed simp

lemma boost_version_inject: "boost_version m = boost_version n \<longleftrightarrow> m = n"
proof
  assume "boost_version m = boost_version n"
  then have e: "m div 100000 = n div 100000" "m div 100 mod 1000 = n div 100 mod 1000" "m mod 100 = n mod 100"
    by (simp_all add: boost_version_def)
  have "k = 100000 * (k div 100000) + 100 * (k div 100 mod 1000) + k mod 100" for k :: nat
  proof -
    have 1: "k div 100 div 1000 = k div 100000" by (simp add: div_mult2_eq [symmetric])
    have 2: "k div 100 * 100 + k mod 100 = k" by (rule div_mult_mod_eq)
    have 3: "k div 100 div 1000 * 1000 + k div 100 mod 1000 = k div 100" by (rule div_mult_mod_eq)
    from 1 2 3 show ?thesis by linarith
  qed
  with e show "m = n" by metis
qed simp

section \<open>Small helpers\<close>

definition boost_optional_to_std :: "'a option \<Rightarrow> 'a option" where
  "boost_optional_to_std bo = (case bo of Some x \<Rightarrow> Some x | None \<Rightarrow> None)"

text \<open>\<^verbatim>\<open>av_hex_dump\<close> takes the bytes and their number.\<close>

definition hex_dump :: "(u8 list \<Rightarrow> nat \<Rightarrow> string) \<Rightarrow> u8 list \<Rightarrow> string" where
  "hex_dump av_hex_dump vec = av_hex_dump vec (length vec)"

section \<open>Instances\<close>

definition sample_record :: log_record where
  "sample_record = \<lparr>lr_time = ''2018-07-01, 12:00:00.000000'', lr_severity = Log_Info, lr_thread_name = Some ''output'',
     lr_thread_id = ''0x1'', lr_message = ''Hello''\<rparr>"

theorem log_line_determines_record_witness:
  "log_line sample_record = ''[2018-07-01, 12:00:00.000000] [output            ] [info] Hello'' \<and>
   log_line sample_record \<noteq> log_line (sample_record\<lparr>lr_severity := Log_Error\<rparr>)"
proof -
  have "log_line sample_record = ''[2018-07-01, 12:00:00.000000] [output            ] [info] Hello''" by code_simp
  moreover have "log_line sample_record \<noteq> log_line (sample_record\<lparr>lr_severity := Log_Error\<rparr>)"
    by (subst log_line_determines_record) (simp_all add: sample_record_def)
  ultimately show ?thesis by blast
qed

theorem long_input_names_look_alike_witness:
  "log_line (sample_record\<lparr>lr_thread_name := Some (thread_log_name (Input ''backup-stream-1''))\<rparr>) =
   log_line (sample_record\<lparr>lr_thread_name := Some (thread_log_name (Input ''backup-stream-2''))\<rparr>)"
  by (rule long_input_names_look_alike) simp_all

end
