(* ===== verification/Spec2Isabelle.thy ===== *)
theory Spec2Isabelle
  imports Scte35_Types Scte35_Equality Scte35_Print Ebsp Sei Packet_Refs Clock_Types Delivery
    Packet_Lifetime Command_Line Program Slices Queue_Lock Contexts Logging
begin

text \<open>
  A verification library for Metamix, which takes several video inputs and one output.  One thread
  per input remuxes its stream and extracts closed captions (SEI payloads of H.264) and SCTE-35
  sections into queues that are shared by all threads; the output thread remuxes the output stream,
  drives the clock with its timestamps and replaces the captions of every frame by those of the
  currently selected input; a REST controller switches the inputs.  The C++ sources are under
  \<^verbatim>\<open>src/src\<close>.

  \<^bold>\<open>Bytes.\<close>  \<^verbatim>\<open>Prelude\<close> has the outcomes: an exception, a
  failed assertion or an access out of range is a value \<open>Inl e\<close>, and \<^verbatim>\<open>cpp_impl\<close>
  holds what the language leaves open (assertions on or off, orders of evaluation).
  \<^verbatim>\<open>Byte_Cursor\<close> models \<^verbatim>\<open>binary_parser_util.h\<close> and
  \<^verbatim>\<open>binary_emitter_util.h\<close>: a reader takes the bytes up to the end pointer and returns
  the rest, a writer returns what it appends.  Its locales \<^verbatim>\<open>wire_format\<close>,
  \<^verbatim>\<open>sized_format\<close> and \<^verbatim>\<open>strict_reader\<close> state what an emitter, its size
  hint and a parser promise each other; \<^verbatim>\<open>Scte35_Roundtrip\<close> interprets them on every
  emitter of the code.  \<^verbatim>\<open>Crc32\<close> is \<^verbatim>\<open>scte35/crc32.h\<close>, with the
  table driven checksum proved equal to polynomial division.

  \<^bold>\<open>Packets.\<close>  \<^verbatim>\<open>Packet_Parser\<close> is the class template of
  \<^verbatim>\<open>binary_parser.h\<close> with the loop that all its users write.  The loop runs on fuel, one
  more than the bytes of the buffer; \<^verbatim>\<open>packet_format.parse_each_ends\<close> shows that this is
  always enough, so \<open>the\<close> in front of a loop never meets \<open>None\<close>.  The locales
  \<^verbatim>\<open>packet_format\<close> (a step moves on), \<^verbatim>\<open>total_format\<close> (a step never
  dereferences an empty result) and \<^verbatim>\<open>packet_codec\<close> (the loop reads what an emitter
  wrote) are interpreted on the three parsers of the program.

  \<^bold>\<open>SCTE-35.\<close>  \<^verbatim>\<open>Scte35_Data\<close>, \<^verbatim>\<open>Scte35_Emit\<close>,
  \<^verbatim>\<open>Scte35_Parse\<close>, \<^verbatim>\<open>Scte35_Section\<close> and
  \<^verbatim>\<open>Scte35_Sections\<close> follow \<^verbatim>\<open>scte35.h\<close>,
  \<^verbatim>\<open>emitter.h\<close> and \<^verbatim>\<open>parser.cpp\<close>.  Well-formed sections round trip, one
  by one and in streams; corrupted ones are rejected; \<^verbatim>\<open>Scte35_Limits\<close> collects what does
  not round trip.  \<^verbatim>\<open>Scte35_Types\<close> has the other direction: every accepted section is
  within the widths of the format, and most of them survive being emitted again.
  \<^verbatim>\<open>Scte35_Equality\<close> shows the comparison operators to be equality.

  \<^bold>\<open>Printing.\<close>  \<^verbatim>\<open>Printing\<close> models streams with their flags and the
  printers of \<^verbatim>\<open>optional_io.h\<close>, \<^verbatim>\<open>variant_io.h\<close> and
  \<^verbatim>\<open>byte_vector_io.h\<close>, with a locale for texts that end by themselves;
  \<^verbatim>\<open>Scte35_Print\<close> interprets it on every printer of
  \<^verbatim>\<open>scte35/scte35.cpp\<close>, so that the log determines the section.
  \<^verbatim>\<open>Logging\<close> has the line of a log record, the names of the threads and the version text.

  \<^bold>\<open>H.264.\<close>  \<^verbatim>\<open>Ebsp\<close> is \<^verbatim>\<open>rbsp.h\<close> (emulation
  prevention), \<^verbatim>\<open>Nalu\<close> the framing of NAL units, \<^verbatim>\<open>Sei\<close> the payloads
  in them: exact conditions for round trips, losslessness of the NALU loop, and the announced lengths.
  \<^verbatim>\<open>Slices\<close> has slices as views of buffers in memory with their checked iterators.

  \<^bold>\<open>Metadata.\<close>  \<^verbatim>\<open>Metadata\<close> has entries and kinds,
  \<^verbatim>\<open>Std_Heap\<close> the heap algorithms of the C++ library as GNU implements them, with a
  locale for what they promise, and \<^verbatim>\<open>Metadata_Queue\<close> the queue on them: popping is
  refined to the earliest matching entry.  \<^verbatim>\<open>Monitor\<close> and
  \<^verbatim>\<open>Queue_Lock\<close> go below that: the methods statement by statement, with any number of
  threads between them and a mutex; the locale \<^verbatim>\<open>critical_section\<close> shows once that such calls
  take effect one after the other, which is what \<^verbatim>\<open>System\<close> takes for granted.  \<^verbatim>\<open>Clock\<close> has the clock, its ticker and the
  rescaler.  Timestamps are integers; the counter of the clock wraps, other sums must not overflow.
  \<^verbatim>\<open>Clock_Types\<close> has the strong types of \<^verbatim>\<open>clock_types.h\<close> over 64-bit
  words and the clock over them, with bounds under which both clocks agree.

  \<^bold>\<open>Inputs.\<close>  \<^verbatim>\<open>Inputs\<close>, \<^verbatim>\<open>Input_Manager\<close>,
  \<^verbatim>\<open>Application\<close> and \<^verbatim>\<open>Controller\<close>: inputs with their queries, the
  manager with the invariant that the current inputs exist, in every state that the inductive
  \<^verbatim>\<open>reachable_manager\<close> and \<^verbatim>\<open>reachable_app\<close> reach, the shared state, and
  the requests, each of which changes everything it should or nothing.

  \<^bold>\<open>Streams.\<close>  \<^verbatim>\<open>Extractor\<close> and \<^verbatim>\<open>Injector\<close> are the
  packet processors of \<^verbatim>\<open>proc/extractor.cpp\<close> and
  \<^verbatim>\<open>proc/injector.cpp\<close>; \<^verbatim>\<open>Timeline\<close> runs the injector over frames and
  entries queued in between.  \<^verbatim>\<open>Streams\<close> classifies streams,
  \<^verbatim>\<open>Remux\<close> is the loop of \<^verbatim>\<open>io/remux_loop.cpp\<close> as rounds over an explicit
  state, \<^verbatim>\<open>Handles\<close> opens and closes sources and sinks, and
  \<^verbatim>\<open>Threads\<close> composes all of it to the functions that the threads run and the
  supervisor that restarts them.  A loop that may run forever is a partial function whose value is
  \<open>None\<close> then: \<^verbatim>\<open>remux_loop_ends\<close> shows that this takes an endless source, and
  \<^verbatim>\<open>supervised_thread_never_returns\<close> that the supervisor does it.
  \<^verbatim>\<open>Packet_Refs\<close> counts the references that \<^verbatim>\<open>ffmpeg.h\<close> takes and
  releases when NAL units are read, \<^verbatim>\<open>Packet_Lifetime\<close> that the loop over packets gives all of
  them back (its reader, processors and muxer are the record \<open>packet_user\<close>), \<^verbatim>\<open>Contexts\<close> who frees the format contexts of the
  handles, on every path through opening, remuxing and restarting.

  \<^bold>\<open>The whole program.\<close>  \<^verbatim>\<open>Options\<close> has the options of the inputs and the
  start, \<^verbatim>\<open>Command_Line\<close> the tables of options and the order of the two sources.  \<^verbatim>\<open>System\<close> interleaves the threads: every access to the shared state under a lock
  or to an atomic variable is a step of the inductive \<^verbatim>\<open>atomic_step\<close>, the functions of
  \<^verbatim>\<open>Threads\<close> and \<^verbatim>\<open>Controller\<close> are refined to sequences of steps,
  and what every step keeps holds in every reachable state.
  \<^verbatim>\<open>Delivery\<close> follows a caption from the queue to its frame through these steps.  \<^verbatim>\<open>Server\<close> adds the session of
  a client and the loop that accepts clients, and \<^verbatim>\<open>Program\<close> the threads that
  \<^verbatim>\<open>main.cpp\<close> starts and joins, with the condition under which the program ends.

  \<^bold>\<open>Parameters.\<close>  FFmpeg is not part of the sources: \<^verbatim>\<open>av_rescale_q\<close> is the
  argument \<open>rescale\<close>, \<^verbatim>\<open>av_grow_packet\<close> the argument \<open>grow\<close>, and the calls of the
  remux loop and of the handles are the fields of \<^verbatim>\<open>av_io\<close> and
  \<^verbatim>\<open>av_env\<close>.  The packets of \<^verbatim>\<open>Packet_Refs\<close> are the fields of \<^verbatim>\<open>packet_api\<close>, the contexts of
  \<^verbatim>\<open>Contexts\<close> those of \<^verbatim>\<open>format_api\<close>,
  sockets, HTTP and JSON text those of \<^verbatim>\<open>http_env\<close>.  The JSON parser of the controller
  and the option parser of Boost (\<open>options_api\<close>) are parameters too.
  Theorems that need something of them name it as a hypothesis, with a witness that instantiates it.

  \<^bold>\<open>Not modelled.\<close>  The help text is output for people; the registration of the log's sink and the hex
  dump are calls into libraries.  The capability flags of an input are plain variables that one thread writes and
  others read without a lock; the steps of \<^verbatim>\<open>System\<close> take such an access as atomic.
\<close>

end
